(* ===== verification/Enums.thy ===== *)
theory Enums
  imports Main
begin

text \<open>
  The closed enumerations of \<^verbatim>\<open>src/agentactum/enums.py\<close>, with the values of their
  members, and the order on risk levels that \<^verbatim>\<open>_RISK_RANK\<close> of
  \<^verbatim>\<open>policies/engine.py\<close> gives them. \<open>risk_level\<close> is an instance of \<open>linorder\<close> with
  exactly that order, so that \<open>\<le>\<close> and \<open>max\<close> on risks are the comparisons of the code.
\<close>

datatype effect_type =
  READ_ONLY | IDEMPOTENT | REVERSIBLE | COMPENSATABLE | STAGEABLE | IRREVERSIBLE

datatype risk_level = LOW | MEDIUM | HIGH | CRITICAL

datatype policy_decision_type =
  ALLOW | DENY | REQUIRE_APPROVAL | ALLOW_WITH_CONSTRAINTS

datatype transaction_status =
  PROPOSED | VALIDATING | AWAITING_APPROVAL | APPROVED | EXECUTING | COMMITTED
| REJECTED | FAILED | COMPENSATING | COMPENSATED | PARTIALLY_COMPENSATED

fun risk_level_value :: "risk_level \<Rightarrow> string" where
  "risk_level_value LOW = ''low''"
| "risk_level_value MEDIUM = ''medium''"
| "risk_level_value HIGH = ''high''"
| "risk_level_value CRITICAL = ''critical''"

fun policy_decision_type_value :: "policy_decision_type \<Rightarrow> string" where
  "policy_decision_type_value ALLOW = ''allow''"
| "policy_decision_type_value DENY = ''deny''"
| "policy_decision_type_value REQUIRE_APPROVAL = ''require_approval''"
| "policy_decision_type_value ALLOW_WITH_CONSTRAINTS = ''allow_with_constraints''"

section \<open>The risk order\<close>

fun RISK_RANK :: "risk_level \<Rightarrow> nat" where
  "RISK_RANK LOW = 0"
| "RISK_RANK MEDIUM = 1"
| "RISK_RANK HIGH = 2"
| "RISK_RANK CRITICAL = 3"

lemma RISK_RANK_inj: "RISK_RANK a = RISK_RANK b \<longleftrightarrow> a = b"
  by (cases a; cases b) simp_all

instantiation risk_level :: linorder
begin

definition less_eq_risk_level :: "risk_level \<Rightarrow> risk_level \<Rightarrow> bool" where
  "less_eq_risk_level a b \<longleftrightarrow> RISK_RANK a \<le> RISK_RANK b"

definition less_risk_level :: "risk_level \<Rightarrow> risk_level \<Rightarrow> bool" where
  "less_risk_level a b \<longleftrightarrow> RISK_RANK a < RISK_RANK b"

instance
  by standard (auto simp: less_eq_risk_level_def less_risk_level_def RISK_RANK_inj)

end

lemma risk_le_rank: "a \<le> b \<longleftrightarrow> RISK_RANK a \<le> RISK_RANK b"
  by (simp add: less_eq_risk_level_def)

lemma risk_less_rank: "a < b \<longleftrightarrow> RISK_RANK a < RISK_RANK b"
  by (simp add: less_risk_level_def)

lemma LOW_least [simp]: "LOW \<le> r"
  by (simp add: risk_le_rank)

lemma risk_at_least_HIGH: "HIGH \<le> r \<longleftrightarrow> r = HIGH \<or> r = CRITICAL"
  by (cases r) (simp_all add: risk_le_rank)

end
