(* ===== verification/Prelude.thy ===== *)
theory Prelude
  imports Enums "HOL-Library.Word"
begin

text \<open>
  What every component shares: identifiers, instants and clocks; the exceptions of the
  source as values; results (\<open>error + 'a\<close>) and actions that thread a state; the text functions
  and the insertion-ordered dictionaries of Python that the source uses; and the two small calculi the proofs
  of the components rest on, \<open>keeps\<close> (an action leaves a part of the state alone) and
  \<open>ends\<close> (every outcome of an action satisfies a postcondition).
\<close>

named_theorems keeps_intros \<open>rules that show that an action leaves a component alone\<close>
named_theorems action_simps \<open>equations that run actions\<close>

section \<open>Identifiers and time\<close>

text \<open>
  A \<^verbatim>\<open>UUID\<close> is its 128-bit value. An aware \<^verbatim>\<open>datetime\<close> is the instant it denotes, in
  microseconds since the epoch: aware datetimes compare by instant. A clock is what a
  \<^verbatim>\<open>Callable[[], datetime]\<close> returns at each reading, indexed by the process-wide number of
  the reading, so that several clocks may run side by side and none needs to be monotone.
\<close>

type_synonym uuid = "128 word"
type_synonym time = int
type_synonym clock = "nat \<Rightarrow> time"

section \<open>Exceptions and results\<close>

datatype error =
  ValidationError string
| TypeErr string
| ValueErr string
| KeyErr string
| OverflowErr string
| DuplicateToolRegistrationError string
| UnknownToolError string
| IdempotencyOwnershipError string
| IdempotencyKeyError string
| MissingIdempotencyFieldError string
| IllegalTransactionTransitionError transaction_status transaction_status
| UnknownOutboxOperationError uuid
| SchemaValidationError string
| LangGraphIntegrationError string
| CallbackError

type_synonym 'a result = "error + 'a"

definition bindR :: "'a result \<Rightarrow> ('a \<Rightarrow> 'b result) \<Rightarrow> 'b result" where
  "bindR r f = (case r of Inl e \<Rightarrow> Inl e | Inr x \<Rightarrow> f x)"

definition require :: "bool \<Rightarrow> error \<Rightarrow> unit result" where
  "require c e = (if c then Inr () else Inl e)"

definition from_option :: "error \<Rightarrow> 'a option \<Rightarrow> 'a result" where
  "from_option e x = (case x of None \<Rightarrow> Inl e | Some y \<Rightarrow> Inr y)"

lemma bindR_simps [simp]:
  "bindR (Inl e) f = Inl e"
  "bindR (Inr x) f = f x"
  by (simp_all add: bindR_def)

lemma bindR_Inr_iff: "bindR r f = Inr y \<longleftrightarrow> (\<exists>x. r = Inr x \<and> f x = Inr y)"
  by (cases r) simp_all

lemma require_simps [simp]:
  "require True e = Inr ()"
  "require False e = Inl e"
  "require c e = Inr u \<longleftrightarrow> c"
  by (simp_all add: require_def)

lemma from_option_simps [simp]:
  "from_option e None = Inl e"
  "from_option e (Some x) = Inr x"
  "from_option e r = Inr y \<longleftrightarrow> r = Some y"
  by (cases r; simp add: from_option_def)+

lemmas result_iffs = bindR_Inr_iff require_simps from_option_simps

text \<open>A comprehension over calls that may raise: the first exception, or all values.\<close>

fun collect :: "'a result list \<Rightarrow> 'a list result" where
  "collect [] = Inr []"
| "collect (r # rs) = bindR r (\<lambda>x. bindR (collect rs) (\<lambda>xs. Inr (x # xs)))"

lemma collect_Inr: "collect rs = Inr xs \<longleftrightarrow> rs = map Inr xs"
proof (induction rs arbitrary: xs)
  case (Cons r rs)
  then show ?case by (cases r; cases xs) (auto simp: bindR_Inr_iff)
qed auto

lemma collect_ok: "(\<exists>xs. collect rs = Inr xs) \<longleftrightarrow> list_all (\<lambda>r. \<exists>x. r = Inr x) rs"
  by (induction rs) (auto simp: bindR_Inr_iff)

section \<open>Actions\<close>

text \<open>
  A method of the source is an action: from the state it returns either the exception it
  raises or its value, and the state it leaves. A raise does not undo the writes before it.
\<close>

type_synonym ('s, 'a) action = "'s \<Rightarrow> 'a result \<times> 's"

definition retM :: "'a \<Rightarrow> ('s, 'a) action" where
  "retM x s = (Inr x, s)"

definition raiseM :: "error \<Rightarrow> ('s, 'a) action" where
  "raiseM e s = (Inl e, s)"

definition liftM :: "'a result \<Rightarrow> ('s, 'a) action" where
  "liftM r s = (r, s)"

definition bindM :: "('s, 'a) action \<Rightarrow> ('a \<Rightarrow> ('s, 'b) action) \<Rightarrow> ('s, 'b) action" where
  "bindM m f s = (case m s of (Inl e, s') \<Rightarrow> (Inl e, s') | (Inr x, s') \<Rightarrow> f x s')"

text \<open>\<^verbatim>\<open>try: x = m() except Exception: ...\<close>: \<open>None\<close> when an exception was caught.\<close>

definition tryM :: "('s, 'a) action \<Rightarrow> ('s, 'a option) action" where
  "tryM m s = (case m s of (Inl e, s') \<Rightarrow> (Inr None, s') | (Inr x, s') \<Rightarrow> (Inr (Some x), s'))"

definition getM :: "('s \<Rightarrow> 'a) \<Rightarrow> ('s, 'a) action" where
  "getM f s = (Inr (f s), s)"

definition modifyM :: "('s \<Rightarrow> 's) \<Rightarrow> ('s, unit) action" where
  "modifyM f s = (Inr (), f s)"

lemma action_run [simp, action_simps]:
  "retM x s = (Inr x, s)"
  "raiseM e s = (Inl e, s)"
  "liftM r s = (r, s)"
  "getM f s = (Inr (f s), s)"
  "modifyM g s = (Inr (), g s)"
  by (simp_all add: retM_def raiseM_def liftM_def getM_def modifyM_def)

lemma bindM_run [action_simps]:
  "m s = (Inl e, s') \<Longrightarrow> bindM m f s = (Inl e, s')"
  "m s = (Inr x, s') \<Longrightarrow> bindM m f s = f x s'"
  by (simp_all add: bindM_def)

lemma bindM_basic [simp]:
  "bindM (retM x) f = f x"
  "bindM (raiseM e) f = raiseM e"
  "bindM (liftM (Inl e)) f = raiseM e"
  "bindM (liftM (Inr x)) f = f x"
  "bindM (getM g) f s = f (g s) s"
  "bindM (modifyM h) k s = k () (h s)"
  by (simp_all add: bindM_def fun_eq_iff)

lemma bindM_Pair [simp]:
  "bindM (Pair (Inr x)) k = k x"
  "bindM (Pair (Inl e)) k = Pair (Inl e)"
  by (simp_all add: bindM_def fun_eq_iff)

lemma tryM_run [action_simps]:
  "m s = (Inl e, s') \<Longrightarrow> tryM m s = (Inr None, s')"
  "m s = (Inr x, s') \<Longrightarrow> tryM m s = (Inr (Some x), s')"
  by (simp_all add: tryM_def)

lemma bindM_cases:
  "bindM m f s = (case m s of (r, s') \<Rightarrow> case r of Inl e \<Rightarrow> (Inl e, s') | Inr x \<Rightarrow> f x s')"
  by (cases "m s"; cases "fst (m s)") (simp_all add: bindM_def)

lemma bindM_Inr_elim:
  assumes "bindM m f s = (Inr y, t)"
  obtains x s' where "m s = (Inr x, s')" and "f x s' = (Inr y, t)"
  using assms by (auto simp: bindM_def split: prod.splits sum.splits)

section \<open>Framing: what an action leaves alone\<close>

definition keeps :: "('s \<Rightarrow> 'b) \<Rightarrow> ('s, 'a) action \<Rightarrow> bool" where
  "keeps f m \<longleftrightarrow> (\<forall>s. f (snd (m s)) = f s)"

lemma keepsD: "keeps f m \<Longrightarrow> m s = (r, t) \<Longrightarrow> f t = f s"
  by (metis keeps_def snd_conv)

lemma keeps_snd: "keeps f m \<Longrightarrow> f (snd (m s)) = f s"
  by (simp add: keeps_def)

lemma keeps_basic [keeps_intros]:
  "keeps f (retM x)" "keeps f (raiseM e)" "keeps f (liftM r)" "keeps f (getM g)"
  by (simp_all add: keeps_def)

lemma keeps_Pair [simp]: "keeps f (Pair r)"
  by (simp add: keeps_def)

lemma keeps_modifyM: "(\<And>s. f (g s) = f s) \<Longrightarrow> keeps f (modifyM g)"
  by (simp add: keeps_def)

lemma keeps_bindM [keeps_intros]:
  "keeps f m \<Longrightarrow> (\<And>x. keeps f (g x)) \<Longrightarrow> keeps f (bindM m g)"
  by (auto simp: keeps_def bindM_cases split: prod.splits sum.splits) (metis snd_conv)+

lemma keeps_tryM [keeps_intros]: "keeps f m \<Longrightarrow> keeps f (tryM m)"
  by (auto simp: keeps_def tryM_def split: prod.splits sum.splits) (metis snd_conv)+

lemma keeps_if [keeps_intros]:
  "(c \<Longrightarrow> keeps f m) \<Longrightarrow> (\<not> c \<Longrightarrow> keeps f n) \<Longrightarrow> keeps f (if c then m else n)"
  by simp

lemma keeps_case_option [keeps_intros]:
  "(x = None \<Longrightarrow> keeps f m) \<Longrightarrow> (\<And>y. x = Some y \<Longrightarrow> keeps f (n y)) \<Longrightarrow>
   keeps f (case x of None \<Rightarrow> m | Some y \<Rightarrow> n y)"
  by (cases x) simp_all

lemma keeps_case_sum [keeps_intros]:
  "(\<And>a. x = Inl a \<Longrightarrow> keeps f (m a)) \<Longrightarrow> (\<And>b. x = Inr b \<Longrightarrow> keeps f (n b)) \<Longrightarrow>
   keeps f (case x of Inl a \<Rightarrow> m a | Inr b \<Rightarrow> n b)"
  by (cases x) simp_all

lemma keeps_Let [keeps_intros]: "(\<And>y. keeps f (g y)) \<Longrightarrow> keeps f (let y = x in g y)"
  by simp

lemma keeps_then: "(\<And>x. keeps f (k x)) \<Longrightarrow> f (snd (bindM m k s)) = f (snd (m s))"
  by (auto simp: bindM_cases keeps_snd split: prod.splits sum.splits)

lemma keeps_change:
  assumes "f (snd (bindM m k s)) \<noteq> f s" and "keeps f m"
  obtains x s' where "m s = (Inr x, s')" and "bindM m k s = k x s'" and "f s' = f s"
proof (cases "m s")
  case (Pair r s')
  with assms show ?thesis
    by (cases r) (auto simp: bindM_cases dest: keepsD intro!: that)
qed

text \<open>A guard: where the value read is not \<open>ok\<close>, the rest leaves \<open>f\<close> alone.\<close>

lemma keeps_gate:
  assumes "f (snd (bindM m k s)) \<noteq> f s" and "keeps f m" and "\<And>x. \<not> ok x \<Longrightarrow> keeps f (k x)"
  obtains x s' where "m s = (Inr x, s')" and "ok x" and "bindM m k s = k x s'" and "f s' = f s"
  using assms(1,2)
proof (rule keeps_change)
  fix x s'
  assume run: "m s = (Inr x, s')" and eq: "bindM m k s = k x s'" and f: "f s' = f s"
  have "ok x"
  proof (rule ccontr)
    assume "\<not> ok x"
    then have "f (snd (k x s')) = f s'" by (intro keeps_snd assms(3))
    with assms(1) eq f show False by simp
  qed
  with run eq f show thesis by (intro that)
qed

section \<open>Evolution: how an action may change the state\<close>

text \<open>
  \<open>along R m\<close>: every run of \<open>m\<close>, whether it returns or raises, leaves a state that is
  related by \<open>R\<close> to the state it started in. The relations of interest are preorders: the
  interface \<open>evolution\<close> asks no more, and gives the rules for the actions built from others.
\<close>

definition along :: "('s \<Rightarrow> 's \<Rightarrow> bool) \<Rightarrow> ('s, 'a) action \<Rightarrow> bool" where
  "along R m \<longleftrightarrow> (\<forall>s. R s (snd (m s)))"

lemma alongD: "along R m \<Longrightarrow> m s = (r, t) \<Longrightarrow> R s t"
  by (metis along_def snd_conv)

lemma along_snd: "along R m \<Longrightarrow> R s (snd (m s))"
  by (simp add: along_def)

locale evolution =
  fixes R :: "'s \<Rightarrow> 's \<Rightarrow> bool"
  assumes refl: "R s s"
    and trans: "R s t \<Longrightarrow> R t u \<Longrightarrow> R s u"
begin

lemma basic: "along R (retM x)" "along R (raiseM e)" "along R (liftM r)" "along R (getM f)"
  by (simp_all add: along_def refl)

lemma bind: "along R m \<Longrightarrow> (\<And>x. along R (k x)) \<Longrightarrow> along R (bindM m k)"
  by (auto simp: along_def bindM_cases split: prod.splits sum.splits) (metis snd_conv trans)+

lemma tried: "along R m \<Longrightarrow> along R (tryM m)"
  by (auto simp: along_def tryM_def split: prod.splits sum.splits) (metis snd_conv)+

lemma cond: "(c \<Longrightarrow> along R m) \<Longrightarrow> (\<not> c \<Longrightarrow> along R n) \<Longrightarrow> along R (if c then m else n)"
  by simp

lemma case_option:
  "(x = None \<Longrightarrow> along R m) \<Longrightarrow> (\<And>y. x = Some y \<Longrightarrow> along R (n y)) \<Longrightarrow>
   along R (case x of None \<Rightarrow> m | Some y \<Rightarrow> n y)"
  by (cases x) simp_all

lemma case_sum:
  "(\<And>a. x = Inl a \<Longrightarrow> along R (m a)) \<Longrightarrow> (\<And>b. x = Inr b \<Longrightarrow> along R (n b)) \<Longrightarrow>
   along R (case x of Inl a \<Rightarrow> m a | Inr b \<Rightarrow> n b)"
  by (cases x) simp_all

lemma binding: "(\<And>y. along R (g y)) \<Longrightarrow> along R (let y = x in g y)"
  by simp

lemma iterate:
  assumes "\<And>x s. R s (step x s)"
  shows "R s (fold step xs s)"
  using assms by (induction xs arbitrary: s) (auto intro: refl trans)

lemmas intros = basic bind tried cond case_option case_sum binding

end

section \<open>Postconditions\<close>

definition ends :: "('s \<Rightarrow> bool) \<Rightarrow> ('s, 'a) action \<Rightarrow> ('a result \<Rightarrow> 's \<Rightarrow> bool) \<Rightarrow> bool" where
  "ends P m Q \<longleftrightarrow> (\<forall>s r t. P s \<longrightarrow> m s = (r, t) \<longrightarrow> Q r t)"

lemma endsD: "ends P m Q \<Longrightarrow> P s \<Longrightarrow> m s = (r, t) \<Longrightarrow> Q r t"
  by (simp add: ends_def)

lemma ends_bindM:
  assumes "ends P m (\<lambda>r t. case r of Inl e \<Rightarrow> Q (Inl e) t | Inr x \<Rightarrow> R x t)"
    and "\<And>x. ends (R x) (f x) Q"
  shows "ends P (bindM m f) Q"
  using assms
  by (fastforce simp: ends_def bindM_cases split: prod.splits sum.splits)

lemma ends_retM: "(\<And>s. P s \<Longrightarrow> Q (Inr x) s) \<Longrightarrow> ends P (retM x) Q"
  by (simp add: ends_def)

section \<open>Text\<close>

definition strip_by :: "(char \<Rightarrow> bool) \<Rightarrow> string \<Rightarrow> string" where
  "strip_by p s = rev (dropWhile p (rev (dropWhile p s)))"

text \<open>The characters that \<^verbatim>\<open>str.strip()\<close> removes, among the code points below 256.\<close>

definition py_isspace :: "char \<Rightarrow> bool" where
  "py_isspace c \<longleftrightarrow> (let n = of_char c :: int in
     (9 \<le> n \<and> n \<le> 13) \<or> (28 \<le> n \<and> n \<le> 32) \<or> n = 133 \<or> n = 160)"

definition py_strip :: "string \<Rightarrow> string" where
  "py_strip s = strip_by py_isspace s"

definition hex_digit :: "nat \<Rightarrow> char" where
  "hex_digit n = (if n < 10 then char_of (48 + n) else char_of (87 + n))"

text \<open>\<^verbatim>\<open>str(uuid)\<close>: 32 hexadecimal digits in groups of 8, 4, 4, 4 and 12.\<close>

definition uuid_hex :: "uuid \<Rightarrow> string" where
  "uuid_hex u = map (\<lambda>i. hex_digit (nat (uint u div 16 ^ i mod 16))) (rev [0..<32])"

definition uuid_str :: "uuid \<Rightarrow> string" where
  "uuid_str u = (let h = uuid_hex u in
     take 8 h @ ''-'' @ take 4 (drop 8 h) @ ''-'' @ take 4 (drop 12 h) @ ''-'' @
     take 4 (drop 16 h) @ ''-'' @ drop 20 h)"

fun nat_str :: "nat \<Rightarrow> string" where
  "nat_str n = (if n < 10 then [char_of (48 + n)] else nat_str (n div 10) @ [char_of (48 + n mod 10)])"

declare nat_str.simps [simp del]

definition int_str :: "int \<Rightarrow> string" where
  "int_str i = (if i < 0 then ''-'' @ nat_str (nat (- i)) else nat_str (nat i))"

lemma length_uuid_str [simp]: "length (uuid_str u) = 36"
  by (simp add: uuid_str_def uuid_hex_def Let_def)

lemma strip_by_id:
  assumes "s = [] \<or> (\<not> p (hd s) \<and> \<not> p (last s))"
  shows "strip_by p s = s"
proof (cases "s = []")
  case False
  with assms have "dropWhile p s = s" and "dropWhile p (rev s) = rev s"
    by (metis dropWhile_eq_self_iff, metis dropWhile_eq_self_iff hd_rev)
  then show ?thesis by (simp add: strip_by_def)
qed (simp add: strip_by_def)

lemma strip_by_last: "strip_by p s \<noteq> [] \<Longrightarrow> \<not> p (last (strip_by p s))"
  by (metis hd_dropWhile last_rev rev_is_Nil_conv rev_rev_ident strip_by_def)

lemma strip_by_hd: "strip_by p s \<noteq> [] \<Longrightarrow> \<not> p (hd (strip_by p s))"
proof -
  assume ne: "strip_by p s \<noteq> []"
  let ?t = "dropWhile p s"
  have "?t = strip_by p s @ rev (takeWhile p (rev ?t))"
    by (metis rev_append rev_rev_ident strip_by_def takeWhile_dropWhile_id)
  with ne have "hd ?t = hd (strip_by p s)" and "?t \<noteq> []"
    by (metis hd_append2, metis append_is_Nil_conv)
  then show ?thesis using hd_dropWhile[of p s] by simp
qed

lemma strip_by_idem [simp]: "strip_by p (strip_by p s) = strip_by p s"
  by (cases "strip_by p s = []") (auto intro!: strip_by_id dest: strip_by_hd strip_by_last)

lemma strip_by_nonempty: "\<not> p c \<Longrightarrow> strip_by p (c # s) \<noteq> []"
  by (simp add: strip_by_def dropWhile_append)

lemma length_strip_by: "length (strip_by p s) \<le> length s"
  by (metis dual_order.trans length_dropWhile_le length_rev strip_by_def)

section \<open>Insertion-ordered dictionaries\<close>

text \<open>
  A \<^verbatim>\<open>dict\<close> whose order is observed is the association list of its items in insertion
  order: assignment to a new key appends, assignment to an old key overwrites in place.
\<close>

fun dict_set :: "'k \<Rightarrow> 'v \<Rightarrow> ('k \<times> 'v) list \<Rightarrow> ('k \<times> 'v) list" where
  "dict_set k v [] = [(k, v)]"
| "dict_set k v ((k', v') # d) = (if k' = k then (k, v) # d else (k', v') # dict_set k v d)"

lemma map_of_dict_set [simp]: "map_of (dict_set k v d) = (map_of d)(k \<mapsto> v)"
  by (induction d) auto

lemma keys_dict_set:
  "map fst (dict_set k v d) = (if k \<in> fst ` set d then map fst d else map fst d @ [k])"
  by (induction d) force+

lemma set_dict_set: "p \<in> set (dict_set k v d) \<Longrightarrow> p = (k, v) \<or> p \<in> set d"
  by (induction d) (auto split: if_splits)

lemma distinct_dict_set: "distinct (map fst d) \<Longrightarrow> distinct (map fst (dict_set k v d))"
  by (auto simp: keys_dict_set)

lemma dict_set_fresh: "map_of d k = None \<Longrightarrow> dict_set k v d = d @ [(k, v)]"
  by (induction d) (auto split: if_splits)

lemma length_dict_set_old: "map_of d k \<noteq> None \<Longrightarrow> length (dict_set k v d) = length d"
  by (induction d) (auto split: if_splits)

end
