(* ===== verification/Py_Values.thy ===== *)
theory Py_Values
  imports Prelude Complex_Main
begin

text \<open>
  The Python values that cross the boundary of the library (arguments, outputs, schema
  documents, contexts) and what the source asks of them: \<^verbatim>\<open>isinstance\<close> tests, numeric
  comparison, \<^verbatim>\<open>dict.get\<close>, and whether \<^verbatim>\<open>json.dumps(value, allow_nan=False)\<close> raises.
  A finite float is the rational number it denotes; comparisons of Python ints and floats
  are exact, so they are comparisons of rationals. Values are finite trees: a list or dict
  that contains itself is not modelled, nor is the interpreter's limit on the number of
  digits of an int.

  The record \<open>libs\<close> stands for the code that is not under src/: pydantic's
  \<^verbatim>\<open>StringConstraints\<close> and \<^verbatim>\<open>JsonValue\<close> validators, and the text of a float.
  \<open>pydantic_documented\<close> is what the source relies on of them.
\<close>

section \<open>Values\<close>

datatype pyfloat = Finite rat | Infinity | NegInfinity | NaN

datatype pyval =
  PyNone
| PyBool bool
| PyInt int
| PyFloat pyfloat
| PyStr string
| PyList "pyval list"
| PyTuple "pyval list"
| PyDict "(pyval \<times> pyval) list"
| PyObject nat

text \<open>A dict is the list of its items, with distinct keys. A \<^verbatim>\<open>JsonObject\<close> has text keys.\<close>

type_synonym pydict = "(pyval \<times> pyval) list"
type_synonym json_object = "pydict"

definition dict_get :: "pydict \<Rightarrow> string \<Rightarrow> pyval option" where
  "dict_get d k = map_of d (PyStr k)"

definition dict_has :: "pydict \<Rightarrow> string \<Rightarrow> bool" where
  "dict_has d k \<longleftrightarrow> PyStr k \<in> fst ` set d"

lemma dict_has_iff: "dict_has d k \<longleftrightarrow> dict_get d k \<noteq> None"
  by (simp add: dict_has_def dict_get_def map_of_eq_None_iff)

text \<open>\<^verbatim>\<open>isinstance\<close>: \<^verbatim>\<open>bool\<close> is a subclass of \<^verbatim>\<open>int\<close>.\<close>

fun is_int :: "pyval \<Rightarrow> bool" where
  "is_int (PyInt _) = True"
| "is_int (PyBool _) = True"
| "is_int _ = False"

fun is_float :: "pyval \<Rightarrow> bool" where
  "is_float (PyFloat _) = True"
| "is_float _ = False"

fun is_bool :: "pyval \<Rightarrow> bool" where
  "is_bool (PyBool _) = True"
| "is_bool _ = False"

fun is_str :: "pyval \<Rightarrow> bool" where
  "is_str (PyStr _) = True"
| "is_str _ = False"

fun is_list :: "pyval \<Rightarrow> bool" where
  "is_list (PyList _) = True"
| "is_list _ = False"

fun is_dict :: "pyval \<Rightarrow> bool" where
  "is_dict (PyDict _) = True"
| "is_dict _ = False"

fun the_str :: "pyval \<Rightarrow> string" where
  "the_str (PyStr s) = s"
| "the_str _ = []"

section \<open>Numbers\<close>

text \<open>The number that an int, a bool or a float denotes; \<open>NaN\<close> compares false with all.\<close>

fun number_of :: "pyval \<Rightarrow> pyfloat" where
  "number_of (PyInt i) = Finite (of_int i)"
| "number_of (PyBool b) = Finite (if b then 1 else 0)"
| "number_of (PyFloat f) = f"
| "number_of _ = NaN"

fun float_less :: "pyfloat \<Rightarrow> pyfloat \<Rightarrow> bool" where
  "float_less NaN _ = False"
| "float_less _ NaN = False"
| "float_less Infinity _ = False"
| "float_less _ NegInfinity = False"
| "float_less (Finite a) (Finite b) = (a < b)"
| "float_less _ _ = True"

definition num_less :: "pyval \<Rightarrow> pyval \<Rightarrow> bool" where
  "num_less a b = float_less (number_of a) (number_of b)"

lemma float_less_irrefl: "\<not> float_less a a"
  by (cases a) simp_all

lemma float_less_trans: "float_less a b \<Longrightarrow> float_less b c \<Longrightarrow> float_less a c"
  by (cases a; cases b; cases c) simp_all

section \<open>What json.dumps accepts\<close>

fun finite_float :: "pyfloat \<Rightarrow> bool" where
  "finite_float (Finite _) = True"
| "finite_float _ = False"

fun json_key_ok :: "pyval \<Rightarrow> bool" where
  "json_key_ok (PyStr _) = True"
| "json_key_ok (PyInt _) = True"
| "json_key_ok (PyBool _) = True"
| "json_key_ok PyNone = True"
| "json_key_ok (PyFloat f) = finite_float f"
| "json_key_ok _ = False"

fun json_dumps_ok :: "pyval \<Rightarrow> bool" where
  "json_dumps_ok (PyFloat f) = finite_float f"
| "json_dumps_ok (PyList xs) = list_all json_dumps_ok xs"
| "json_dumps_ok (PyTuple xs) = list_all json_dumps_ok xs"
| "json_dumps_ok (PyDict d) = list_all (\<lambda>p. json_key_ok (fst p) \<and> json_dumps_ok (snd p)) d"
| "json_dumps_ok (PyObject _) = False"
| "json_dumps_ok _ = True"

text \<open>The values pydantic's \<^verbatim>\<open>JsonValue\<close> describes: no tuples, dict keys are text.\<close>

fun json_shape :: "pyval \<Rightarrow> bool" where
  "json_shape (PyList xs) = list_all json_shape xs"
| "json_shape (PyTuple _) = False"
| "json_shape (PyDict d) = list_all (\<lambda>p. is_str (fst p) \<and> json_shape (snd p)) d"
| "json_shape (PyObject _) = False"
| "json_shape _ = True"

section \<open>Libraries\<close>

text \<open>
  \<open>str_constraints L strip lo hi pattern\<close> is a text field annotated with
  \<^verbatim>\<open>StringConstraints(strip_whitespace=strip, min_length=lo, max_length=hi, pattern=pattern)\<close>:
  the validated text, or \<open>None\<close> if validation fails.
\<close>

record libs =
  str_constraints :: "bool \<Rightarrow> nat option \<Rightarrow> nat option \<Rightarrow> string option \<Rightarrow> string \<Rightarrow> string option"
  json_value :: "pyval \<Rightarrow> bool"
  float_repr :: "pyfloat \<Rightarrow> string"

definition domain_name_pattern :: string where
  "domain_name_pattern = ''^[a-z][a-z0-9_.-]*$''"

definition fingerprint_pattern :: string where
  "fingerprint_pattern = ''^[0-9a-f]{64}$''"

definition DomainName :: "'z libs_scheme \<Rightarrow> string \<Rightarrow> string option" where
  "DomainName L = str_constraints L True (Some 1) (Some 128) (Some domain_name_pattern)"

definition ShortText :: "'z libs_scheme \<Rightarrow> string \<Rightarrow> string option" where
  "ShortText L = str_constraints L True (Some 1) (Some 256) None"

definition LongText :: "'z libs_scheme \<Rightarrow> string \<Rightarrow> string option" where
  "LongText L = str_constraints L True (Some 1) (Some 4096) None"

definition IntentFingerprint :: "'z libs_scheme \<Rightarrow> string \<Rightarrow> string option" where
  "IntentFingerprint L = str_constraints L False None None (Some fingerprint_pattern)"

section \<open>The documented behaviour of pydantic\<close>

text \<open>The Unicode property \<^verbatim>\<open>White_Space\<close> on the code points below 256.\<close>

definition white_space :: "char \<Rightarrow> bool" where
  "white_space c \<longleftrightarrow> (let n = of_char c :: int in
     (9 \<le> n \<and> n \<le> 13) \<or> n = 32 \<or> n = 133 \<or> n = 160)"

lemma of_char_int: "(of_char c :: int) = int (of_char c)"
  by (simp add: of_nat_of_char)

lemma hex_digit_plain: "n < 16 \<Longrightarrow> \<not> white_space (hex_digit n)"
  by (simp add: hex_digit_def white_space_def Let_def of_char_int of_char_of)

definition lower_alpha :: "char \<Rightarrow> bool" where
  "lower_alpha c \<longleftrightarrow> (let n = of_char c :: int in 97 \<le> n \<and> n \<le> 122)"

definition decimal_digit :: "char \<Rightarrow> bool" where
  "decimal_digit c \<longleftrightarrow> (let n = of_char c :: int in 48 \<le> n \<and> n \<le> 57)"

definition domain_name_form :: "string \<Rightarrow> bool" where
  "domain_name_form s \<longleftrightarrow> s \<noteq> [] \<and> lower_alpha (hd s) \<and>
     list_all (\<lambda>c. lower_alpha c \<or> decimal_digit c \<or> c \<in> set ''_.-'') (tl s)"

definition hex_form :: "string \<Rightarrow> bool" where
  "hex_form s \<longleftrightarrow> length s = 64 \<and> list_all (\<lambda>c. decimal_digit c \<or> c \<in> set ''abcdef'') s"

definition strip_bounded :: "nat \<Rightarrow> nat \<Rightarrow> string \<Rightarrow> string option" where
  "strip_bounded lo hi s = (let t = strip_by white_space s in
     if lo \<le> length t \<and> length t \<le> hi then Some t else None)"

definition pydantic_documented :: "'z libs_scheme \<Rightarrow> bool" where
  "pydantic_documented L \<longleftrightarrow>
     (\<forall>lo hi. str_constraints L True (Some lo) (Some hi) None = strip_bounded lo hi) \<and>
     (\<forall>lo hi s. str_constraints L True (Some lo) (Some hi) (Some domain_name_pattern) s =
        (case strip_bounded lo hi s of None \<Rightarrow> None
         | Some t \<Rightarrow> if domain_name_form t then Some t else None)) \<and>
     (\<forall>s. str_constraints L False None None (Some fingerprint_pattern) s =
        (if hex_form s then Some s else None)) \<and>
     (\<forall>v. json_shape v \<and> json_dumps_ok v \<longrightarrow> json_value L v) \<and>
     (\<forall>v. json_value L v \<longrightarrow> json_shape v)"

lemma documented_text:
  assumes "pydantic_documented L"
  shows "ShortText L = strip_bounded 1 256" and "LongText L = strip_bounded 1 4096"
    and "DomainName L s = (case strip_bounded 1 128 s of None \<Rightarrow> None
         | Some t \<Rightarrow> if domain_name_form t then Some t else None)"
  using assms by (simp_all add: pydantic_documented_def ShortText_def LongText_def DomainName_def)

lemma strip_bounded_Some:
  "strip_bounded lo hi s = Some t \<longleftrightarrow>
     t = strip_by white_space s \<and> lo \<le> length t \<and> length t \<le> hi"
  by (auto simp: strip_bounded_def Let_def)

lemma strip_bounded_idem: "strip_bounded lo hi s = Some t \<Longrightarrow> strip_bounded lo hi t = Some t"
  by (auto simp: strip_bounded_Some)

lemma strip_bounded_plain:
  "\<not> white_space (hd s) \<Longrightarrow> \<not> white_space (last s) \<Longrightarrow> lo \<le> length s \<Longrightarrow> length s \<le> hi \<Longrightarrow>
   strip_bounded lo hi s = Some s"
  by (simp add: strip_bounded_def strip_by_id)

lemma text_idem:
  assumes "pydantic_documented L"
  shows "ShortText L s = Some t \<Longrightarrow> ShortText L t = Some t"
    and "LongText L s = Some t \<Longrightarrow> LongText L t = Some t"
    and "DomainName L s = Some t \<Longrightarrow> DomainName L t = Some t"
  using assms
  by (auto simp: documented_text dest: strip_bounded_idem split: option.splits if_splits)

lemma LongText_plain:
  assumes "pydantic_documented L" and "s \<noteq> []"
    and "\<not> white_space (hd s)" and "\<not> white_space (last s)" and "length s \<le> 4096"
  shows "LongText L s = Some s"
  using assms by (cases s) (simp_all add: documented_text strip_bounded_plain)

lemma ShortText_plain:
  assumes "pydantic_documented L" and "s \<noteq> []"
    and "\<not> white_space (hd s)" and "\<not> white_space (last s)" and "length s \<le> 256"
  shows "ShortText L s = Some s"
  using assms by (cases s) (simp_all add: documented_text strip_bounded_plain)

lemma domain_name_form_edges:
  assumes "domain_name_form s"
  shows "\<not> white_space (hd s)" and "\<not> white_space (last s)"
proof -
  have hd: "lower_alpha (hd s)" and ne: "s \<noteq> []"
    using assms by (simp_all add: domain_name_form_def)
  then show "\<not> white_space (hd s)" by (auto simp: lower_alpha_def white_space_def Let_def)
  have "lower_alpha c \<or> decimal_digit c \<or> c \<in> set ''_.-''" if "c \<in> set s" for c
    using that assms by (cases s) (auto simp: domain_name_form_def list_all_iff)
  with ne have "lower_alpha (last s) \<or> decimal_digit (last s) \<or> last s \<in> set ''_.-''"
    by simp
  then show "\<not> white_space (last s)"
    by (auto simp: lower_alpha_def decimal_digit_def white_space_def Let_def)
qed

lemma DomainName_plain:
  assumes "pydantic_documented L" and "domain_name_form s" and "length s \<le> 128"
  shows "DomainName L s = Some s"
proof -
  have "s \<noteq> []" using assms(2) by (simp add: domain_name_form_def)
  then have "strip_bounded 1 128 s = Some s"
    using assms domain_name_form_edges[OF assms(2)] by (intro strip_bounded_plain) (cases s; simp)+
  then show ?thesis using assms by (simp add: documented_text)
qed

lemma LongText_documented_length: "pydantic_documented L \<Longrightarrow> LongText L s = Some t \<Longrightarrow> length t \<le> 4096"
  by (auto simp: documented_text strip_bounded_Some)

lemma json_documented:
  assumes "pydantic_documented L"
  shows "json_shape v \<Longrightarrow> json_dumps_ok v \<Longrightarrow> json_value L v"
    and "json_value L v \<Longrightarrow> json_shape v"
  using assms by (auto simp: pydantic_documented_def)

section \<open>A concrete library\<close>

text \<open>
  Functions that satisfy the documented behaviour, for the witnesses. Not a model of
  pydantic: the theorems hold of every \<open>libs\<close> that satisfies \<open>pydantic_documented\<close>.
\<close>

definition sample_str_constraints ::
  "bool \<Rightarrow> nat option \<Rightarrow> nat option \<Rightarrow> string option \<Rightarrow> string \<Rightarrow> string option" where
  "sample_str_constraints strip lo hi pat s =
     (let t = (if strip then strip_by white_space s else s) in
      if (case lo of None \<Rightarrow> True | Some n \<Rightarrow> n \<le> length t) \<and>
         (case hi of None \<Rightarrow> True | Some n \<Rightarrow> length t \<le> n) \<and>
         (case pat of None \<Rightarrow> True
          | Some p \<Rightarrow> if p = domain_name_pattern then domain_name_form t else hex_form t)
      then Some t else None)"

definition sample_float_repr :: "pyfloat \<Rightarrow> string" where
  "sample_float_repr f = (case f of
     Finite q \<Rightarrow> int_str (fst (quotient_of q)) @ ''e'' @ int_str (snd (quotient_of q))
   | _ \<Rightarrow> ''nan'')"

definition sample_libs :: libs where
  "sample_libs = \<lparr>str_constraints = sample_str_constraints,
     json_value = (\<lambda>v. json_shape v \<and> json_dumps_ok v), float_repr = sample_float_repr\<rparr>"

lemma sample_libs_documented: "pydantic_documented sample_libs"
proof -
  have "fingerprint_pattern \<noteq> domain_name_pattern"
    by (simp add: fingerprint_pattern_def domain_name_pattern_def)
  then show ?thesis
    by (auto simp: pydantic_documented_def sample_libs_def sample_str_constraints_def
        strip_bounded_def Let_def fun_eq_iff)
qed

end
