(* ===== verification/World.thy ===== *)
theory World
  imports Py_Values
begin

text \<open>
  The world of one Python process: the readings of its clocks, the identifiers it draws, the
  calls it makes into user code, and the state of that code.

  \<open>calls\<close> is the record of the calls into user code that may have an external effect, in
  the order in which they are made: a tool handler (tool name and keyword arguments), the
  compensator of an execution, the handler of a staged operation. It is not a field of any
  object of the source; it is how a theorem says that the code calls, or does not call, an
  effectful callable. \<open>ext\<close> is everything the user's callables read and write.
\<close>

datatype call =
  HandlerCall string pydict
| CompensatorCall uuid
| ReleaseCall uuid

text \<open>A user's callable reads and writes \<open>ext\<close>, and returns or raises an \<^verbatim>\<open>Exception\<close>.\<close>

datatype 'a outcome = Raised | Returned 'a

type_synonym ('e, 'a) callback = "'e \<Rightarrow> 'a outcome \<times> 'e"

record 'e world =
  tick :: nat
  uuid_source :: "nat \<Rightarrow> uuid"
  drawn :: nat
  utc_now :: clock
  calls :: "call list"
  ext :: 'e

text \<open>\<^verbatim>\<open>uuid4()\<close>, a reading of a clock, and \<^verbatim>\<open>datetime.now(UTC)\<close>.\<close>

definition uuid4 :: "(('e, 'z) world_scheme, uuid) action" where
  "uuid4 w = (Inr (uuid_source w (drawn w)), w\<lparr>drawn := Suc (drawn w)\<rparr>)"

definition read_clock :: "clock \<Rightarrow> (('e, 'z) world_scheme, time) action" where
  "read_clock c w = (Inr (c (tick w)), w\<lparr>tick := Suc (tick w)\<rparr>)"

definition now_utc :: "(('e, 'z) world_scheme, time) action" where
  "now_utc w = (Inr (utc_now w (tick w)), w\<lparr>tick := Suc (tick w)\<rparr>)"

text \<open>A call of a user's callable, which reads and writes \<open>ext\<close> and may raise.\<close>

definition call_user :: "('e, 'a) callback \<Rightarrow> (('e, 'z) world_scheme, 'a) action" where
  "call_user f w =
     (case f (ext w) of
        (Raised, e) \<Rightarrow> (Inl CallbackError, w\<lparr>ext := e\<rparr>)
      | (Returned x, e) \<Rightarrow> (Inr x, w\<lparr>ext := e\<rparr>))"

definition note_call :: "call \<Rightarrow> (('e, 'z) world_scheme, unit) action" where
  "note_call c = modifyM (\<lambda>w. w\<lparr>calls := calls w @ [c]\<rparr>)"

lemmas world_defs = uuid4_def read_clock_def now_utc_def call_user_def note_call_def

lemma keeps_calls [keeps_intros]:
  "keeps calls uuid4" "keeps calls (read_clock c)" "keeps calls now_utc"
  "keeps calls (call_user f)"
  by (auto simp: keeps_def world_defs split: prod.splits outcome.splits)

text \<open>
  What a call of a policy, a check or a clock leaves alone: the record of the effectful
  calls, and the states of the services, which extend the world.
\<close>

definition beyond :: "('e, 'z) world_scheme \<Rightarrow> call list \<times> 'z" where
  "beyond w = (calls w, world.more w)"

lemma keeps_beyond [keeps_intros]:
  "keeps beyond uuid4" "keeps beyond (read_clock c)" "keeps beyond now_utc"
  "keeps beyond (call_user f)"
  by (auto simp: keeps_def world_defs beyond_def split: prod.splits outcome.splits)

lemma beyond_calls: "keeps beyond m \<Longrightarrow> keeps calls m"
  by (simp add: keeps_def beyond_def)

lemma tryM_snd [simp]: "snd (tryM m s) = snd (m s)"
  by (auto simp: tryM_def split: prod.split sum.split)

lemma read_clock_total [simp]: "bindM (read_clock c) f w = f (c (tick w)) (w\<lparr>tick := Suc (tick w)\<rparr>)"
  by (simp add: read_clock_def bindM_def)

lemma now_utc_total [simp]: "bindM now_utc f w = f (utc_now w (tick w)) (w\<lparr>tick := Suc (tick w)\<rparr>)"
  by (simp add: now_utc_def bindM_def)

lemma uuid4_total [simp]:
  "bindM uuid4 f w = f (uuid_source w (drawn w)) (w\<lparr>drawn := Suc (drawn w)\<rparr>)"
  by (simp add: uuid4_def bindM_def)

lemma note_call_total [simp]:
  "bindM (note_call c) f w = f () (w\<lparr>calls := calls w @ [c]\<rparr>)"
  by (simp add: note_call_def)

text \<open>The readings of the clocks go forward.\<close>

definition later :: "('e, 'z) world_scheme \<Rightarrow> ('e, 'z) world_scheme \<Rightarrow> bool" where
  "later s t \<longleftrightarrow> tick s \<le> tick t"

interpretation time: evolution later
  by unfold_locales (simp_all add: later_def)

lemma later_world:
  "along later uuid4" "along later (read_clock c)" "along later now_utc"
  "along later (call_user f)" "along later (note_call n)"
  by (auto simp: along_def world_defs later_def split: prod.splits outcome.splits)

lemma later_Pair [simp]: "along later (Pair r)"
  by (simp add: along_def later_def)

lemmas later_rules = time.intros later_world

lemma later_modifyM: "(\<And>s. tick (g s) = tick s) \<Longrightarrow> along later (modifyM g)"
  by (simp add: along_def later_def)

text \<open>A concrete world, for the witnesses: identifiers and instants count up from 0.\<close>

definition sample_world :: "unit world" where
  "sample_world = \<lparr>tick = 0, uuid_source = of_nat, drawn = 0, utc_now = int, calls = [], ext = ()\<rparr>"

section \<open>Stores whose published entries are stable\<close>

text \<open>
  The interface that the registry, the idempotency store, the ledger and the outbox share:
  a state that operations change and a lookup whose answers, once given, no operation
  changes. The clients of such a store rely on the lemmas below; each component interprets
  the locale on its own operations.
\<close>

locale stable_store =
  fixes find :: "'s \<Rightarrow> 'k \<Rightarrow> 'v option"
    and step :: "'op \<Rightarrow> 's \<Rightarrow> 's"
  assumes find_step: "find s k = Some v \<Longrightarrow> find (step p s) k = Some v"

sublocale stable_store \<subseteq> kept: evolution "\<lambda>s t. \<forall>k v. find s k = Some v \<longrightarrow> find t k = Some v"
  by unfold_locales blast+

context stable_store
begin

lemma find_run: "find s k = Some v \<Longrightarrow> find (fold step ps s) k = Some v"
  using kept.iterate[of step s ps] find_step by blast

lemma find_agree:
  assumes "find (fold step ps s) k = Some v" and "find (fold step (ps @ qs) s) k = Some v'"
  shows "v' = v"
  using assms find_run[of "fold step ps s" k v qs] by simp

lemma found_earlier:
  assumes "find (fold step (ps @ qs) s) k = None"
  shows "find (fold step ps s) k = None"
  using assms find_run[of "fold step ps s" k _ qs] by (cases "find (fold step ps s) k") auto

end

text \<open>The same for a store whose entries are stable only while an invariant holds.\<close>

locale guarded_store =
  fixes find :: "'s \<Rightarrow> 'k \<Rightarrow> 'v option"
    and step :: "'op \<Rightarrow> 's \<Rightarrow> 's"
    and inv :: "'s \<Rightarrow> bool"
  assumes inv_step: "inv s \<Longrightarrow> inv (step p s)"
    and kept_step: "inv s \<Longrightarrow> find s k = Some v \<Longrightarrow> find (step p s) k = Some v"
begin

lemma inv_run: "inv s \<Longrightarrow> inv (fold step ps s)"
  by (induction ps arbitrary: s) (simp_all add: inv_step)

lemma kept_run: "inv s \<Longrightarrow> find s k = Some v \<Longrightarrow> find (fold step ps s) k = Some v"
  by (induction ps arbitrary: s) (simp_all add: inv_step kept_step)

end

sublocale stable_store \<subseteq> guarded: guarded_store find step "\<lambda>_. True"
  by unfold_locales (simp_all add: find_step)

end
