(* ===== verification/Contracts.thy ===== *)
theory Contracts
  imports World
begin

text \<open>
  The declared tool contracts and action intents (\<^verbatim>\<open>contracts/models.py\<close>) and the
  in-memory tool registry (\<^verbatim>\<open>contracts/registry.py\<close>). A model class is a record; its
  validating constructor is the function of the class's name, from the raw fields to the
  validated instance or the \<^verbatim>\<open>ValidationError\<close>.
\<close>

section \<open>Field validation\<close>

definition text_field :: "(string \<Rightarrow> string option) \<Rightarrow> string \<Rightarrow> string \<Rightarrow> string result" where
  "text_field f name s = from_option (ValidationError name) (f s)"

definition optional_text :: "(string \<Rightarrow> string option) \<Rightarrow> string \<Rightarrow> string option \<Rightarrow> string option result" where
  "optional_text f name x =
     (case x of None \<Rightarrow> Inr None | Some s \<Rightarrow> bindR (text_field f name s) (\<lambda>t. Inr (Some t)))"

definition JsonObject :: "'z libs_scheme \<Rightarrow> json_object \<Rightarrow> bool" where
  "JsonObject L d \<longleftrightarrow> list_all (\<lambda>p. is_str (fst p) \<and> json_value L (snd p)) d"

lemma text_field_iff [simp]: "text_field f name s = Inr t \<longleftrightarrow> f s = Some t"
  by (simp add: text_field_def)

lemma text_field_Some [simp]: "f s = Some t \<Longrightarrow> text_field f name s = Inr t"
  by simp

lemma optional_text_iff:
  "optional_text f name x = Inr y \<longleftrightarrow>
     (case x of None \<Rightarrow> y = None | Some s \<Rightarrow> \<exists>t. f s = Some t \<and> y = Some t)"
  by (cases x) (auto simp: optional_text_def bindR_Inr_iff)

lemma JsonObject_Nil [simp]: "JsonObject L []"
  by (simp add: JsonObject_def)

section \<open>Models\<close>

record tool_schema =
  ts_name :: string
  ts_document :: json_object

definition ToolSchema :: "'z libs_scheme \<Rightarrow> tool_schema \<Rightarrow> tool_schema result" where
  "ToolSchema L s =
     bindR (text_field (DomainName L) ''name'' (ts_name s)) (\<lambda>name.
     bindR (require (JsonObject L (ts_document s)) (ValidationError ''document'')) (\<lambda>_.
     bindR (require (ts_document s \<noteq> []) (ValidationError ''schema document must not be empty'')) (\<lambda>_.
     Inr (s\<lparr>ts_name := name\<rparr>))))"

record tool_contract =
  tc_contract_id :: uuid
  tc_name :: string
  tc_version :: string
  tc_description :: string
  tc_effect_type :: effect_type
  tc_risk_level :: risk_level
  tc_input_schema :: tool_schema
  tc_output_schema :: tool_schema
  tc_idempotency_key_required :: bool

definition ToolContract :: "'z libs_scheme \<Rightarrow> tool_contract \<Rightarrow> tool_contract result" where
  "ToolContract L c =
     bindR (text_field (DomainName L) ''name'' (tc_name c)) (\<lambda>name.
     bindR (text_field (ShortText L) ''version'' (tc_version c)) (\<lambda>version.
     bindR (text_field (LongText L) ''description'' (tc_description c)) (\<lambda>description.
     Inr (c\<lparr>tc_name := name, tc_version := version, tc_description := description\<rparr>))))"

record action_intent =
  ai_intent_id :: uuid
  ai_contract_id :: uuid
  ai_tool_name :: string
  ai_contract_version :: string
  ai_requester_id :: string
  ai_arguments :: json_object
  ai_created_at :: time
  ai_idempotency_key :: "string option"
  ai_context :: json_object

definition ActionIntent :: "'z libs_scheme \<Rightarrow> action_intent \<Rightarrow> action_intent result" where
  "ActionIntent L a =
     bindR (text_field (DomainName L) ''tool_name'' (ai_tool_name a)) (\<lambda>name.
     bindR (text_field (ShortText L) ''contract_version'' (ai_contract_version a)) (\<lambda>version.
     bindR (text_field (ShortText L) ''requester_id'' (ai_requester_id a)) (\<lambda>requester.
     bindR (require (JsonObject L (ai_arguments a)) (ValidationError ''arguments'')) (\<lambda>_.
     bindR (optional_text (ShortText L) ''idempotency_key'' (ai_idempotency_key a)) (\<lambda>key.
     bindR (require (JsonObject L (ai_context a)) (ValidationError ''context'')) (\<lambda>_.
     Inr (a\<lparr>ai_tool_name := name, ai_contract_version := version, ai_requester_id := requester,
            ai_idempotency_key := key\<rparr>)))))))"

text \<open>An instance of the class is a value its constructor returns unchanged.\<close>

definition valid_action_intent :: "'z libs_scheme \<Rightarrow> action_intent \<Rightarrow> bool" where
  "valid_action_intent L a \<longleftrightarrow> ActionIntent L a = Inr a"

lemma ActionIntent_valid:
  "pydantic_documented L \<Longrightarrow> ActionIntent L a = Inr b \<Longrightarrow> valid_action_intent L b"
  by (auto simp: valid_action_intent_def ActionIntent_def bindR_Inr_iff optional_text_iff
      text_idem split: option.splits)

section \<open>The registry\<close>

text \<open>
  A handler takes the keyword arguments. \<open>_registrations\<close> is a dict read in insertion
  order. A handler argument of \<open>None\<close> is an object that is not callable; that the
  contract is a \<^verbatim>\<open>ToolContract\<close> is its type here.
\<close>

type_synonym 'e handler = "pydict \<Rightarrow> ('e, pyval) callback"

record 'e registered_tool =
  rg_contract :: tool_contract
  rg_handler :: "'e handler"

record 'e tool_registry =
  registrations :: "(string \<times> 'e registered_tool) list"

definition register ::
  "tool_contract \<Rightarrow> 'e handler option \<Rightarrow> ('e tool_registry, 'e registered_tool) action" where
  "register contract handler =
     (case handler of
        None \<Rightarrow> raiseM (TypeErr ''handler must be callable'')
      | Some h \<Rightarrow>
          bindM (getM (\<lambda>s. map_of (registrations s) (tc_name contract))) (\<lambda>old.
          if old \<noteq> None then raiseM (DuplicateToolRegistrationError (tc_name contract))
          else
            (let registration = \<lparr>rg_contract = contract, rg_handler = h\<rparr> in
             bindM (modifyM (\<lambda>s. s\<lparr>registrations :=
                 dict_set (tc_name contract) registration (registrations s)\<rparr>)) (\<lambda>_.
             retM registration))))"

fun register_all ::
  "(tool_contract \<times> 'e handler option) list \<Rightarrow> ('e tool_registry, unit) action" where
  "register_all [] = retM ()"
| "register_all ((c, h) # rs) = bindM (register c h) (\<lambda>_. register_all rs)"

definition ToolRegistry :: "(tool_contract \<times> 'e handler option) list \<Rightarrow> 'e tool_registry result" where
  "ToolRegistry rs = (case register_all rs \<lparr>registrations = []\<rparr> of
     (Inl e, _) \<Rightarrow> Inl e | (Inr _, s) \<Rightarrow> Inr s)"

definition get_tool :: "'e tool_registry \<Rightarrow> string \<Rightarrow> 'e registered_tool result" where
  "get_tool s name = (case map_of (registrations s) name of
     None \<Rightarrow> Inl (UnknownToolError name) | Some r \<Rightarrow> Inr r)"

definition contains :: "'e tool_registry \<Rightarrow> string \<Rightarrow> bool" where
  "contains s name \<longleftrightarrow> map_of (registrations s) name \<noteq> None"

definition list_contracts :: "'e tool_registry \<Rightarrow> tool_contract list" where
  "list_contracts s = map (rg_contract \<circ> snd) (registrations s)"

text \<open>The invariant: names are distinct and each is the name of the contract stored under it.\<close>

definition registry_inv :: "'e tool_registry \<Rightarrow> bool" where
  "registry_inv s \<longleftrightarrow> distinct (map fst (registrations s)) \<and>
     (\<forall>(n, r) \<in> set (registrations s). tc_name (rg_contract r) = n)"

lemma register_cases:
  "register c h s = (case h of
     None \<Rightarrow> (Inl (TypeErr ''handler must be callable''), s)
   | Some f \<Rightarrow> if contains s (tc_name c) then (Inl (DuplicateToolRegistrationError (tc_name c)), s)
       else (Inr \<lparr>rg_contract = c, rg_handler = f\<rparr>,
         s\<lparr>registrations := registrations s @ [(tc_name c, \<lparr>rg_contract = c, rg_handler = f\<rparr>)]\<rparr>))"
  by (auto simp: register_def contains_def dict_set_fresh Let_def split: option.splits)

lemma registry_inv_empty: "registry_inv \<lparr>registrations = []\<rparr>"
  by (simp add: registry_inv_def)

lemma register_inv: "registry_inv s \<Longrightarrow> registry_inv (snd (register c h s))"
  by (auto simp: register_cases registry_inv_def contains_def map_of_eq_None_iff
      split: option.splits)

interpretation reg: stable_store
  "\<lambda>s n. map_of (registrations s) n"
  "\<lambda>(c, h) s. snd (register c h s)"
  by unfold_locales
    (auto simp: register_cases contains_def map_add_def split: option.splits)

lemma registration_stable:
  "get_tool s n = Inr r \<Longrightarrow> get_tool (fold (\<lambda>(c, h) s. snd (register c h s)) ops s) n = Inr r"
  using reg.find_run[of s n r ops] by (auto simp: get_tool_def split: option.splits)

lemma registry_inv_run:
  "registry_inv s \<Longrightarrow> registry_inv (fold (\<lambda>(c, h) s. snd (register c h s)) ops s)"
  by (induction ops arbitrary: s) (auto simp: register_inv)

section \<open>A concrete contract and intent, for the witnesses\<close>

definition sample_contract :: "risk_level \<Rightarrow> tool_contract" where
  "sample_contract risk =
     \<lparr>tc_contract_id = 7, tc_name = ''refund'', tc_version = ''1.0.0'', tc_description = ''Refund.'',
      tc_effect_type = IDEMPOTENT, tc_risk_level = risk,
      tc_input_schema = \<lparr>ts_name = ''in'', ts_document = [(PyStr ''type'', PyStr ''object'')]\<rparr>,
      tc_output_schema = \<lparr>ts_name = ''out'', ts_document = [(PyStr ''type'', PyStr ''integer'')]\<rparr>,
      tc_idempotency_key_required = True\<rparr>"

definition sample_action :: "string option \<Rightarrow> action_intent" where
  "sample_action key =
     \<lparr>ai_intent_id = 40, ai_contract_id = 7, ai_tool_name = ''refund'',
      ai_contract_version = ''1.0.0'', ai_requester_id = ''agent'',
      ai_arguments = [(PyStr ''amount'', PyInt 5)], ai_created_at = 0,
      ai_idempotency_key = key, ai_context = []\<rparr>"

end
