(* ===== verification/Policies.thy ===== *)
theory Policies
  imports Contracts "HOL-Library.List_Lexorder" "HOL-Library.Char_ord"
begin

text \<open>
  Policy decisions (\<^verbatim>\<open>policies/models.py\<close>), the four policies of the library and the engine
  that composes policies (\<^verbatim>\<open>policies/engine.py\<close>). A policy object is one of the library's
  classes with its configuration, or any other object with the protocol's \<^verbatim>\<open>evaluate\<close>,
  which acts on \<open>ext\<close> and may raise or return something that is not a \<^verbatim>\<open>PolicyDecision\<close>.
  A frozenset is the list it was made from, read through membership only.
\<close>

section \<open>Models\<close>

record policy_constraint =
  pc_name :: string
  pc_parameters :: json_object

record policy_decision =
  pd_decision_id :: uuid
  pd_intent_id :: uuid
  pd_decision_type :: policy_decision_type
  pd_risk_level :: risk_level
  pd_policy_name :: string
  pd_policy_version :: string
  pd_reason :: string
  pd_decided_at :: time
  pd_constraints :: "policy_constraint list"

definition PolicyConstraint :: "'z libs_scheme \<Rightarrow> policy_constraint \<Rightarrow> policy_constraint result" where
  "PolicyConstraint L c =
     bindR (text_field (ShortText L) ''name'' (pc_name c)) (\<lambda>name.
     bindR (require (JsonObject L (pc_parameters c)) (ValidationError ''parameters'')) (\<lambda>_.
     Inr (c\<lparr>pc_name := name\<rparr>)))"

definition PolicyDecision :: "'z libs_scheme \<Rightarrow> policy_decision \<Rightarrow> policy_decision result" where
  "PolicyDecision L d =
     bindR (text_field (ShortText L) ''policy_name'' (pd_policy_name d)) (\<lambda>name.
     bindR (text_field (ShortText L) ''policy_version'' (pd_policy_version d)) (\<lambda>version.
     bindR (text_field (LongText L) ''reason'' (pd_reason d)) (\<lambda>reason.
     if pd_decision_type d = ALLOW_WITH_CONSTRAINTS \<and> pd_constraints d = [] then
       Inl (ValidationError ''ALLOW_WITH_CONSTRAINTS requires constraints'')
     else if pd_decision_type d \<noteq> ALLOW_WITH_CONSTRAINTS \<and> pd_constraints d \<noteq> [] then
       Inl (ValidationError ''constraints require ALLOW_WITH_CONSTRAINTS'')
     else if \<not> distinct (map pc_name (pd_constraints d)) then
       Inl (ValidationError ''constraint names must be unique'')
     else Inr (d\<lparr>pd_policy_name := name, pd_policy_version := version, pd_reason := reason\<rparr>))))"

definition valid_decision :: "'z libs_scheme \<Rightarrow> policy_decision \<Rightarrow> bool" where
  "valid_decision L d \<longleftrightarrow> PolicyDecision L d = Inr d"

lemma PolicyDecision_elim:
  assumes "PolicyDecision L d = Inr d'"
  obtains n v r where "d' = d\<lparr>pd_policy_name := n, pd_policy_version := v, pd_reason := r\<rparr>"
    and "ShortText L (pd_policy_name d) = Some n" "ShortText L (pd_policy_version d) = Some v"
    and "LongText L (pd_reason d) = Some r"
    and "pd_decision_type d = ALLOW_WITH_CONSTRAINTS \<longleftrightarrow> pd_constraints d \<noteq> []"
    and "distinct (map pc_name (pd_constraints d))"
  using assms by (fastforce simp: PolicyDecision_def bindR_Inr_iff split: if_splits)

lemma valid_decision_facts:
  assumes "valid_decision L d"
  shows "LongText L (pd_reason d) = Some (pd_reason d)"
    and "pd_decision_type d = ALLOW_WITH_CONSTRAINTS \<longleftrightarrow> pd_constraints d \<noteq> []"
    and "distinct (map pc_name (pd_constraints d))"
proof -
  from assms have "PolicyDecision L d = Inr d" by (simp add: valid_decision_def)
  then obtain n v r where d: "d = d\<lparr>pd_policy_name := n, pd_policy_version := v, pd_reason := r\<rparr>"
    and r: "LongText L (pd_reason d) = Some r"
    and "pd_decision_type d = ALLOW_WITH_CONSTRAINTS \<longleftrightarrow> pd_constraints d \<noteq> []"
    and "distinct (map pc_name (pd_constraints d))" by (rule PolicyDecision_elim)
  moreover from d have "pd_reason d = r" by (metis policy_decision.select_convs(7) policy_decision.surjective policy_decision.update_convs(7))
  ultimately show "LongText L (pd_reason d) = Some (pd_reason d)"
    and "pd_decision_type d = ALLOW_WITH_CONSTRAINTS \<longleftrightarrow> pd_constraints d \<noteq> []"
    and "distinct (map pc_name (pd_constraints d))" by simp_all
qed

section \<open>Building a decision\<close>

definition decision ::
  "'z libs_scheme \<Rightarrow> action_intent \<Rightarrow> policy_decision_type \<Rightarrow> risk_level \<Rightarrow> string \<Rightarrow> string \<Rightarrow>
   policy_constraint list \<Rightarrow> (('e, 'y) world_scheme, policy_decision) action" where
  "decision L action decision_type risk_level policy_name reason constraints =
     bindM uuid4 (\<lambda>decision_id.
     bindM now_utc (\<lambda>decided_at.
     liftM (PolicyDecision L
       \<lparr>pd_decision_id = decision_id, pd_intent_id = ai_intent_id action,
        pd_decision_type = decision_type, pd_risk_level = risk_level,
        pd_policy_name = policy_name, pd_policy_version = ''1.0.0'', pd_reason = reason,
        pd_decided_at = decided_at, pd_constraints = constraints\<rparr>)))"

definition allow ::
  "'z libs_scheme \<Rightarrow> action_intent \<Rightarrow> tool_contract \<Rightarrow> string \<Rightarrow>
   (('e, 'y) world_scheme, policy_decision) action" where
  "allow L action contract policy_name =
     decision L action ALLOW (tc_risk_level contract) policy_name ''Policy allowed the action.'' []"

definition risk_at_least :: "risk_level \<Rightarrow> risk_level \<Rightarrow> bool" where
  "risk_at_least actual minimum \<longleftrightarrow> RISK_RANK minimum \<le> RISK_RANK actual"

text \<open>Python's \<^verbatim>\<open>max\<close> with a key keeps the first element of greatest key.\<close>

fun max_risk :: "risk_level \<Rightarrow> risk_level list \<Rightarrow> risk_level" where
  "max_risk m [] = m"
| "max_risk m (r # rs) = max_risk (if RISK_RANK m < RISK_RANK r then r else m) rs"

definition action_matches_contract :: "action_intent \<Rightarrow> tool_contract \<Rightarrow> bool" where
  "action_matches_contract action contract \<longleftrightarrow>
     ai_contract_id action = tc_contract_id contract \<and>
     ai_tool_name action = tc_name contract \<and>
     ai_contract_version action = tc_version contract"

definition compose ::
  "'z libs_scheme \<Rightarrow> action_intent \<Rightarrow> tool_contract \<Rightarrow> policy_decision list \<Rightarrow>
   (('e, 'y) world_scheme, policy_decision) action" where
  "compose L action contract decisions =
     (let effective_risk = max_risk (tc_risk_level contract) (map pd_risk_level decisions);
          constraints = concat (map pd_constraints
            (filter (\<lambda>d. pd_decision_type d = ALLOW_WITH_CONSTRAINTS) decisions))
      in case find (\<lambda>d. pd_decision_type d = DENY) decisions of
        Some denial \<Rightarrow>
          decision L action DENY effective_risk ''policy_engine'' (pd_reason denial) []
      | None \<Rightarrow>
          if risk_at_least effective_risk HIGH \<or>
             list_ex (\<lambda>d. pd_decision_type d = REQUIRE_APPROVAL) decisions then
            decision L action REQUIRE_APPROVAL effective_risk ''policy_engine''
              ''Approval is required before this action may proceed.'' []
          else if constraints \<noteq> [] then
            decision L action ALLOW_WITH_CONSTRAINTS effective_risk ''policy_engine''
              ''Policies allowed the action with constraints.'' constraints
          else
            decision L action ALLOW effective_risk ''policy_engine''
              ''Policies allowed the action.'' [])"

section \<open>Numbers of the threshold policy\<close>

fun bit_length :: "nat \<Rightarrow> nat" where
  "bit_length n = (if n = 0 then 0 else Suc (bit_length (n div 2)))"

declare bit_length.simps [simp del]

text \<open>
  \<^verbatim>\<open>float(i)\<close> of an int: exact below \<open>2^53\<close>, else rounded to 53 significant bits, ties to
  even; \<^verbatim>\<open>OverflowError\<close> from \<open>2^1024\<close> on.
\<close>

definition round_magnitude :: "nat \<Rightarrow> nat" where
  "round_magnitude m =
     (if m < 2 ^ 53 then m
      else (let sh = bit_length m - 53; q = m div 2 ^ sh; r = m mod 2 ^ sh; half = 2 ^ (sh - 1) in
        (if half < r \<or> (r = half \<and> odd q) then q + 1 else q) * 2 ^ sh))"

definition float_of_int :: "int \<Rightarrow> pyfloat result" where
  "float_of_int i =
     (let v = round_magnitude (nat \<bar>i\<bar>) in
      if 2 ^ 1024 \<le> v then Inl (OverflowErr ''int too large to convert to float'')
      else Inr (Finite (of_int (sgn i * int v))))"

definition is_number :: "pyval option \<Rightarrow> bool" where
  "is_number v = (case v of None \<Rightarrow> False | Some x \<Rightarrow> (is_int x \<or> is_float x) \<and> \<not> is_bool x)"

definition string_set :: "pyval option \<Rightarrow> string list option" where
  "string_set v = (case v of
     Some (PyList xs) \<Rightarrow> if list_all is_str xs then Some (map the_str xs) else None
   | _ \<Rightarrow> None)"

fun join :: "string \<Rightarrow> string list \<Rightarrow> string" where
  "join sep [] = []"
| "join sep [x] = x"
| "join sep (x # xs) = x @ sep @ join sep xs"

section \<open>The policies\<close>

datatype policy_answer = Decision policy_decision | NotADecision

datatype 'e policy =
  ToolAllowDenyPolicy "string list option" "string list"
| RequiredPermissionPolicy "(string \<times> string list) list"
| RiskApprovalPolicy risk_level
| NumericApprovalThresholdPolicy string pyfloat "string list option"
| CustomPolicy "action_intent \<Rightarrow> tool_contract \<Rightarrow> json_object \<Rightarrow> ('e, policy_answer) callback"

text \<open>The constructor of the threshold policy converts its threshold to a float.\<close>

definition numeric_approval_threshold_policy ::
  "string \<Rightarrow> pyval \<Rightarrow> string list option \<Rightarrow> 'e policy result" where
  "numeric_approval_threshold_policy field threshold tools =
     (case threshold of
        PyInt i \<Rightarrow> bindR (float_of_int i) (\<lambda>t. Inr (NumericApprovalThresholdPolicy field t tools))
      | PyBool b \<Rightarrow> Inr (NumericApprovalThresholdPolicy field (Finite (if b then 1 else 0)) tools)
      | PyFloat f \<Rightarrow> Inr (NumericApprovalThresholdPolicy field f tools)
      | _ \<Rightarrow> Inl (TypeErr ''threshold''))"

definition tool_allow_deny_evaluate ::
  "'z libs_scheme \<Rightarrow> string list option \<Rightarrow> string list \<Rightarrow> action_intent \<Rightarrow> tool_contract \<Rightarrow>
   (('e, 'y) world_scheme, policy_decision) action" where
  "tool_allow_deny_evaluate L allowed_tools denied_tools action contract =
     (if ai_tool_name action \<in> set denied_tools then
        decision L action DENY (tc_risk_level contract) ''tool_allow_deny''
          (''Tool denied by policy: '' @ ai_tool_name action @ ''.'') []
      else if (case allowed_tools of None \<Rightarrow> False | Some ts \<Rightarrow> ai_tool_name action \<notin> set ts) then
        decision L action DENY (tc_risk_level contract) ''tool_allow_deny''
          (''Tool is not in the allow list: '' @ ai_tool_name action @ ''.'') []
      else allow L action contract ''tool_allow_deny'')"

definition required_permission_evaluate ::
  "'z libs_scheme \<Rightarrow> (string \<times> string list) list \<Rightarrow> action_intent \<Rightarrow> tool_contract \<Rightarrow> json_object \<Rightarrow>
   (('e, 'y) world_scheme, policy_decision) action" where
  "required_permission_evaluate L required_permissions action contract context =
     (let required = (case map_of required_permissions (ai_tool_name action) of
        None \<Rightarrow> [] | Some ps \<Rightarrow> ps)
      in if required = [] then allow L action contract ''required_permission''
      else case string_set (dict_get context ''permissions'') of
        None \<Rightarrow>
          decision L action DENY (tc_risk_level contract) ''required_permission''
            ''Trusted context does not contain a valid permissions list.'' []
      | Some permissions \<Rightarrow>
          (let missing = sort (remdups (filter (\<lambda>p. p \<notin> set permissions) required)) in
           if missing \<noteq> [] then
             decision L action DENY (tc_risk_level contract) ''required_permission''
               (''Missing required permissions: '' @ join '', '' missing @ ''.'') []
           else allow L action contract ''required_permission''))"

definition risk_approval_evaluate ::
  "'z libs_scheme \<Rightarrow> risk_level \<Rightarrow> action_intent \<Rightarrow> tool_contract \<Rightarrow>
   (('e, 'y) world_scheme, policy_decision) action" where
  "risk_approval_evaluate L minimum_risk action contract =
     (if risk_at_least (tc_risk_level contract) minimum_risk then
        decision L action REQUIRE_APPROVAL (tc_risk_level contract) ''risk_approval''
          (''Risk level requires approval: '' @ risk_level_value (tc_risk_level contract) @ ''.'') []
      else allow L action contract ''risk_approval'')"

definition numeric_threshold_evaluate ::
  "'z libs_scheme \<Rightarrow> string \<Rightarrow> pyfloat \<Rightarrow> string list option \<Rightarrow> action_intent \<Rightarrow> tool_contract \<Rightarrow>
   (('e, 'y) world_scheme, policy_decision) action" where
  "numeric_threshold_evaluate L field threshold tools action contract =
     (if (case tools of None \<Rightarrow> False | Some ts \<Rightarrow> ai_tool_name action \<notin> set ts) then
        allow L action contract ''numeric_threshold''
      else
        (let value = dict_get (ai_arguments action) field in
         if \<not> is_number value then
           decision L action DENY (tc_risk_level contract) ''numeric_threshold''
             (''Argument is not a valid number: '' @ field @ ''.'') []
         else if num_less (PyFloat threshold) (the value) then
           decision L action REQUIRE_APPROVAL (tc_risk_level contract) ''numeric_threshold''
             (''Argument exceeds approval threshold: '' @ field @ ''.'') []
         else allow L action contract ''numeric_threshold''))"

definition policy_evaluate ::
  "'z libs_scheme \<Rightarrow> 'e policy \<Rightarrow> action_intent \<Rightarrow> tool_contract \<Rightarrow> json_object \<Rightarrow>
   (('e, 'y) world_scheme, policy_answer) action" where
  "policy_evaluate L policy action contract context =
     (case policy of
        ToolAllowDenyPolicy allowed denied \<Rightarrow>
          bindM (tool_allow_deny_evaluate L allowed denied action contract) (\<lambda>d. retM (Decision d))
      | RequiredPermissionPolicy required \<Rightarrow>
          bindM (required_permission_evaluate L required action contract context) (\<lambda>d. retM (Decision d))
      | RiskApprovalPolicy minimum \<Rightarrow>
          bindM (risk_approval_evaluate L minimum action contract) (\<lambda>d. retM (Decision d))
      | NumericApprovalThresholdPolicy field threshold tools \<Rightarrow>
          bindM (numeric_threshold_evaluate L field threshold tools action contract) (\<lambda>d. retM (Decision d))
      | CustomPolicy f \<Rightarrow> call_user (f action contract context))"

section \<open>The engine\<close>

definition engine_denial ::
  "'z libs_scheme \<Rightarrow> action_intent \<Rightarrow> tool_contract \<Rightarrow> string \<Rightarrow>
   (('e, 'y) world_scheme, policy_decision) action" where
  "engine_denial L action contract reason =
     decision L action DENY (tc_risk_level contract) ''policy_engine'' reason []"

fun evaluate_loop ::
  "'z libs_scheme \<Rightarrow> 'e policy list \<Rightarrow> action_intent \<Rightarrow> tool_contract \<Rightarrow> json_object \<Rightarrow>
   policy_decision list \<Rightarrow> (('e, 'y) world_scheme, policy_decision) action" where
  "evaluate_loop L [] action contract context decisions = compose L action contract decisions"
| "evaluate_loop L (p # ps) action contract context decisions =
     bindM (tryM (policy_evaluate L p action contract context)) (\<lambda>answer.
     case answer of
       None \<Rightarrow> engine_denial L action contract ''Policy evaluation failed closed.''
     | Some NotADecision \<Rightarrow> engine_denial L action contract ''Policy returned an invalid decision.''
     | Some (Decision d) \<Rightarrow>
         if pd_intent_id d \<noteq> ai_intent_id action then
           engine_denial L action contract ''Policy decision was bound to the wrong action intent.''
         else evaluate_loop L ps action contract context (decisions @ [d]))"

definition evaluate ::
  "'z libs_scheme \<Rightarrow> 'e policy list \<Rightarrow> action_intent \<Rightarrow> tool_contract option \<Rightarrow> json_object \<Rightarrow>
   (('e, 'y) world_scheme, policy_decision) action" where
  "evaluate L policies action contract context =
     (case contract of
        None \<Rightarrow>
          decision L action DENY CRITICAL ''policy_engine''
            (''Unknown tool denied: '' @ ai_tool_name action @ ''.'') []
      | Some c \<Rightarrow>
          if \<not> action_matches_contract action c then
            engine_denial L action c ''Action intent does not match the supplied contract.''
          else evaluate_loop L policies action c context [])"

section \<open>Decisions\<close>

lemma decision_run:
  "decision L a ty rk n rs cs w =
     (PolicyDecision L
       \<lparr>pd_decision_id = uuid_source w (drawn w), pd_intent_id = ai_intent_id a,
        pd_decision_type = ty, pd_risk_level = rk, pd_policy_name = n,
        pd_policy_version = ''1.0.0'', pd_reason = rs, pd_decided_at = utc_now w (tick w),
        pd_constraints = cs\<rparr>,
      w\<lparr>drawn := Suc (drawn w), tick := Suc (tick w)\<rparr>)"
  by (simp add: decision_def)

lemma decision_Inr:
  assumes "decision L a ty rk n rs cs w = (Inr d, w')"
  shows "pd_decision_type d = ty" "pd_risk_level d = rk" "pd_intent_id d = ai_intent_id a"
    "pd_constraints d = cs" "ty = ALLOW_WITH_CONSTRAINTS \<longleftrightarrow> cs \<noteq> []"
    "LongText L rs = Some (pd_reason d)"
  using assms by (auto simp: decision_run elim!: PolicyDecision_elim)

lemma version_text: "pydantic_documented L \<Longrightarrow> ShortText L ''1.0.0'' = Some ''1.0.0''"
  by (rule ShortText_plain) (simp_all add: white_space_def)

lemma policy_name_text:
  assumes "pydantic_documented L"
  shows "ShortText L ''policy_engine'' = Some ''policy_engine''"
    "ShortText L ''tool_allow_deny'' = Some ''tool_allow_deny''"
    "ShortText L ''required_permission'' = Some ''required_permission''"
    "ShortText L ''risk_approval'' = Some ''risk_approval''"
    "ShortText L ''numeric_threshold'' = Some ''numeric_threshold''"
  by (rule ShortText_plain[OF assms]; simp add: white_space_def)+

lemma engine_reason_text:
  assumes "pydantic_documented L"
  shows "LongText L ''Policy allowed the action.'' = Some ''Policy allowed the action.''"
    "LongText L ''Policies allowed the action.'' = Some ''Policies allowed the action.''"
    "LongText L ''Policies allowed the action with constraints.'' =
       Some ''Policies allowed the action with constraints.''"
    "LongText L ''Approval is required before this action may proceed.'' =
       Some ''Approval is required before this action may proceed.''"
    "LongText L ''Policy evaluation failed closed.'' = Some ''Policy evaluation failed closed.''"
    "LongText L ''Policy returned an invalid decision.'' = Some ''Policy returned an invalid decision.''"
    "LongText L ''Policy decision was bound to the wrong action intent.'' =
       Some ''Policy decision was bound to the wrong action intent.''"
    "LongText L ''Action intent does not match the supplied contract.'' =
       Some ''Action intent does not match the supplied contract.''"
    "LongText L ''Trusted context does not contain a valid permissions list.'' =
       Some ''Trusted context does not contain a valid permissions list.''"
  by (rule LongText_plain[OF assms]; simp add: white_space_def)+

text \<open>A decision with acceptable texts and no constraints is always built.\<close>

lemma decision_ok:
  assumes "pydantic_documented L" and "ShortText L n = Some n" and "LongText L rs = Some rs"
    and "ty \<noteq> ALLOW_WITH_CONSTRAINTS"
  shows "\<exists>d. fst (decision L a ty rk n rs [] w) = Inr d \<and> pd_decision_type d = ty \<and>
     pd_risk_level d = rk \<and> pd_reason d = rs \<and> pd_intent_id d = ai_intent_id a"
  using assms by (auto simp: decision_run PolicyDecision_def version_text)

lemma PolicyDecision_valid:
  assumes "pydantic_documented L" and "PolicyDecision L d = Inr d'"
  shows "valid_decision L d'"
  using assms(2)
proof (rule PolicyDecision_elim)
  fix n v r
  assume d': "d' = d\<lparr>pd_policy_name := n, pd_policy_version := v, pd_reason := r\<rparr>"
    and t: "ShortText L (pd_policy_name d) = Some n" "ShortText L (pd_policy_version d) = Some v"
      "LongText L (pd_reason d) = Some r"
    and c: "pd_decision_type d = ALLOW_WITH_CONSTRAINTS \<longleftrightarrow> pd_constraints d \<noteq> []"
      "distinct (map pc_name (pd_constraints d))"
  have "ShortText L n = Some n" "ShortText L v = Some v" "LongText L r = Some r"
    using t by (auto intro: text_idem[OF assms(1)])
  then show ?thesis using c by (simp add: valid_decision_def PolicyDecision_def d')
qed

lemma decision_valid:
  "pydantic_documented L \<Longrightarrow> decision L a ty rk n rs cs w = (Inr d, w') \<Longrightarrow> valid_decision L d"
  by (auto simp: decision_run intro: PolicyDecision_valid)

lemma keeps_policies [keeps_intros]:
  "keeps beyond (decision L a ty rk n rs cs)" "keeps beyond (allow L a c n)"
  "keeps beyond (compose L a c ds)" "keeps beyond (engine_denial L a c rs)"
  "keeps beyond (policy_evaluate L p a c x)"
proof -
  show d: "keeps beyond (decision L a ty rk n rs cs)" for ty rk n rs cs
    unfolding decision_def by (intro keeps_intros)
  show al: "keeps beyond (allow L a c n)" for n
    unfolding allow_def by (rule d)
  show "keeps beyond (compose L a c ds)" "keeps beyond (engine_denial L a c rs)"
    unfolding compose_def engine_denial_def Let_def by (intro keeps_intros d)+
  show "keeps beyond (policy_evaluate L p a c x)"
    unfolding policy_evaluate_def tool_allow_deny_evaluate_def required_permission_evaluate_def
      risk_approval_evaluate_def numeric_threshold_evaluate_def Let_def
    by (cases p) (auto intro!: keeps_intros d al)
qed

lemma keeps_evaluate_loop: "keeps beyond (evaluate_loop L ps a c x ds)"
proof (induction ps arbitrary: ds)
  case (Cons p ps)
  then show ?case
    by (auto intro!: keeps_intros split: option.split policy_answer.split)
qed (simp add: keeps_policies)

lemma keeps_evaluate [keeps_intros]: "keeps beyond (evaluate L ps a c x)"
  unfolding evaluate_def by (auto intro!: keeps_intros keeps_evaluate_loop split: option.split)

section \<open>Risk\<close>

lemma risk_at_least_iff: "risk_at_least a b \<longleftrightarrow> b \<le> a"
  by (simp add: risk_at_least_def risk_le_rank)

lemma max_risk_fold: "max_risk m rs = fold max rs m"
proof (induction rs arbitrary: m)
  case (Cons r rs)
  have "(if RISK_RANK m < RISK_RANK r then r else m) = max r m"
    by (auto simp: max_def risk_le_rank simp flip: RISK_RANK_inj)
  then show ?case by (simp add: Cons.IH)
qed simp

lemma max_risk_eq: "max_risk m rs = Max (insert m (set rs))"
  by (metis Max.set_eq_fold list.simps(15) max_risk_fold)

lemma max_risk_upper: "r \<in> insert m (set rs) \<Longrightarrow> r \<le> max_risk m rs"
  by (simp add: max_risk_eq)

end
