(* ===== verification/Policy_Correctness.thy ===== *)
theory Policy_Correctness
  imports Policies
begin

text \<open>
  The correctness of the policy engine and of the library's policies: a specification of the
  engine as the strictest of all answers, fail-closed evaluation, the risk floor, the unknown
  tool, the one way in which the engine raises, and the exact meaning of the permission and
  threshold policies.
\<close>

section \<open>The strictest answer\<close>

text \<open>
  The specification of the engine. The answers of all the policies, each evaluated in turn
  (\<open>None\<close>: it raised), have a strictness: an answer that is missing, is no decision or is
  bound to another intent counts as a denial. The engine stops at the first such answer,
  the specification does not.
\<close>

fun strictness :: "policy_decision_type \<Rightarrow> nat" where
  "strictness ALLOW = 0"
| "strictness ALLOW_WITH_CONSTRAINTS = 1"
| "strictness REQUIRE_APPROVAL = 2"
| "strictness DENY = 3"

fun policy_answers ::
  "'z libs_scheme \<Rightarrow> 'e policy list \<Rightarrow> action_intent \<Rightarrow> tool_contract \<Rightarrow> json_object \<Rightarrow>
   ('e, 'y) world_scheme \<Rightarrow> policy_answer option list" where
  "policy_answers L [] a c x w = []"
| "policy_answers L (p # ps) a c x w =
     (case policy_evaluate L p a c x w of
        (Inl _, w') \<Rightarrow> None # policy_answers L ps a c x w'
      | (Inr ans, w') \<Rightarrow> Some ans # policy_answers L ps a c x w')"

fun bound :: "action_intent \<Rightarrow> policy_answer option \<Rightarrow> bool" where
  "bound a (Some (Decision d)) \<longleftrightarrow> pd_intent_id d = ai_intent_id a"
| "bound a _ \<longleftrightarrow> False"

fun answered :: "policy_answer option \<Rightarrow> policy_decision list" where
  "answered (Some (Decision d)) = [d]"
| "answered _ = []"

definition answered_all :: "policy_answer option list \<Rightarrow> policy_decision list" where
  "answered_all as = concat (map answered as)"

definition answer_strictness :: "action_intent \<Rightarrow> policy_answer option \<Rightarrow> nat" where
  "answer_strictness a ans = (case ans of
     Some (Decision d) \<Rightarrow> if pd_intent_id d = ai_intent_id a then strictness (pd_decision_type d) else 3
   | _ \<Rightarrow> 3)"

definition required_strictness ::
  "action_intent \<Rightarrow> tool_contract \<Rightarrow> policy_answer option list \<Rightarrow> nat" where
  "required_strictness a c as =
     Max (insert (if HIGH \<le> Max (insert (tc_risk_level c) (pd_risk_level ` set (answered_all as)))
                  then 2 else 0) (answer_strictness a ` set as))"

text \<open>What the custom policies are trusted for: a decision they return is an instance.\<close>

definition returns_instances :: "'z libs_scheme \<Rightarrow> 'e policy list \<Rightarrow> bool" where
  "returns_instances L ps \<longleftrightarrow>
     (\<forall>f a c x e d e'. CustomPolicy f \<in> set ps \<longrightarrow> f a c x e = (Returned (Decision d), e') \<longrightarrow>
        valid_decision L d)"

lemma policy_evaluate_valid:
  assumes "pydantic_documented L" and "returns_instances L ps" and "p \<in> set ps"
    and "policy_evaluate L p a c x w = (Inr (Decision d), w')"
  shows "valid_decision L d"
proof (cases p)
  case (CustomPolicy f)
  with assms obtain e where "f a c x (ext w) = (Returned (Decision d), e)"
    by (auto simp: policy_evaluate_def call_user_def split: prod.splits outcome.splits)
  with assms(2,3) CustomPolicy show ?thesis unfolding returns_instances_def by blast
qed (use assms in \<open>auto simp: policy_evaluate_def tool_allow_deny_evaluate_def
    required_permission_evaluate_def risk_approval_evaluate_def numeric_threshold_evaluate_def
    allow_def Let_def elim!: bindM_Inr_elim intro: decision_valid
    split: if_splits option.splits\<close>)

lemma policy_answers_valid:
  assumes "pydantic_documented L" and "returns_instances L ps"
    and "Some (Decision d) \<in> set (policy_answers L ps a c x w)"
  shows "valid_decision L d"
  using assms(2,3)
proof (induction ps arbitrary: w)
  case (Cons p ps)
  have ps: "returns_instances L ps" using Cons.prems(1) by (auto simp: returns_instances_def)
  obtain r w' where run: "policy_evaluate L p a c x w = (r, w')" by fastforce
  show ?case
  proof (cases "r = Inr (Decision d)")
    case True
    then show ?thesis
      using policy_evaluate_valid[OF assms(1) Cons.prems(1), of p a c x w d w'] run by simp
  next
    case False
    then have "Some (Decision d) \<in> set (policy_answers L ps a c x w')"
      using Cons.prems(2) run by (auto split: sum.splits)
    then show ?thesis by (rule Cons.IH[OF ps])
  qed
qed simp

text \<open>The loop, in terms of the answers: it composes them, or it denies.\<close>

lemma evaluate_loop_bound:
  assumes "list_all (bound a) (policy_answers L ps a c x w)"
  shows "\<exists>w'. evaluate_loop L ps a c x ds w =
    compose L a c (ds @ answered_all (policy_answers L ps a c x w)) w'"
  using assms
proof (induction ps arbitrary: ds w)
  case (Cons p ps)
  obtain r w1 where run: "policy_evaluate L p a c x w = (r, w1)" by fastforce
  with Cons.prems obtain d where r: "r = Inr (Decision d)" and d: "pd_intent_id d = ai_intent_id a"
    and rest: "list_all (bound a) (policy_answers L ps a c x w1)"
    by (cases r; cases "projr r") (auto split: sum.splits)
  then have "evaluate_loop L (p # ps) a c x ds w = evaluate_loop L ps a c x (ds @ [d]) w1"
    using run by (simp add: bindM_def tryM_def)
  with Cons.IH[OF rest, of "ds @ [d]"] run r show ?case by (simp add: answered_all_def)
qed (auto simp: answered_all_def)

lemma evaluate_loop_unbound:
  assumes "\<not> list_all (bound a) (policy_answers L ps a c x w)"
  shows "\<exists>rs w'. evaluate_loop L ps a c x ds w = engine_denial L a c rs w' \<and>
    rs \<in> {''Policy evaluation failed closed.'', ''Policy returned an invalid decision.'',
      ''Policy decision was bound to the wrong action intent.''}"
  using assms
proof (induction ps arbitrary: ds w)
  case (Cons p ps)
  obtain r w1 where run: "policy_evaluate L p a c x w = (r, w1)" by fastforce
  show ?case
  proof (cases "\<exists>d. r = Inr (Decision d) \<and> pd_intent_id d = ai_intent_id a")
    case True
    then obtain d where r: "r = Inr (Decision d)" and d: "pd_intent_id d = ai_intent_id a" by blast
    with Cons.prems run have rest: "\<not> list_all (bound a) (policy_answers L ps a c x w1)"
      by simp
    from r d run have "evaluate_loop L (p # ps) a c x ds w = evaluate_loop L ps a c x (ds @ [d]) w1"
      by (simp add: bindM_def tryM_def)
    with Cons.IH[OF rest, of "ds @ [d]"] show ?thesis by simp
  next
    case False
    then show ?thesis
      using run by (cases r) (auto simp: bindM_def tryM_def split: policy_answer.split)
  qed
qed simp

section \<open>Composition\<close>

definition effective_risk :: "tool_contract \<Rightarrow> policy_decision list \<Rightarrow> risk_level" where
  "effective_risk c ds = Max (insert (tc_risk_level c) (pd_risk_level ` set ds))"

definition all_constraints :: "policy_decision list \<Rightarrow> policy_constraint list" where
  "all_constraints ds =
     concat (map pd_constraints (filter (\<lambda>d. pd_decision_type d = ALLOW_WITH_CONSTRAINTS) ds))"

lemma effective_risk_max: "max_risk (tc_risk_level c) (map pd_risk_level ds) = effective_risk c ds"
  by (simp add: max_risk_eq effective_risk_def)

lemma effective_risk_floor: "tc_risk_level c \<le> effective_risk c ds"
  "d \<in> set ds \<Longrightarrow> pd_risk_level d \<le> effective_risk c ds"
  by (simp_all add: effective_risk_def)

lemma compose_denied:
  assumes "pydantic_documented L" and "\<forall>d \<in> set ds. valid_decision L d"
    and "\<exists>d \<in> set ds. pd_decision_type d = DENY"
  shows "\<exists>d. fst (compose L a c ds w) = Inr d \<and> pd_decision_type d = DENY \<and>
    pd_risk_level d = effective_risk c ds \<and> pd_intent_id d = ai_intent_id a \<and>
    (\<exists>denial. find (\<lambda>d. pd_decision_type d = DENY) ds = Some denial \<and> pd_reason d = pd_reason denial)"
proof -
  from assms(3) obtain denial where f: "find (\<lambda>d. pd_decision_type d = DENY) ds = Some denial"
    by (metis (mono_tags, lifting) find_None_iff option.exhaust)
  then have "denial \<in> set ds" by (auto simp: find_Some_iff)
  then have "LongText L (pd_reason denial) = Some (pd_reason denial)"
    using assms(2) by (auto intro: valid_decision_facts)
  with decision_ok[OF assms(1) policy_name_text(1)[OF assms(1)], of "pd_reason denial" DENY a
      "effective_risk c ds" w] f
  show ?thesis by (auto simp: compose_def effective_risk_max Let_def)
qed

lemma compose_not_denied:
  assumes "pydantic_documented L" and "\<forall>d \<in> set ds. pd_decision_type d \<noteq> DENY"
  shows "fst (compose L a c ds w) =
    fst (if HIGH \<le> effective_risk c ds \<or> (\<exists>d \<in> set ds. pd_decision_type d = REQUIRE_APPROVAL) then
       decision L a REQUIRE_APPROVAL (effective_risk c ds) ''policy_engine''
         ''Approval is required before this action may proceed.'' [] w
     else if all_constraints ds \<noteq> [] then
       decision L a ALLOW_WITH_CONSTRAINTS (effective_risk c ds) ''policy_engine''
         ''Policies allowed the action with constraints.'' (all_constraints ds) w
     else decision L a ALLOW (effective_risk c ds) ''policy_engine''
         ''Policies allowed the action.'' [] w)"
proof -
  have "find (\<lambda>d. pd_decision_type d = DENY) ds = None"
    using assms(2) by (auto simp: find_None_iff)
  then show ?thesis
    by (simp add: compose_def effective_risk_max Let_def risk_at_least_iff list_ex_iff
        all_constraints_def[symmetric])
qed

lemma constrained_decision:
  assumes "pydantic_documented L" and "cs \<noteq> []"
  shows "fst (decision L a ALLOW_WITH_CONSTRAINTS rk ''policy_engine''
      ''Policies allowed the action with constraints.'' cs w) =
    (if distinct (map pc_name cs) then
       Inr \<lparr>pd_decision_id = uuid_source w (drawn w), pd_intent_id = ai_intent_id a,
        pd_decision_type = ALLOW_WITH_CONSTRAINTS, pd_risk_level = rk,
        pd_policy_name = ''policy_engine'', pd_policy_version = ''1.0.0'',
        pd_reason = ''Policies allowed the action with constraints.'',
        pd_decided_at = utc_now w (tick w), pd_constraints = cs\<rparr>
     else Inl (ValidationError ''constraint names must be unique''))"
  using assms
  by (simp add: decision_run PolicyDecision_def policy_name_text version_text engine_reason_text)

lemma strictness_le: "strictness t \<le> 3"
  by (cases t) simp_all

lemma strictness_3: "strictness t = 3 \<longleftrightarrow> t = DENY"
  by (cases t) simp_all

lemma Max_eq_nat: "finite A \<Longrightarrow> m \<in> A \<Longrightarrow> (\<And>x. x \<in> A \<Longrightarrow> x \<le> (m::nat)) \<Longrightarrow> Max A = m"
  by (rule Max_eqI)

lemma answered_all_set:
  "d \<in> set (answered_all as) \<longleftrightarrow> Some (Decision d) \<in> set as"
proof -
  have "d \<in> set (answered x) \<longleftrightarrow> x = Some (Decision d)" for x
    by (cases x rule: answered.cases) auto
  then show ?thesis by (auto simp: answered_all_def)
qed

lemma bound_strictness:
  "bound a ans \<Longrightarrow> \<exists>d. ans = Some (Decision d) \<and> answer_strictness a ans = strictness (pd_decision_type d)"
  by (cases "(a, ans)" rule: bound.cases) (auto simp: answer_strictness_def)

lemma unbound_strictness: "\<not> bound a ans \<Longrightarrow> answer_strictness a ans = 3"
  by (cases "(a, ans)" rule: bound.cases) (auto simp: answer_strictness_def)

lemma answer_strictness_le: "answer_strictness a ans \<le> 3"
  using bound_strictness[of a ans] unbound_strictness[of a ans] strictness_le by fastforce

lemma required_strictness_bound:
  assumes "list_all (bound a) as"
  shows "required_strictness a c as =
    (let ds = answered_all as in
     if \<exists>d \<in> set ds. pd_decision_type d = DENY then 3
     else if HIGH \<le> effective_risk c ds \<or> (\<exists>d \<in> set ds. pd_decision_type d = REQUIRE_APPROVAL) then 2
     else if \<exists>d \<in> set ds. pd_decision_type d = ALLOW_WITH_CONSTRAINTS then 1 else 0)"
proof -
  let ?ds = "answered_all as"
  have img: "answer_strictness a ` set as = (\<lambda>d. strictness (pd_decision_type d)) ` set ?ds"
    using assms bound_strictness[of a]
    by (force simp: list_all_iff answered_all_set answer_strictness_def image_iff)
  have eq: "required_strictness a c as =
      Max (insert (if HIGH \<le> effective_risk c ?ds then 2 else 0)
        ((\<lambda>d. strictness (pd_decision_type d)) ` set ?ds))"
    by (simp add: required_strictness_def effective_risk_def img)
  have ty: "strictness t = 3 \<longleftrightarrow> t = DENY" "strictness t = 2 \<longleftrightarrow> t = REQUIRE_APPROVAL"
    "Suc 0 = strictness t \<longleftrightarrow> t = ALLOW_WITH_CONSTRAINTS" for t
    by (cases t; simp)+
  have le: "strictness t \<le> 2" if "t \<noteq> DENY" for t using that by (cases t) auto
  have le1: "strictness t \<le> Suc 0" if "t \<noteq> DENY" "t \<noteq> REQUIRE_APPROVAL" for t using that by (cases t) auto
  have le0: "strictness t = 0"
    if "t \<noteq> DENY" "t \<noteq> REQUIRE_APPROVAL" "t \<noteq> ALLOW_WITH_CONSTRAINTS" for t using that by (cases t) auto
  show ?thesis
    unfolding eq Let_def
    by (rule Max_eq_nat) (auto simp: image_iff ty strictness_le le le1 le0 split: if_splits)
qed

lemma required_strictness_unbound:
  assumes "\<not> list_all (bound a) as"
  shows "required_strictness a c as = 3"
proof -
  from assms obtain ans where "ans \<in> set as" "answer_strictness a ans = 3"
    by (auto simp: list_all_iff dest: unbound_strictness)
  then show ?thesis unfolding required_strictness_def
    by (intro Max_eq_nat) (force simp: image_iff intro: answer_strictness_le)+
qed

section \<open>The engine decides as strictly as its strictest answer\<close>

lemma compose_strictness:
  assumes "pydantic_documented L" and "\<forall>d \<in> set ds. valid_decision L d"
  shows "case fst (compose L a c ds w) of
      Inr d \<Rightarrow> strictness (pd_decision_type d) =
          (if \<exists>d \<in> set ds. pd_decision_type d = DENY then 3
           else if HIGH \<le> effective_risk c ds \<or> (\<exists>d \<in> set ds. pd_decision_type d = REQUIRE_APPROVAL) then 2
           else if \<exists>d \<in> set ds. pd_decision_type d = ALLOW_WITH_CONSTRAINTS then 1 else 0) \<and>
        pd_risk_level d = effective_risk c ds \<and> pd_intent_id d = ai_intent_id a
    | Inl e \<Rightarrow> e = ValidationError ''constraint names must be unique'' \<and>
        \<not> distinct (map pc_name (all_constraints ds)) \<and>
        (\<forall>d \<in> set ds. pd_decision_type d \<in> {ALLOW, ALLOW_WITH_CONSTRAINTS}) \<and>
        effective_risk c ds < HIGH \<and>
        (\<exists>d \<in> set ds. pd_decision_type d = ALLOW_WITH_CONSTRAINTS)"
proof (cases "\<exists>d \<in> set ds. pd_decision_type d = DENY")
  case True
  with compose_denied[OF assms True, of a c w] show ?thesis by auto
next
  case False
  have cs: "all_constraints ds \<noteq> [] \<longleftrightarrow> (\<exists>d \<in> set ds. pd_decision_type d = ALLOW_WITH_CONSTRAINTS)"
    using assms(2) by (auto simp: all_constraints_def filter_empty_conv dest: valid_decision_facts(2))
  have types: "\<forall>d \<in> set ds. pd_decision_type d \<in> {ALLOW, ALLOW_WITH_CONSTRAINTS}"
    if "\<not> (\<exists>d \<in> set ds. pd_decision_type d = REQUIRE_APPROVAL)"
    using that False by (metis insertCI policy_decision_type.exhaust)
  note built = decision_ok[OF assms(1) policy_name_text(1)[OF assms(1)]]
  note texts = engine_reason_text[OF assms(1)]
  note split = compose_not_denied[OF assms(1), of ds a c w]
  have nd: "\<forall>d \<in> set ds. pd_decision_type d \<noteq> DENY" using False by simp
  consider (approval) "HIGH \<le> effective_risk c ds \<or> (\<exists>d \<in> set ds. pd_decision_type d = REQUIRE_APPROVAL)"
    | (constrained) "\<not> (HIGH \<le> effective_risk c ds \<or> (\<exists>d \<in> set ds. pd_decision_type d = REQUIRE_APPROVAL))"
        "all_constraints ds \<noteq> []"
    | (plain) "\<not> (HIGH \<le> effective_risk c ds \<or> (\<exists>d \<in> set ds. pd_decision_type d = REQUIRE_APPROVAL))"
        "all_constraints ds = []" by blast
  then show ?thesis
  proof cases
    case approval
    with split[OF nd] built[OF texts(4), of REQUIRE_APPROVAL a "effective_risk c ds" w] False
    show ?thesis by auto
  next
    case constrained
    with split[OF nd] constrained_decision[OF assms(1) constrained(2), of a "effective_risk c ds" w]
      False cs types
    show ?thesis by (auto simp: not_le)
  next
    case plain
    with split[OF nd] built[OF texts(2), of ALLOW a "effective_risk c ds" w] False cs
    show ?thesis by auto
  qed
qed

lemma engine_denial_ok:
  assumes "pydantic_documented L" and "LongText L rs = Some rs"
  shows "\<exists>d. fst (engine_denial L a c rs w) = Inr d \<and> pd_decision_type d = DENY \<and>
    pd_risk_level d = tc_risk_level c \<and> pd_reason d = rs \<and> pd_intent_id d = ai_intent_id a"
  using decision_ok[OF assms(1) policy_name_text(1)[OF assms(1)] assms(2), of DENY a "tc_risk_level c" w]
  by (simp add: engine_denial_def)

lemma engine_outcome:
  assumes "pydantic_documented L" and "returns_instances L ps"
    and "action_matches_contract a c"
  shows "case fst (evaluate L ps a (Some c) x w) of
      Inr d \<Rightarrow> strictness (pd_decision_type d) = required_strictness a c (policy_answers L ps a c x w) \<and>
        pd_intent_id d = ai_intent_id a \<and> tc_risk_level c \<le> pd_risk_level d
    | Inl e \<Rightarrow> e = ValidationError ''constraint names must be unique'' \<and>
        required_strictness a c (policy_answers L ps a c x w) = 1 \<and>
        \<not> distinct (map pc_name (all_constraints (answered_all (policy_answers L ps a c x w))))"
proof -
  let ?as = "policy_answers L ps a c x w"
  have ev: "evaluate L ps a (Some c) x w = evaluate_loop L ps a c x [] w"
    using assms(3) by (simp add: evaluate_def)
  show ?thesis
  proof (cases "list_all (bound a) ?as")
    case True
    obtain w' where loop: "evaluate_loop L ps a c x [] w = compose L a c (answered_all ?as) w'"
      using evaluate_loop_bound[OF True, of "[]"] by auto
    have valid: "\<forall>d \<in> set (answered_all ?as). valid_decision L d"
      using policy_answers_valid[OF assms(1,2)] by (auto simp: answered_all_set)
    show ?thesis
      using compose_strictness[OF assms(1) valid, where a = a and c = c and w = w'] effective_risk_floor(1)
      unfolding ev loop required_strictness_bound[OF True] Let_def
      by (auto simp: not_le split: sum.splits if_splits)
  next
    case False
    from evaluate_loop_unbound[OF False, of "[]"] obtain rs w' where
      loop: "evaluate_loop L ps a c x [] w = engine_denial L a c rs w'"
      and rs: "LongText L rs = Some rs"
      using engine_reason_text[OF assms(1)] by auto
    from engine_denial_ok[OF assms(1) rs, of a c w'] show ?thesis
      by (auto simp: ev loop required_strictness_unbound[OF False])
  qed
qed

text \<open>
  C10: the decision of the engine on an action that matches its contract is exactly as strict
  as the strictest of the policies' answers and of the mandatory approval for high effective
  risk, it is bound to the action and its risk is at least the contract's. It raises only
  when every policy allows and two constraints share a name.
\<close>

theorem engine_strictest:
  assumes "pydantic_documented L" and "returns_instances L ps"
    and "action_matches_contract a c"
  shows "case fst (evaluate L ps a (Some c) x w) of
      Inr d \<Rightarrow> strictness (pd_decision_type d) = required_strictness a c (policy_answers L ps a c x w) \<and>
        pd_intent_id d = ai_intent_id a \<and> tc_risk_level c \<le> pd_risk_level d
    | Inl e \<Rightarrow> e = ValidationError ''constraint names must be unique'' \<and>
        required_strictness a c (policy_answers L ps a c x w) = 1 \<and>
        \<not> distinct (map pc_name (all_constraints (answered_all (policy_answers L ps a c x w))))"
  using assms by (rule engine_outcome)

theorem engine_strictest_witness:
  "\<exists>d. fst (evaluate sample_libs [RiskApprovalPolicy MEDIUM] (sample_action None)
        (Some (sample_contract MEDIUM)) [] sample_world) = Inr d \<and>
     pd_decision_type d = REQUIRE_APPROVAL \<and> MEDIUM \<le> pd_risk_level d"
proof -
  let ?ps = "[RiskApprovalPolicy MEDIUM] :: unit policy list"
  have r: "returns_instances sample_libs ?ps" by (simp add: returns_instances_def)
  have m: "action_matches_contract (sample_action None) (sample_contract MEDIUM)"
    by (simp add: action_matches_contract_def sample_action_def sample_contract_def)
  have "LongText sample_libs ''Risk level requires approval: medium.'' =
      Some ''Risk level requires approval: medium.''"
    by (rule LongText_plain[OF sample_libs_documented]) (simp_all add: white_space_def)
  from decision_ok[OF sample_libs_documented policy_name_text(4)[OF sample_libs_documented] this,
      of REQUIRE_APPROVAL "sample_action None" MEDIUM sample_world]
  obtain d w where run: "decision sample_libs (sample_action None) REQUIRE_APPROVAL MEDIUM
      ''risk_approval'' ''Risk level requires approval: medium.'' [] sample_world = (Inr d, w)"
    and d: "pd_decision_type d = REQUIRE_APPROVAL" "pd_intent_id d = ai_intent_id (sample_action None)"
      "pd_risk_level d = MEDIUM"
    by (metis policy_decision_type.distinct(11) prod.collapse)
  have "policy_answers sample_libs ?ps (sample_action None) (sample_contract MEDIUM) []
      sample_world = [Some (Decision d)]"
    using run by (simp add: policy_evaluate_def risk_approval_evaluate_def risk_at_least_def
        sample_contract_def bindM_def)
  with d have "required_strictness (sample_action None) (sample_contract MEDIUM)
      (policy_answers sample_libs ?ps (sample_action None) (sample_contract MEDIUM) [] sample_world) = 2"
    by (simp add: required_strictness_def answered_all_def answer_strictness_def sample_contract_def
        risk_le_rank)
  moreover have "strictness t = 2 \<longleftrightarrow> t = REQUIRE_APPROVAL" for t by (cases t) simp_all
  ultimately show ?thesis
    using engine_strictest[OF sample_libs_documented r m, of "[]" sample_world]
    by (cases "fst (evaluate sample_libs ?ps (sample_action None) (Some (sample_contract MEDIUM)) []
        sample_world)") (simp_all add: sample_contract_def)
qed

lemma engine_denies:
  assumes "pydantic_documented L" and "returns_instances L ps"
    and "action_matches_contract a c"
    and "ans \<in> set (policy_answers L ps a c x w)"
    and "\<not> bound a ans \<or> (\<exists>d. ans = Some (Decision d) \<and> pd_decision_type d = DENY)"
  shows "\<exists>d. fst (evaluate L ps a (Some c) x w) = Inr d \<and> pd_decision_type d = DENY \<and>
    pd_intent_id d = ai_intent_id a"
proof -
  have "answer_strictness a ans = 3"
    using assms(5) unbound_strictness[of a ans] by (auto simp: answer_strictness_def)
  then have "required_strictness a c (policy_answers L ps a c x w) = 3"
    using assms(4) unfolding required_strictness_def
    by (intro Max_eq_nat) (force simp: image_iff intro: answer_strictness_le)+
  then show ?thesis
    using engine_outcome[OF assms(1-3), of x w] strictness_3
    by (auto split: sum.splits)
qed

text \<open>
  C11: fail closed. If any policy raises, returns something that is not a decision, returns a
  decision bound to another intent, or denies, the engine returns a denial, wherever that
  policy stands in the list and whatever the others answer.
\<close>

theorem engine_fail_closed:
  assumes "pydantic_documented L" and "returns_instances L ps"
    and "action_matches_contract a c"
    and "ans \<in> set (policy_answers L ps a c x w)"
    and "\<not> bound a ans \<or> (\<exists>d. ans = Some (Decision d) \<and> pd_decision_type d = DENY)"
  shows "\<exists>d. fst (evaluate L ps a (Some c) x w) = Inr d \<and> pd_decision_type d = DENY \<and>
    pd_intent_id d = ai_intent_id a"
  using assms by (rule engine_denies)

theorem engine_fail_closed_witness:
  "\<exists>d. fst (evaluate sample_libs [CustomPolicy (\<lambda>_ _ _ e. (Raised, e)), RiskApprovalPolicy HIGH]
        (sample_action None) (Some (sample_contract LOW)) [] sample_world) = Inr d \<and>
     pd_decision_type d = DENY \<and> pd_intent_id d = ai_intent_id (sample_action None)"
proof -
  let ?ps = "[CustomPolicy (\<lambda>_ _ _ e. (Raised, e)), RiskApprovalPolicy HIGH] :: unit policy list"
  have r: "returns_instances sample_libs ?ps" by (simp add: returns_instances_def)
  have m: "action_matches_contract (sample_action None) (sample_contract LOW)"
    by (simp add: action_matches_contract_def sample_action_def sample_contract_def)
  have "None \<in> set (policy_answers sample_libs ?ps (sample_action None) (sample_contract LOW) []
      sample_world)"
    by (simp add: policy_evaluate_def call_user_def)
  from engine_fail_closed[OF sample_libs_documented r m this] show ?thesis by simp
qed

section \<open>Risk floor and mandatory approval\<close>

lemma compose_Inr:
  assumes "compose L a c ds w = (Inr d, w')"
  shows "pd_risk_level d = effective_risk c ds" and "pd_intent_id d = ai_intent_id a"
    and "HIGH \<le> pd_risk_level d \<Longrightarrow> pd_decision_type d \<in> {DENY, REQUIRE_APPROVAL}"
  using assms
  by (auto simp: compose_def effective_risk_max Let_def risk_at_least_iff
      dest: decision_Inr split: option.splits if_splits)

lemma evaluate_loop_Inr:
  assumes "evaluate_loop L ps a c x ds w = (Inr d, w')"
  shows "tc_risk_level c \<le> pd_risk_level d \<and> pd_intent_id d = ai_intent_id a \<and>
    (HIGH \<le> pd_risk_level d \<longrightarrow> pd_decision_type d \<in> {DENY, REQUIRE_APPROVAL})"
  using assms
proof (induction ps arbitrary: ds w)
  case Nil
  then show ?case using compose_Inr[of L a c ds w d w'] effective_risk_floor(1)[of c ds] by auto
next
  case (Cons p ps)
  from Cons.prems obtain ans w1 where
    "(case ans of None \<Rightarrow> engine_denial L a c ''Policy evaluation failed closed.''
      | Some NotADecision \<Rightarrow> engine_denial L a c ''Policy returned an invalid decision.''
      | Some (Decision d) \<Rightarrow> if pd_intent_id d \<noteq> ai_intent_id a
          then engine_denial L a c ''Policy decision was bound to the wrong action intent.''
          else evaluate_loop L ps a c x (ds @ [d])) w1 = (Inr d, w')"
    by (auto elim: bindM_Inr_elim)
  then show ?case
    using Cons.IH by (auto simp: engine_denial_def dest: decision_Inr
        split: option.splits policy_answer.splits if_splits)
qed

text \<open>
  Risk cannot be lowered and high risk is never plainly allowed. Whatever the policies
  do, a decision the engine returns for a registered contract carries at least the risk of
  the contract, and if its risk is HIGH or CRITICAL it is a denial or requires approval.
\<close>

theorem engine_risk_floor:
  assumes "evaluate L ps a (Some c) x w = (Inr d, w')"
  shows "tc_risk_level c \<le> pd_risk_level d \<and> pd_intent_id d = ai_intent_id a \<and>
    (HIGH \<le> pd_risk_level d \<longrightarrow> pd_decision_type d \<in> {DENY, REQUIRE_APPROVAL})"
proof (cases "action_matches_contract a c")
  case True
  with assms show ?thesis by (intro evaluate_loop_Inr) (simp add: evaluate_def)
next
  case False
  with assms show ?thesis by (auto simp: evaluate_def engine_denial_def dest: decision_Inr)
qed

theorem engine_risk_floor_witness:
  "\<exists>d w'. evaluate sample_libs [] (sample_action None) (Some (sample_contract CRITICAL)) []
       sample_world = (Inr d, w') \<and> pd_decision_type d \<in> {DENY, REQUIRE_APPROVAL}"
proof -
  have m: "action_matches_contract (sample_action None) (sample_contract CRITICAL)"
    by (simp add: action_matches_contract_def sample_action_def sample_contract_def)
  have "required_strictness (sample_action None) (sample_contract CRITICAL) [] = 2"
    by (simp add: required_strictness_def answered_all_def sample_contract_def risk_le_rank)
  with engine_outcome[OF sample_libs_documented _ m, of "[]" "[]" sample_world]
  obtain d where "fst (evaluate sample_libs [] (sample_action None)
      (Some (sample_contract CRITICAL)) [] sample_world) = Inr d"
    by (auto simp: returns_instances_def split: sum.splits)
  then obtain w' where run: "evaluate sample_libs [] (sample_action None)
      (Some (sample_contract CRITICAL)) [] sample_world = (Inr d, w')"
    by (metis prod.collapse)
  from engine_risk_floor[OF run] have "CRITICAL \<le> pd_risk_level d"
    and "HIGH \<le> pd_risk_level d \<longrightarrow> pd_decision_type d \<in> {DENY, REQUIRE_APPROVAL}"
    by (simp_all add: sample_contract_def)
  then show ?thesis using run by (auto simp: risk_le_rank)
qed

section \<open>Unknown tools and duplicate constraints\<close>

lemma LongText_wrapped:
  assumes "pydantic_documented L" and "pre \<noteq> []" and "\<not> white_space (hd pre)"
    and "length pre + length s \<le> 4095"
  shows "LongText L (pre @ s @ ''.'') = Some (pre @ s @ ''.'')"
  using assms by (intro LongText_plain) (simp_all add: white_space_def)

text \<open>
  An action on a tool that is not registered is denied with CRITICAL risk: the engine
  returns a decision, and the decision is a denial bound to the action.
\<close>

theorem engine_unknown_tool:
  assumes "pydantic_documented L" and "DomainName L (ai_tool_name a) = Some (ai_tool_name a)"
  shows "\<exists>d. fst (evaluate L ps a None x w) = Inr d \<and> pd_decision_type d = DENY \<and>
    pd_risk_level d = CRITICAL \<and> pd_intent_id d = ai_intent_id a"
proof -
  have "length (ai_tool_name a) \<le> 128"
    using assms by (auto simp: documented_text strip_bounded_Some split: option.splits if_splits)
  then have "LongText L (''Unknown tool denied: '' @ ai_tool_name a @ ''.'') =
      Some (''Unknown tool denied: '' @ ai_tool_name a @ ''.'')"
    by (intro LongText_wrapped[OF assms(1)]) (simp_all add: white_space_def)
  from decision_ok[OF assms(1) policy_name_text(1)[OF assms(1)] this, of DENY a CRITICAL w]
  show ?thesis by (auto simp: evaluate_def)
qed

lemma sample_tool_name: "DomainName sample_libs ''refund'' = Some ''refund''"
  by (rule DomainName_plain[OF sample_libs_documented])
    (simp_all add: domain_name_form_def lower_alpha_def)

theorem engine_unknown_tool_witness:
  "\<exists>d. fst (evaluate sample_libs [] (sample_action None) None [] sample_world) = Inr d \<and>
    pd_decision_type d = DENY \<and> pd_risk_level d = CRITICAL \<and> pd_intent_id d = 40"
  using engine_unknown_tool[OF sample_libs_documented, of "sample_action None" "[]" "[]" sample_world]
    sample_tool_name
  by (simp add: sample_action_def)

text \<open>
  C39: two policies that each allow with a constraint of the same name make the engine raise
  instead of deciding: when all answers allow, the risk is below HIGH and two constraints
  share a name, the composed decision violates the unique-name rule of
  \<^verbatim>\<open>PolicyDecision\<close> and the \<^verbatim>\<open>ValidationError\<close> leaves \<^verbatim>\<open>evaluate\<close>.
\<close>

theorem duplicate_constraints_raise:
  assumes "pydantic_documented L" and "action_matches_contract a c"
    and "list_all (bound a) (policy_answers L ps a c x w)"
    and "\<forall>d \<in> set (answered_all (policy_answers L ps a c x w)).
           pd_decision_type d \<in> {ALLOW, ALLOW_WITH_CONSTRAINTS}"
    and "effective_risk c (answered_all (policy_answers L ps a c x w)) < HIGH"
    and "\<not> distinct (map pc_name (all_constraints (answered_all (policy_answers L ps a c x w))))"
  shows "fst (evaluate L ps a (Some c) x w) =
    Inl (ValidationError ''constraint names must be unique'')"
proof -
  let ?ds = "answered_all (policy_answers L ps a c x w)"
  obtain w' where run: "evaluate L ps a (Some c) x w = compose L a c ?ds w'"
    using evaluate_loop_bound[OF assms(3), of "[]"] assms(2) by (auto simp: evaluate_def)
  have nd: "\<forall>d \<in> set ?ds. pd_decision_type d \<noteq> DENY" using assms(4) by auto
  have na: "\<not> (HIGH \<le> effective_risk c ?ds \<or> (\<exists>d \<in> set ?ds. pd_decision_type d = REQUIRE_APPROVAL))"
    using assms(4,5) by (auto simp: not_le)
  have ne: "all_constraints ?ds \<noteq> []" using assms(6) by auto
  show ?thesis
    unfolding run compose_not_denied[OF assms(1) nd]
    using na ne constrained_decision[OF assms(1) ne] assms(6) by simp
qed

definition limit_policy :: "uuid \<Rightarrow> unit policy" where
  "limit_policy i = CustomPolicy (\<lambda>a c x e. (Returned (Decision
     \<lparr>pd_decision_id = i, pd_intent_id = ai_intent_id a, pd_decision_type = ALLOW_WITH_CONSTRAINTS,
      pd_risk_level = LOW, pd_policy_name = ''limit'', pd_policy_version = ''1'',
      pd_reason = ''Limited.'', pd_decided_at = 0,
      pd_constraints = [\<lparr>pc_name = ''max_amount'', pc_parameters = []\<rparr>]\<rparr>), e))"

theorem duplicate_constraints_raise_witness:
  "fst (evaluate sample_libs [limit_policy 1, limit_policy 2] (sample_action None)
      (Some (sample_contract LOW)) [] sample_world) =
   Inl (ValidationError ''constraint names must be unique'')"
  by (rule duplicate_constraints_raise[OF sample_libs_documented])
    (simp_all add: action_matches_contract_def sample_action_def sample_contract_def limit_policy_def
      policy_evaluate_def call_user_def answered_all_def all_constraints_def effective_risk_def
      risk_le_rank risk_less_rank)

section \<open>The library's policies\<close>

text \<open>
  The permission policy allows exactly when the tool requires no permission, or the
  trusted context carries a list of strings that contains every required permission; a
  missing or malformed list allows nothing.
\<close>

theorem required_permission_allows_iff:
  assumes "pydantic_documented L"
  shows "(\<exists>d w'. required_permission_evaluate L req a c x w = (Inr d, w') \<and> pd_decision_type d = ALLOW) \<longleftrightarrow>
    (case map_of req (ai_tool_name a) of
       None \<Rightarrow> True
     | Some required \<Rightarrow> required = [] \<or>
         (\<exists>granted. dict_get x ''permissions'' = Some (PyList granted) \<and> list_all is_str granted \<and>
            set required \<subseteq> the_str ` set granted))"
proof -
  have al: "\<exists>d w'. allow L a c ''required_permission'' w = (Inr d, w') \<and> pd_decision_type d = ALLOW"
    using decision_ok[OF assms policy_name_text(3)[OF assms] engine_reason_text(1)[OF assms],
        of ALLOW a "tc_risk_level c" w]
    by (auto simp: allow_def prod_eq_iff)
  have dn: "pd_decision_type d \<noteq> ALLOW" if "decision L a DENY rk n rs cs w = (Inr d, w')"
    for rk n rs cs d w'
    using decision_Inr(1)[OF that] by simp
  have ss: "string_set v = Some ps \<longleftrightarrow> (\<exists>g. v = Some (PyList g) \<and> list_all is_str g \<and> ps = map the_str g)"
    for v ps
    by (auto simp: string_set_def split: option.splits pyval.splits if_splits)
  have miss: "sort (remdups (filter (\<lambda>p. p \<notin> A) r)) = [] \<longleftrightarrow> set r \<subseteq> A" for A and r :: "string list"
    by (metis (no_types, lifting) filter_empty_conv remdups_eq_nil_iff set_sort set_empty subset_iff)
  show ?thesis
  proof (cases "map_of req (ai_tool_name a)")
    case None
    then show ?thesis using al by (simp add: required_permission_evaluate_def)
  next
    case (Some r)
    show ?thesis
    proof (cases "string_set (dict_get x ''permissions'')")
      case None
      then have "\<not> (\<exists>g. dict_get x ''permissions'' = Some (PyList g) \<and> list_all is_str g)"
        using ss by (metis option.distinct(1))
      then show ?thesis using Some None al dn
        by (auto simp: required_permission_evaluate_def dest: dn)
    next
      case (Some ps)
      note perms = this
      then obtain g where "dict_get x ''permissions'' = Some (PyList g)" "list_all is_str g"
        "ps = map the_str g" using ss by blast
      then show ?thesis using \<open>map_of req _ = Some r\<close> perms al
        by (auto simp: required_permission_evaluate_def miss Let_def dest: dn)
    qed
  qed
qed

theorem required_permission_allows_iff_witness:
  "\<exists>d w'. required_permission_evaluate sample_libs [(''refund'', [''pay''])] (sample_action None)
      (sample_contract LOW) [(PyStr ''permissions'', PyList [PyStr ''pay'', PyStr ''x''])]
      sample_world = (Inr d, w') \<and> pd_decision_type d = ALLOW"
  by (subst required_permission_allows_iff[OF sample_libs_documented])
    (simp add: sample_action_def dict_get_def)

lemma bit_length_0 [simp]: "bit_length 0 = 0"
  by (simp add: bit_length.simps)

lemma bit_length_pos: "0 < n \<Longrightarrow> bit_length n = Suc (bit_length (n div 2))"
  by (simp add: bit_length.simps[of n])

lemma bit_length_power [simp]: "bit_length (2 ^ n) = Suc n"
proof (induction n)
  case 0
  show ?case by (simp add: bit_length.simps)
next
  case (Suc n)
  then show ?case by (simp add: bit_length_pos)
qed

lemma bit_length_bounds: "0 < n \<Longrightarrow> 2 ^ (bit_length n - 1) \<le> n \<and> n < 2 ^ bit_length n"
proof (induction n rule: bit_length.induct)
  case (1 n)
  show ?case
  proof (cases "n div 2 = 0")
    case True
    with 1 have "n = 1" by arith
    then show ?thesis by (simp add: bit_length_pos)
  next
    case False
    with 1 have ih: "2 ^ (bit_length (n div 2) - 1) \<le> n div 2" "n div 2 < 2 ^ bit_length (n div 2)"
      by auto
    have "0 < bit_length (n div 2)" using False by (simp add: bit_length_pos)
    then obtain k where k: "bit_length (n div 2) = Suc k" by (cases "bit_length (n div 2)") auto
    with ih have "2 ^ k \<le> n div 2" "n div 2 < 2 * 2 ^ k" by simp_all
    then have "2 * 2 ^ k \<le> n" "n < 4 * 2 ^ k" by arith+
    then show ?thesis using 1(2) k by (simp add: bit_length_pos)
  qed
qed

lemma round_magnitude_exact: "m \<le> 2 ^ 53 \<Longrightarrow> round_magnitude m = m"
proof (cases "m = 2 ^ 53")
  case True
  have "bit_length m = 54" using bit_length_power[of 53] by (simp add: True)
  then show ?thesis by (simp add: round_magnitude_def Let_def True)
qed (simp add: round_magnitude_def)

lemma float_of_int_exact:
  assumes "\<bar>i\<bar> \<le> 2 ^ 53"
  shows "float_of_int i = Inr (Finite (of_int i))"
proof -
  have "nat \<bar>i\<bar> \<le> 2 ^ 53" using assms by simp
  then have r: "round_magnitude (nat \<bar>i\<bar>) = nat \<bar>i\<bar>" by (rule round_magnitude_exact)
  have "nat \<bar>i\<bar> < 2 ^ 1024"
  proof -
    have "(2::nat) ^ 53 < 2 ^ 1024" by (rule power_strict_increasing) simp_all
    with \<open>nat \<bar>i\<bar> \<le> 2 ^ 53\<close> show ?thesis by linarith
  qed
  then have "\<not> 2 ^ 1024 \<le> nat \<bar>i\<bar>" by simp
  then show ?thesis unfolding float_of_int_def Let_def r
    by (simp add: sgn_if)
qed

text \<open>
  The rounding of an int threshold. The float the policy compares against differs from
  the int it was given by at most half a unit of its 53-bit significand, and not at all up
  to \<open>2^53\<close>.
\<close>

theorem round_magnitude_error:
  "2 * \<bar>int (round_magnitude m) - int m\<bar> \<le> (if m \<le> 2 ^ 53 then 0 else 2 ^ (bit_length m - 53))"
proof (cases "m \<le> 2 ^ 53")
  case True
  then show ?thesis by (simp add: round_magnitude_exact)
next
  case False
  define sh where "sh = bit_length m - 53"
  define q where "q = m div 2 ^ sh"
  define r where "r = m mod 2 ^ sh"
  have "m < 2 ^ bit_length m" using bit_length_bounds[of m] False by simp
  with False have "(2::nat) ^ 53 < 2 ^ bit_length m" by linarith
  then have "53 < bit_length m" by (rule power_less_imp_less_exp[rotated]) simp
  then have sh: "0 < sh" by (simp add: sh_def)
  have m: "m = q * 2 ^ sh + r" unfolding q_def r_def by (rule div_mult_mod_eq[symmetric])
  have r_less: "r < 2 ^ sh" by (simp add: r_def)
  have half: "(2::nat) * 2 ^ (sh - 1) = 2 ^ sh" using sh by (cases sh) simp_all
  have rm: "round_magnitude m = (if 2 ^ (sh - 1) < r \<or> r = 2 ^ (sh - 1) \<and> odd q then q + 1 else q) * 2 ^ sh"
    using False by (simp add: round_magnitude_def Let_def sh_def[symmetric] q_def[symmetric] r_def[symmetric])
  show ?thesis
  proof (cases "2 ^ (sh - 1) < r \<or> r = 2 ^ (sh - 1) \<and> odd q")
    case True
    then have "int (round_magnitude m) - int m = 2 ^ sh - int r" using rm m by (simp add: algebra_simps)
    moreover have "2 ^ sh \<le> 2 * r" using True half by auto
    then have "(2::int) ^ sh \<le> 2 * int r"
      by (metis of_nat_le_iff of_nat_mult of_nat_numeral of_nat_power)
    moreover have "int r < 2 ^ sh" using r_less by (metis of_nat_less_iff of_nat_numeral of_nat_power)
    ultimately show ?thesis using False by (simp add: sh_def[symmetric])
  next
    case no: False
    then have "int (round_magnitude m) - int m = - int r" using rm m by (simp add: algebra_simps)
    moreover have "2 * r \<le> 2 ^ sh" using no half by auto
    then have "2 * int r \<le> 2 ^ sh"
      by (metis of_nat_le_iff of_nat_mult of_nat_numeral of_nat_power)
    ultimately show ?thesis using False by (simp add: sh_def[symmetric])
  qed
qed

lemma numeric_threshold_allows:
  assumes "pydantic_documented L"
    and "dict_get (ai_arguments a) field = Some v" and "is_number (Some v)"
    and "case tools of None \<Rightarrow> True | Some ts \<Rightarrow> ai_tool_name a \<in> set ts"
  shows "(\<exists>d w'. policy_evaluate L (NumericApprovalThresholdPolicy field t tools) a c x w =
      (Inr (Decision d), w') \<and> pd_decision_type d = ALLOW) \<longleftrightarrow> \<not> num_less (PyFloat t) v"
proof -
  have al: "\<exists>d w'. allow L a c ''numeric_threshold'' w = (Inr d, w') \<and> pd_decision_type d = ALLOW"
    using decision_ok[OF assms(1) policy_name_text(5)[OF assms(1)] engine_reason_text(1)[OF assms(1)],
        of ALLOW a "tc_risk_level c" w]
    by (auto simp: allow_def prod_eq_iff)
  have dn: "pd_decision_type d \<noteq> ALLOW" if "decision L a REQUIRE_APPROVAL rk n rs cs w = (Inr d, w')"
    for rk n rs cs d w'
    using decision_Inr(1)[OF that] by simp
  have sel: "(case tools of None \<Rightarrow> False | Some ts \<Rightarrow> ai_tool_name a \<notin> set ts) = False"
    using assms(4) by (cases tools) simp_all
  show ?thesis
    using assms(2,3) al
    by (auto simp: policy_evaluate_def numeric_threshold_evaluate_def sel Let_def bindM_def
        dest: dn split: prod.splits sum.splits)
qed

text \<open>
  with an int threshold of magnitude at most \<open>2^53\<close> the threshold policy, on a tool it
  selects and an int argument, allows exactly the values up to the threshold.
\<close>

theorem numeric_threshold_exact:
  assumes "pydantic_documented L" and "\<bar>t\<bar> \<le> 2 ^ 53"
    and "dict_get (ai_arguments a) field = Some (PyInt v)"
    and "case tools of None \<Rightarrow> True | Some ts \<Rightarrow> ai_tool_name a \<in> set ts"
  shows "\<exists>p. numeric_approval_threshold_policy field (PyInt t) tools = Inr p \<and>
    ((\<exists>d w'. policy_evaluate L p a c x w = (Inr (Decision d), w') \<and> pd_decision_type d = ALLOW)
     \<longleftrightarrow> v \<le> t)"
  using numeric_threshold_allows[OF assms(1) assms(3) _ assms(4), of "Finite (of_int t)" c x w]
  by (simp add: numeric_approval_threshold_policy_def float_of_int_exact[OF assms(2)] is_number_def
      num_less_def not_less)

theorem numeric_threshold_exact_witness:
  "\<exists>p. numeric_approval_threshold_policy ''amount'' (PyInt 4) None = Inr p \<and>
    \<not> (\<exists>d w'. policy_evaluate sample_libs p (sample_action None) (sample_contract LOW) [] sample_world =
        (Inr (Decision d), w') \<and> pd_decision_type d = ALLOW)"
  using numeric_threshold_exact[OF sample_libs_documented, of 4 "sample_action None" "''amount''" 5 None
      "sample_contract LOW" "[]" sample_world]
  by (auto simp: sample_action_def dict_get_def)

end
