(* ===== verification/Schema_Validation.thy ===== *)
theory Schema_Validation
  imports Contracts
begin

text \<open>
  The validator of the supported JSON Schema subset (the module-level functions of
  \<^verbatim>\<open>execution/runtime.py\<close>), with its messages, and its specification: a value conforms to a
  schema document by the rules of an inductive predicate, and the validator accepts exactly
  the values that conform.
\<close>

section \<open>The validator\<close>

fun number_str :: "'z libs_scheme \<Rightarrow> pyval \<Rightarrow> string" where
  "number_str L (PyInt i) = int_str i"
| "number_str L (PyFloat f) = float_repr L f"
| "number_str L _ = []"

definition json_or_raise :: "pyval \<Rightarrow> string \<Rightarrow> pyval result" where
  "json_or_raise value path =
     (if json_dumps_ok value then Inr value
      else Inl (SchemaValidationError (path @ '' must be JSON serializable'')))"

definition json_or_none :: "pyval \<Rightarrow> pyval" where
  "json_or_none value = (case json_or_raise value ''$'' of Inl _ \<Rightarrow> PyNone | Inr v \<Rightarrow> v)"

definition is_limit :: "pyval \<Rightarrow> bool" where
  "is_limit m \<longleftrightarrow> (is_int m \<or> is_float m) \<and> \<not> is_bool m"

definition validate_minimum :: "'z libs_scheme \<Rightarrow> pyval \<Rightarrow> pydict \<Rightarrow> string \<Rightarrow> unit result" where
  "validate_minimum L value schema path =
     (case dict_get schema ''minimum'' of
        None \<Rightarrow> Inr ()
      | Some m \<Rightarrow>
          if is_limit m \<and> num_less value m then
            Inl (SchemaValidationError (path @ '' must be at least '' @ number_str L m))
          else Inr ())"

fun validate_required :: "pydict \<Rightarrow> pyval list \<Rightarrow> string \<Rightarrow> unit result" where
  "validate_required value [] path = Inr ()"
| "validate_required value (PyStr field # names) path =
     (if \<not> dict_has value field then
        Inl (SchemaValidationError (path @ ''.'' @ field @ '' is required''))
      else validate_required value names path)"
| "validate_required value (_ # names) path = validate_required value names path"

abbreviation items_size :: "pydict \<Rightarrow> nat" where
  "items_size \<equiv> size_list (size_prod size size)"

lemma items_size_get: "dict_get d k = Some (PyDict e) \<Longrightarrow> items_size e < items_size d"
proof -
  assume "dict_get d k = Some (PyDict e)"
  then have "(PyStr k, PyDict e) \<in> set d" by (auto simp: dict_get_def dest: map_of_SomeD)
  then show ?thesis by (induction d) auto
qed

text \<open>
  The property loop descends into the schemas of the properties, which are smaller
  documents: that is why the validator returns.
\<close>

function (sequential) validate_value ::
    "'z libs_scheme \<Rightarrow> pyval \<Rightarrow> pydict \<Rightarrow> string \<Rightarrow> unit result"
  and validate_properties ::
    "'z libs_scheme \<Rightarrow> pydict \<Rightarrow> pydict \<Rightarrow> string \<Rightarrow> unit result" where
  "validate_value L value schema path =
     bindR
      (case dict_get schema ''type'' of
         None \<Rightarrow> Inr ()
       | Some PyNone \<Rightarrow> Inr ()
       | Some (PyStr t) \<Rightarrow>
           (if t = ''object'' then
              (case value of
                 PyDict d \<Rightarrow>
                   bindR (case dict_get schema ''required'' of
                            Some (PyList names) \<Rightarrow> validate_required d names path
                          | _ \<Rightarrow> Inr ()) (\<lambda>_.
                   case dict_get schema ''properties'' of
                     Some (PyDict props) \<Rightarrow> validate_properties L d props path
                   | _ \<Rightarrow> Inr ())
               | _ \<Rightarrow> Inl (SchemaValidationError (path @ '' must be an object'')))
            else if t = ''string'' then
              require (is_str value) (SchemaValidationError (path @ '' must be a string''))
            else if t = ''integer'' then
              bindR (require (is_int value \<and> \<not> is_bool value)
                (SchemaValidationError (path @ '' must be an integer''))) (\<lambda>_.
              validate_minimum L value schema path)
            else if t = ''number'' then
              bindR (require ((is_int value \<or> is_float value) \<and> \<not> is_bool value)
                (SchemaValidationError (path @ '' must be a number''))) (\<lambda>_.
              validate_minimum L value schema path)
            else if t = ''boolean'' then
              require (is_bool value) (SchemaValidationError (path @ '' must be a boolean''))
            else if t = ''array'' then
              require (is_list value) (SchemaValidationError (path @ '' must be an array''))
            else Inl (SchemaValidationError (path @ '' has unsupported schema type'')))
       | Some _ \<Rightarrow> Inl (SchemaValidationError (path @ '' has unsupported schema type''))) (\<lambda>_.
      bindR (json_or_raise value path) (\<lambda>_. Inr ()))"
| "validate_properties L d [] path = Inr ()"
| "validate_properties L d ((PyStr field, PyDict field_schema) # props) path =
     bindR (case dict_get d field of
              None \<Rightarrow> Inr ()
            | Some v \<Rightarrow> validate_value L v field_schema (path @ ''.'' @ field)) (\<lambda>_.
     validate_properties L d props path)"
| "validate_properties L d (_ # props) path = validate_properties L d props path"
  by pat_completeness auto
termination
  by (relation "measure (\<lambda>x. case x of Inl (L, v, s, p) \<Rightarrow> items_size s
        | Inr (L, d, ps, p) \<Rightarrow> items_size ps)")
    (auto dest: items_size_get)

declare validate_value.simps [simp del]

text \<open>\<open>None\<close> when the value is accepted, else the message.\<close>

definition validate_against_schema :: "'z libs_scheme \<Rightarrow> pyval \<Rightarrow> pydict \<Rightarrow> string option" where
  "validate_against_schema L value schema =
     (case validate_value L value schema ''$'' of
        Inl (SchemaValidationError m) \<Rightarrow> Some m
      | _ \<Rightarrow> None)"

section \<open>Conformance\<close>

definition within_minimum :: "pydict \<Rightarrow> pyval \<Rightarrow> bool" where
  "within_minimum schema v \<longleftrightarrow>
     (\<forall>m. dict_get schema ''minimum'' = Some m \<longrightarrow> is_limit m \<longrightarrow> \<not> num_less v m)"

definition has_required :: "pydict \<Rightarrow> pydict \<Rightarrow> bool" where
  "has_required schema d \<longleftrightarrow>
     (\<forall>names f. dict_get schema ''required'' = Some (PyList names) \<longrightarrow> PyStr f \<in> set names \<longrightarrow>
        dict_has d f)"

definition property_schemas :: "pydict \<Rightarrow> (string \<times> pydict) set" where
  "property_schemas schema =
     {(f, s). \<exists>props. dict_get schema ''properties'' = Some (PyDict props) \<and> (PyStr f, PyDict s) \<in> set props}"

inductive conforms :: "pyval \<Rightarrow> pydict \<Rightarrow> bool" where
  untyped: "dict_get s ''type'' \<in> {None, Some PyNone} \<Longrightarrow> json_dumps_ok v \<Longrightarrow> conforms v s"
| object: "dict_get s ''type'' = Some (PyStr ''object'') \<Longrightarrow> json_dumps_ok (PyDict d) \<Longrightarrow>
    has_required s d \<Longrightarrow>
    (\<And>f fs v. (f, fs) \<in> property_schemas s \<Longrightarrow> dict_get d f = Some v \<Longrightarrow> conforms v fs) \<Longrightarrow>
    conforms (PyDict d) s"
| textual: "dict_get s ''type'' = Some (PyStr ''string'') \<Longrightarrow> conforms (PyStr x) s"
| integer: "dict_get s ''type'' = Some (PyStr ''integer'') \<Longrightarrow> within_minimum s (PyInt i) \<Longrightarrow>
    conforms (PyInt i) s"
| number_int: "dict_get s ''type'' = Some (PyStr ''number'') \<Longrightarrow> within_minimum s (PyInt i) \<Longrightarrow>
    conforms (PyInt i) s"
| number_float: "dict_get s ''type'' = Some (PyStr ''number'') \<Longrightarrow>
    within_minimum s (PyFloat (Finite r)) \<Longrightarrow> conforms (PyFloat (Finite r)) s"
| boolean: "dict_get s ''type'' = Some (PyStr ''boolean'') \<Longrightarrow> conforms (PyBool b) s"
| array: "dict_get s ''type'' = Some (PyStr ''array'') \<Longrightarrow> json_dumps_ok (PyList vs) \<Longrightarrow>
    conforms (PyList vs) s"

lemma validate_required_iff:
  "validate_required d names p = Inr () \<longleftrightarrow> (\<forall>f. PyStr f \<in> set names \<longrightarrow> dict_has d f)"
  by (induction d names p rule: validate_required.induct) auto

lemma validate_minimum_iff:
  "validate_minimum L v s p = Inr () \<longleftrightarrow> within_minimum s v"
  by (auto simp: validate_minimum_def within_minimum_def split: option.splits)

lemma json_or_raise_iff: "(\<exists>w. json_or_raise v p = Inr w) \<longleftrightarrow> json_dumps_ok v"
  by (simp add: json_or_raise_def)

lemma conforms_scalar:
  "dict_get s ''type'' = Some PyNone \<Longrightarrow> conforms v s \<longleftrightarrow> json_dumps_ok v"
  "dict_get s ''type'' = Some (PyStr ''string'') \<Longrightarrow> conforms v s \<longleftrightarrow> is_str v \<and> json_dumps_ok v"
  "dict_get s ''type'' = Some (PyStr ''integer'') \<Longrightarrow>
     conforms v s \<longleftrightarrow> is_int v \<and> \<not> is_bool v \<and> within_minimum s v \<and> json_dumps_ok v"
  "dict_get s ''type'' = Some (PyStr ''number'') \<Longrightarrow>
     conforms v s \<longleftrightarrow> (is_int v \<or> is_float v) \<and> \<not> is_bool v \<and> within_minimum s v \<and> json_dumps_ok v"
  "dict_get s ''type'' = Some (PyStr ''boolean'') \<Longrightarrow> conforms v s \<longleftrightarrow> is_bool v \<and> json_dumps_ok v"
  "dict_get s ''type'' = Some (PyStr ''array'') \<Longrightarrow> conforms v s \<longleftrightarrow> is_list v \<and> json_dumps_ok v"
proof -
  have fin: "finite_float f \<longleftrightarrow> (\<exists>r. f = Finite r)" for f by (cases f) simp_all
  show "dict_get s ''type'' = Some PyNone \<Longrightarrow> conforms v s \<longleftrightarrow> json_dumps_ok v"
    "dict_get s ''type'' = Some (PyStr ''string'') \<Longrightarrow> conforms v s \<longleftrightarrow> is_str v \<and> json_dumps_ok v"
    "dict_get s ''type'' = Some (PyStr ''boolean'') \<Longrightarrow> conforms v s \<longleftrightarrow> is_bool v \<and> json_dumps_ok v"
    "dict_get s ''type'' = Some (PyStr ''array'') \<Longrightarrow> conforms v s \<longleftrightarrow> is_list v \<and> json_dumps_ok v"
    "dict_get s ''type'' = Some (PyStr ''integer'') \<Longrightarrow>
       conforms v s \<longleftrightarrow> is_int v \<and> \<not> is_bool v \<and> within_minimum s v \<and> json_dumps_ok v"
    by (cases v; simp add: conforms.simps[of _ s])+
  show "dict_get s ''type'' = Some (PyStr ''number'') \<Longrightarrow>
     conforms v s \<longleftrightarrow> (is_int v \<or> is_float v) \<and> \<not> is_bool v \<and> within_minimum s v \<and> json_dumps_ok v"
    by (cases v) (auto simp: conforms.simps[of _ s] fin)
qed

lemma object_step_iff:
  assumes "\<And>props. dict_get s ''properties'' = Some (PyDict props) \<Longrightarrow>
      validate_properties L d props p = Inr () \<longleftrightarrow>
      (\<forall>f fs v. (PyStr f, PyDict fs) \<in> set props \<longrightarrow> dict_get d f = Some v \<longrightarrow> conforms v fs)"
  shows "bindR (case dict_get s ''required'' of
           Some (PyList names) \<Rightarrow> validate_required d names p | _ \<Rightarrow> Inr ()) (\<lambda>_.
         case dict_get s ''properties'' of
           Some (PyDict props) \<Rightarrow> validate_properties L d props p | _ \<Rightarrow> Inr ()) = Inr () \<longleftrightarrow>
    has_required s d \<and>
    (\<forall>f fs v. (f, fs) \<in> property_schemas s \<longrightarrow> dict_get d f = Some v \<longrightarrow> conforms v fs)"
proof -
  have req: "(case dict_get s ''required'' of
      Some (PyList names) \<Rightarrow> validate_required d names p | _ \<Rightarrow> Inr ()) = Inr () \<longleftrightarrow> has_required s d"
    by (auto simp: has_required_def validate_required_iff split: option.split pyval.split)
  have props: "(case dict_get s ''properties'' of
      Some (PyDict props) \<Rightarrow> validate_properties L d props p | _ \<Rightarrow> Inr ()) = Inr () \<longleftrightarrow>
      (\<forall>f fs v. (f, fs) \<in> property_schemas s \<longrightarrow> dict_get d f = Some v \<longrightarrow> conforms v fs)"
    using assms by (auto simp: property_schemas_def split: option.split pyval.split)
  show ?thesis by (simp add: bindR_Inr_iff req props)
qed

lemma validate_value_iff:
  "validate_value L v s p = Inr () \<longleftrightarrow> conforms v s"
  "validate_properties L d ps p = Inr () \<longleftrightarrow>
     (\<forall>f fs v. (PyStr f, PyDict fs) \<in> set ps \<longrightarrow> dict_get d f = Some v \<longrightarrow> conforms v fs)"
proof (induction L v s p and L d ps p rule: validate_value_validate_properties.induct)
  case (1 L x schema path)
  show ?case
  proof (cases "dict_get schema ''type''")
    case None
    then show ?thesis
      unfolding validate_value.simps[of L x] by (simp add: bindR_Inr_iff json_or_raise_iff conforms.simps[of x schema])
  next
    case (Some ty)
    show ?thesis
    proof (cases "ty = PyStr ''object''")
      case True
      show ?thesis
      proof (cases x)
        case (PyDict d)
        have "validate_properties L d props path = Inr () \<longleftrightarrow>
            (\<forall>f fs v. (PyStr f, PyDict fs) \<in> set props \<longrightarrow> dict_get d f = Some v \<longrightarrow> conforms v fs)"
          if "dict_get schema ''properties'' = Some (PyDict props)" for props
          by (rule "1.IH") (use Some True PyDict that in auto)
        note step = object_step_iff[where s = schema and d = d and p = path and L = L, OF this]
        have "validate_value L x schema path = Inr () \<longleftrightarrow>
            has_required schema d \<and> json_dumps_ok (PyDict d) \<and>
            (\<forall>f fs v. (f, fs) \<in> property_schemas schema \<longrightarrow> dict_get d f = Some v \<longrightarrow> conforms v fs)"
          unfolding validate_value.simps[of L x]
          using step json_or_raise_iff[of "PyDict d" path] by (auto simp: Some True PyDict bindR_Inr_iff)
        then show ?thesis
          by (auto simp: Some True PyDict conforms.simps[of "PyDict d" schema])
      qed (simp_all add: validate_value.simps[of L _ schema path] Some True conforms.simps[of _ schema])
    next
      case no: False
      show ?thesis
      proof (cases "ty \<in> {PyNone, PyStr ''string'', PyStr ''integer'', PyStr ''number'',
          PyStr ''boolean'', PyStr ''array''}")
        case True
        then show ?thesis
          using Some unfolding validate_value.simps[of L x]
          by (auto simp: bindR_Inr_iff json_or_raise_iff conforms_scalar validate_minimum_iff)
      next
        case False
        then have "\<not> conforms x schema" using Some no by (auto simp: conforms.simps[of x schema])
        moreover have "validate_value L x schema path \<noteq> Inr ()"
          using Some no False unfolding validate_value.simps[of L x]
          by (cases ty) (auto simp: bindR_Inr_iff)
        ultimately show ?thesis by blast
      qed
    qed
  qed
qed (auto simp: bindR_Inr_iff split: option.splits)

text \<open>Every exception of the validator carries a message that starts with the path.\<close>

definition path_error :: "string \<Rightarrow> 'a result \<Rightarrow> bool" where
  "path_error p r \<longleftrightarrow> (\<forall>e. r = Inl e \<longrightarrow> (\<exists>m. e = SchemaValidationError (p @ m)))"

lemma path_error_intros:
  "path_error p (Inr x)"
  "path_error p (Inl (SchemaValidationError (p @ m)))"
  "path_error p (require c (SchemaValidationError (p @ m)))"
  "path_error p (json_or_raise v p)"
  "path_error p (validate_minimum L v s p)"
  by (auto simp: path_error_def require_def json_or_raise_def validate_minimum_def split: option.splits)

lemma path_error_weaken: "path_error (p @ q) r \<Longrightarrow> path_error p r"
  by (auto simp: path_error_def)

lemma path_error_bindR: "path_error p r \<Longrightarrow> (\<And>x. path_error p (f x)) \<Longrightarrow> path_error p (bindR r f)"
  by (cases r) (auto simp: path_error_def)

lemma path_error_required: "path_error p (validate_required d names p)"
  by (induction d names p rule: validate_required.induct) (auto intro: path_error_intros)

lemma path_error_validate:
  "path_error p (validate_value L v s p)"
  "path_error p (validate_properties L d ps p)"
proof (induction L v s p and L d ps p rule: validate_value_validate_properties.induct)
  case (1 L x schema path)
  have obj: "path_error path (case x of
        PyDict d \<Rightarrow>
          bindR (case dict_get schema ''required'' of
            Some (PyList names) \<Rightarrow> validate_required d names path | _ \<Rightarrow> Inr ()) (\<lambda>_.
          case dict_get schema ''properties'' of
            Some (PyDict props) \<Rightarrow> validate_properties L d props path | _ \<Rightarrow> Inr ())
      | _ \<Rightarrow> Inl (SchemaValidationError (path @ '' must be an object'')))"
    if "dict_get schema ''type'' = Some (PyStr ''object'')"
    using "1.IH"[OF that refl refl]
    by (cases x) (auto intro!: path_error_bindR path_error_intros(1,2) path_error_required
        split: option.split pyval.split)
  have ty: "path_error path (Inl (SchemaValidationError (path @ '' has unsupported schema type'')))"
    by (rule path_error_intros)
  show ?case
    unfolding validate_value.simps[of L x]
  proof (intro path_error_bindR, goal_cases)
    case 1
    show ?case
    proof (cases "dict_get schema ''type''")
      case (Some t)
      then show ?thesis using obj
        by (cases t) (simp_all add: ty path_error_intros path_error_bindR)
    qed (simp add: path_error_intros)
  qed (rule path_error_intros)+
next
  case (3 L d field fs props path)
  have "path_error path (validate_value L v fs (path @ ''.'' @ field))" if "dict_get d field = Some v" for v
    using "3.IH"(1)[OF that] by (rule path_error_weaken)
  then show ?case using "3.IH"(2)
    by (auto intro!: path_error_bindR path_error_intros(1) split: option.split)
qed (simp_all add: path_error_intros)

lemma validate_value_error: "validate_value L v s p = Inl e \<Longrightarrow> \<exists>m. e = SchemaValidationError (p @ m)"
  using path_error_validate(1)[of p L v s] by (simp add: path_error_def)

lemma validate_against_schema_None: "validate_against_schema L v s = None \<longleftrightarrow> conforms v s"
proof (cases "validate_value L v s ''$''")
  case (Inl e)
  then obtain m where "e = SchemaValidationError (''$'' @ m)" using validate_value_error by blast
  with Inl show ?thesis using validate_value_iff(1)[of L v s "''$''"]
    by (simp add: validate_against_schema_def)
next
  case (Inr u)
  then show ?thesis using validate_value_iff(1)[of L v s "''$''"]
    by (simp add: validate_against_schema_def)
qed

lemma validate_against_schema_message:
  assumes "validate_against_schema L v s = Some m"
  shows "\<exists>m'. m = CHR ''$'' # m'"
  using assms validate_value_error[of L v s "''$''"]
  by (auto simp: validate_against_schema_def split: sum.splits error.splits)

text \<open>
  C19: The validator decides conformance. The hand-written validator, which walks the document
  and reports the first violation it meets, accepts a value exactly when the value conforms to
  the document: its \<^verbatim>\<open>type\<close>, the presence of its \<^verbatim>\<open>required\<close> fields, the documents of its
  \<^verbatim>\<open>properties\<close> for the fields that are present, its \<^verbatim>\<open>minimum\<close>, and no NaN or infinity
  anywhere. A value is never accepted under a type the validator does not know; other
  keywords, and keywords with malformed content, constrain nothing.
\<close>

theorem validator_decides_conformance:
  "validate_against_schema L v s = None \<longleftrightarrow> conforms v s"
  by (rule validate_against_schema_None)

text \<open>A validator message of at most 4096 characters is an acceptable failure message.\<close>

lemma schema_message_text:
  assumes "pydantic_documented L" and "validate_against_schema L v s = Some m" and "length m \<le> 4096"
  shows "\<exists>t. LongText L m = Some t"
proof -
  from validate_against_schema_message[OF assms(2)] obtain m' where m: "m = CHR ''$'' # m'" by blast
  have "\<not> white_space CHR ''$''" by (simp add: white_space_def)
  then have "strip_by white_space m \<noteq> []" unfolding m by (rule strip_by_nonempty)
  moreover have "length (strip_by white_space m) \<le> 4096"
    using length_strip_by[of white_space m] assms(3) by linarith
  ultimately show ?thesis
    by (cases "strip_by white_space m") (auto simp: documented_text(2)[OF assms(1)] strip_bounded_def Let_def)
qed

lemma conforms_json: "conforms v s \<Longrightarrow> json_dumps_ok v"
  by (cases rule: conforms.cases) auto

end
