(* ===== verification/Execution_Models.thy ===== *)
theory Execution_Models
  imports Contracts
begin

text \<open>
  \<^verbatim>\<open>execution/models.py\<close>: the sanitized failure detail and the result of one attempted
  execution, with the validator that keeps timing, error and verification coherent.
\<close>

record failure_detail =
  fd_code :: string
  fd_message :: string

definition FailureDetail :: "'z libs_scheme \<Rightarrow> failure_detail \<Rightarrow> failure_detail result" where
  "FailureDetail L d =
     bindR (text_field (ShortText L) ''code'' (fd_code d)) (\<lambda>code.
     bindR (text_field (LongText L) ''message'' (fd_message d)) (\<lambda>message.
     Inr (d\<lparr>fd_code := code, fd_message := message\<rparr>)))"

record execution_result =
  er_execution_id :: uuid
  er_transaction_id :: uuid
  er_intent_id :: uuid
  er_succeeded :: bool
  er_started_at :: time
  er_completed_at :: time
  er_output :: pyval
  er_error :: "failure_detail option"
  er_postcondition_verified :: "bool option"

definition ExecutionResult :: "'z libs_scheme \<Rightarrow> execution_result \<Rightarrow> execution_result result" where
  "ExecutionResult L r =
     bindR (require (json_value L (er_output r)) (ValidationError ''output'')) (\<lambda>_.
     if er_completed_at r < er_started_at r then
       Inl (ValidationError ''completed_at must not precede started_at'')
     else if er_succeeded r then
       (if er_error r \<noteq> None then
          Inl (ValidationError ''successful execution cannot contain an error'')
        else if er_postcondition_verified r = Some False then
          Inl (ValidationError ''successful execution cannot fail its postcondition'')
        else Inr r)
     else if er_error r = None then Inl (ValidationError ''failed execution requires an error'')
     else Inr r)"

definition coherent_result :: "execution_result \<Rightarrow> bool" where
  "coherent_result r \<longleftrightarrow> er_started_at r \<le> er_completed_at r \<and>
     (er_succeeded r \<longrightarrow> er_error r = None \<and> er_postcondition_verified r \<noteq> Some False) \<and>
     (\<not> er_succeeded r \<longrightarrow> er_error r \<noteq> None)"

lemma ExecutionResult_iff:
  "ExecutionResult L r = Inr q \<longleftrightarrow> q = r \<and> json_value L (er_output r) \<and> coherent_result r"
  by (auto simp: ExecutionResult_def coherent_result_def bindR_Inr_iff)

lemma ExecutionResult_cases:
  "ExecutionResult L r =
     (if json_value L (er_output r) \<and> coherent_result r then Inr r else
      Inl (projl (ExecutionResult L r)))"
  using ExecutionResult_iff[of L r] by (cases "ExecutionResult L r") auto

lemma FailureDetail_iff:
  "FailureDetail L d = Inr e \<longleftrightarrow>
     ShortText L (fd_code d) = Some (fd_code e) \<and> LongText L (fd_message d) = Some (fd_message e)"
  by (cases d; cases e) (auto simp: FailureDetail_def bindR_Inr_iff)

end
