(* ===== verification/Audit_Ledger.thy ===== *)
theory Audit_Ledger
  imports Contracts
begin

text \<open>
  The audit ledger: the event model (\<^verbatim>\<open>ledger/models.py\<close>), the \<^verbatim>\<open>Ledger\<close> protocol and
  the in-memory append-only ledger (\<^verbatim>\<open>ledger/backend.py\<close>). A ledger object is either an
  \<^verbatim>\<open>InMemoryLedger\<close> with its clock, whose events are the field \<open>events\<close> of the state,
  or any other object with the protocol's \<^verbatim>\<open>append\<close>, which acts on \<open>ext\<close> and may raise.
\<close>

record ledger_event =
  le_event_id :: uuid
  le_correlation_id :: uuid
  le_sequence_number :: nat
  le_event_type :: string
  le_occurred_at :: time
  le_transaction_id :: "uuid option"
  le_intent_id :: "uuid option"
  le_actor_id :: "string option"
  le_details :: json_object

definition LedgerEvent :: "'z libs_scheme \<Rightarrow> ledger_event \<Rightarrow> ledger_event result" where
  "LedgerEvent L e =
     bindR (require (0 < le_sequence_number e) (ValidationError ''sequence_number'')) (\<lambda>_.
     bindR (text_field (DomainName L) ''event_type'' (le_event_type e)) (\<lambda>event_type.
     bindR (optional_text (ShortText L) ''actor_id'' (le_actor_id e)) (\<lambda>actor_id.
     bindR (require (JsonObject L (le_details e)) (ValidationError ''details'')) (\<lambda>_.
     Inr (e\<lparr>le_event_type := event_type, le_actor_id := actor_id\<rparr>)))))"

text \<open>The keyword arguments of \<^verbatim>\<open>append\<close>.\<close>

record event_request =
  rq_correlation_id :: uuid
  rq_event_type :: string
  rq_intent_id :: "uuid option"
  rq_transaction_id :: "uuid option"
  rq_actor_id :: "string option"
  rq_details :: "json_object option"

datatype 'e ledger =
  InMemoryLedger clock
| CustomLedger "event_request \<Rightarrow> ('e, ledger_event) callback"

record 'e ledger_world = "'e world" +
  events :: "ledger_event list"

lemma keeps_events [keeps_intros]:
  "keeps events uuid4" "keeps events (read_clock c)" "keeps events now_utc"
  "keeps events (call_user f)" "keeps events (note_call n)"
  by (auto simp: keeps_def world_defs split: prod.splits outcome.splits)

definition in_memory_append ::
  "'z libs_scheme \<Rightarrow> clock \<Rightarrow> event_request \<Rightarrow> (('e, 'y) ledger_world_scheme, ledger_event) action" where
  "in_memory_append L clk rq =
     bindM uuid4 (\<lambda>event_id.
     bindM (getM (\<lambda>s. length (events s) + 1)) (\<lambda>sequence_number.
     bindM (read_clock clk) (\<lambda>occurred_at.
     bindM (liftM (LedgerEvent L
       \<lparr>le_event_id = event_id, le_correlation_id = rq_correlation_id rq,
        le_sequence_number = sequence_number, le_event_type = rq_event_type rq,
        le_occurred_at = occurred_at, le_transaction_id = rq_transaction_id rq,
        le_intent_id = rq_intent_id rq, le_actor_id = rq_actor_id rq,
        le_details = (case rq_details rq of None \<Rightarrow> [] | Some d \<Rightarrow> d)\<rparr>)) (\<lambda>event.
     bindM (modifyM (\<lambda>s. s\<lparr>events := events s @ [event]\<rparr>)) (\<lambda>_.
     retM event)))))"

definition ledger_append ::
  "'z libs_scheme \<Rightarrow> 'e ledger \<Rightarrow> event_request \<Rightarrow> (('e, 'y) ledger_world_scheme, ledger_event) action" where
  "ledger_append L ledger rq =
     (case ledger of
        InMemoryLedger clk \<Rightarrow> in_memory_append L clk rq
      | CustomLedger f \<Rightarrow> call_user (f rq))"

definition list_events :: "('e, 'y) ledger_world_scheme \<Rightarrow> ledger_event list" where
  "list_events s = events s"

lemma LedgerEvent_elim:
  assumes "LedgerEvent L e = Inr e'"
  obtains t a where "DomainName L (le_event_type e) = Some t"
    and "e' = e\<lparr>le_event_type := t, le_actor_id := a\<rparr>"
  using assms by (auto simp: LedgerEvent_def bindR_Inr_iff)

section \<open>The append-only sequence\<close>

definition ledger_inv :: "ledger_event list \<Rightarrow> bool" where
  "ledger_inv es \<longleftrightarrow> (\<forall>i < length es. le_sequence_number (es ! i) = i + 1)"

lemma in_memory_append_cases:
  obtains (stored) ev where
      "fst (in_memory_append L clk rq s) = Inr ev"
      "events (snd (in_memory_append L clk rq s)) = events s @ [ev]"
      "le_sequence_number ev = length (events s) + 1"
      "le_correlation_id ev = rq_correlation_id rq"
      "DomainName L (rq_event_type rq) = Some (le_event_type ev)"
      "le_intent_id ev = rq_intent_id rq" "le_transaction_id ev = rq_transaction_id rq"
      "le_details ev = (case rq_details rq of None \<Rightarrow> [] | Some d \<Rightarrow> d)"
  | (rejected) e where
      "fst (in_memory_append L clk rq s) = Inl e"
      "events (snd (in_memory_append L clk rq s)) = events s"
proof -
  let ?raw = "\<lparr>le_event_id = uuid_source s (drawn s), le_correlation_id = rq_correlation_id rq,
    le_sequence_number = length (events s) + 1, le_event_type = rq_event_type rq,
    le_occurred_at = clk (tick s), le_transaction_id = rq_transaction_id rq,
    le_intent_id = rq_intent_id rq, le_actor_id = rq_actor_id rq,
    le_details = (case rq_details rq of None \<Rightarrow> [] | Some d \<Rightarrow> d)\<rparr>"
  show ?thesis
  proof (cases "LedgerEvent L ?raw")
    case (Inl e)
    then show ?thesis by (intro rejected[of e]) (simp_all add: in_memory_append_def)
  next
    case (Inr ev)
    then obtain t a where t: "DomainName L (rq_event_type rq) = Some t"
      and ev: "ev = ?raw\<lparr>le_event_type := t, le_actor_id := a\<rparr>"
      by (auto elim: LedgerEvent_elim)
    have run: "in_memory_append L clk rq s =
        (Inr ev, s\<lparr>drawn := Suc (drawn s), tick := Suc (tick s), events := events s @ [ev]\<rparr>)"
      using Inr by (simp add: in_memory_append_def)
    show ?thesis by (rule stored[of ev]) (simp_all add: run t, simp_all add: ev)
  qed
qed

definition event_of :: "clock \<Rightarrow> event_request \<Rightarrow> ('e, 'y) ledger_world_scheme \<Rightarrow> ledger_event" where
  "event_of clk rq s =
     \<lparr>le_event_id = uuid_source s (drawn s), le_correlation_id = rq_correlation_id rq,
      le_sequence_number = length (events s) + 1, le_event_type = rq_event_type rq,
      le_occurred_at = clk (tick s), le_transaction_id = rq_transaction_id rq,
      le_intent_id = rq_intent_id rq, le_actor_id = rq_actor_id rq,
      le_details = (case rq_details rq of None \<Rightarrow> [] | Some d \<Rightarrow> d)\<rparr>"

text \<open>A request whose fields are valid as they stand is recorded.\<close>

lemma in_memory_append_ok:
  assumes "DomainName L (rq_event_type rq) = Some (rq_event_type rq)"
    and "rq_actor_id rq = None"
    and "JsonObject L (case rq_details rq of None \<Rightarrow> [] | Some d \<Rightarrow> d)"
  shows "in_memory_append L clk rq s = (Inr (event_of clk rq s),
    s\<lparr>drawn := Suc (drawn s), tick := Suc (tick s), events := events s @ [event_of clk rq s]\<rparr>)"
  using assms
  by (simp add: in_memory_append_def LedgerEvent_def optional_text_def event_of_def)

lemma ledger_inv_snoc:
  "ledger_inv es \<Longrightarrow> le_sequence_number e = length es + 1 \<Longrightarrow> ledger_inv (es @ [e])"
  by (auto simp: ledger_inv_def nth_append less_Suc_eq)

lemma keeps_ledger_append [keeps_intros]: "keeps calls (ledger_append L ledger rq)"
  unfolding ledger_append_def in_memory_append_def
  by (cases ledger) (auto intro!: keeps_intros keeps_modifyM)

lemma later_ledger_append: "along later (ledger_append L ledger rq)"
  unfolding ledger_append_def in_memory_append_def
  by (cases ledger) (auto intro!: later_rules later_modifyM)

text \<open>The states of the services that extend the ledger's are left alone too.\<close>

definition outside :: "('e, 'y) ledger_world_scheme \<Rightarrow> 'y" where
  "outside s = ledger_world.more s"

lemma keeps_outside [keeps_intros]:
  "keeps outside uuid4" "keeps outside (read_clock c)" "keeps outside now_utc"
  "keeps outside (call_user f)" "keeps outside (note_call n)"
  by (auto simp: keeps_def world_defs outside_def split: prod.splits outcome.splits)

lemma keeps_outside_append [keeps_intros]: "keeps outside (ledger_append L ledger rq)"
  unfolding ledger_append_def in_memory_append_def
  by (cases ledger) (auto intro!: keeps_intros keeps_modifyM simp: outside_def)

lemma ledger_append_events:
  "\<exists>new. events (snd (ledger_append L ledger rq s)) = events s @ new \<and> length new \<le> 1 \<and>
     (ledger_inv (events s) \<longrightarrow> ledger_inv (events s @ new)) \<and>
     (\<forall>e \<in> set new. le_correlation_id e = rq_correlation_id rq)"
proof (cases ledger)
  case (InMemoryLedger clk)
  show ?thesis
    by (cases rule: in_memory_append_cases[of L clk rq s])
      (auto simp: ledger_append_def InMemoryLedger ledger_inv_snoc)
next
  case (CustomLedger f)
  then show ?thesis
    by (auto simp: ledger_append_def call_user_def split: prod.splits outcome.splits)
qed

lemma ledger_append_nth:
  assumes "k < length (events s)"
  shows "k < length (events (snd (ledger_append L ledger rq s)))"
    and "events (snd (ledger_append L ledger rq s)) ! k = events s ! k"
  using assms ledger_append_events[of L ledger rq s] by (auto simp: nth_append)

interpretation led: stable_store
  "\<lambda>s i. if i < length (events s) then Some (events s ! i) else None"
  "\<lambda>(ledger, rq) s. snd (ledger_append L ledger rq s)"
  by unfold_locales (clarsimp split: if_splits, metis ledger_append_nth)

definition run_appends ::
  "'z libs_scheme \<Rightarrow> ('e ledger \<times> event_request) list \<Rightarrow> ('e, 'y) ledger_world_scheme \<Rightarrow>
   ('e, 'y) ledger_world_scheme" where
  "run_appends L = fold (\<lambda>(ledger, rq) s. snd (ledger_append L ledger rq s))"

lemma run_appends_inv: "ledger_inv (events s) \<Longrightarrow> ledger_inv (events (run_appends L rqs s))"
proof (induction rqs arbitrary: s)
  case Nil
  then show ?case by (simp add: run_appends_def)
next
  case (Cons p rqs)
  obtain ledger rq where p: "p = (ledger, rq)" by (cases p)
  from Cons.prems ledger_append_events[of L ledger rq s]
  have "ledger_inv (events (snd (ledger_append L ledger rq s)))" by auto
  then show ?case using Cons.IH by (simp add: run_appends_def p)
qed

lemma ledger_inv_sequence: "ledger_inv es \<Longrightarrow> map le_sequence_number es = [1..<length es + 1]"
  by (rule nth_equalityI) (auto simp: ledger_inv_def simp del: upt_Suc)

end
