(* ===== verification/Idempotency.thy ===== *)
theory Idempotency
  imports Audit_Ledger
begin

text \<open>
  Idempotency records and claims (\<^verbatim>\<open>idempotency/models.py\<close>) and the in-memory backend
  (\<^verbatim>\<open>idempotency/backend.py\<close>). Each public operation of the backend runs under its lock
  from start to end, so an operation is one atomic step and every interleaving of threads is
  a sequence of operations. A backend object is the in-memory one with its clock, whose
  records are the field \<open>records\<close> of the state, or any other object with the protocol's
  operations, which acts on \<open>ext\<close> and may raise.
\<close>

datatype idempotency_record_status = IN_PROGRESS | COMPLETED

record idempotency_record =
  ir_key :: string
  ir_owner_token :: uuid
  ir_status :: idempotency_record_status
  ir_claimed_at :: time
  ir_completed_at :: "time option"
  ir_result_reference :: "string option"
  ir_result :: pyval

definition IdempotencyRecord :: "'z libs_scheme \<Rightarrow> idempotency_record \<Rightarrow> idempotency_record result" where
  "IdempotencyRecord L r =
     bindR (text_field (ShortText L) ''key'' (ir_key r)) (\<lambda>key.
     bindR (optional_text (LongText L) ''result_reference'' (ir_result_reference r)) (\<lambda>reference.
     bindR (require (json_value L (ir_result r)) (ValidationError ''result'')) (\<lambda>_.
     if ir_status r = IN_PROGRESS then
       (if ir_completed_at r \<noteq> None \<or> reference \<noteq> None \<or> ir_result r \<noteq> PyNone then
          Inl (ValidationError ''in-progress records cannot contain completion data'')
        else Inr (r\<lparr>ir_key := key, ir_result_reference := reference\<rparr>))
     else
       (case ir_completed_at r of
          None \<Rightarrow> Inl (ValidationError ''completed records require completed_at'')
        | Some t \<Rightarrow>
            if t < ir_claimed_at r then
              Inl (ValidationError ''completed_at must not precede claimed_at'')
            else Inr (r\<lparr>ir_key := key, ir_result_reference := reference\<rparr>)))))"

record idempotency_claim =
  ic_record :: idempotency_record
  ic_acquired :: bool

datatype 'e idempotency_backend =
  InMemoryIdempotencyBackend clock
| CustomIdempotency
    "string \<Rightarrow> ('e, idempotency_claim) callback"
    "string \<Rightarrow> uuid \<Rightarrow> string option \<Rightarrow> pyval \<Rightarrow> ('e, idempotency_record) callback"

record 'e idem_world = "'e ledger_world" +
  records :: "string \<Rightarrow> idempotency_record option"

section \<open>Operations\<close>

definition in_memory_claim ::
  "'z libs_scheme \<Rightarrow> clock \<Rightarrow> string \<Rightarrow> (('e, 'y) idem_world_scheme, idempotency_claim) action" where
  "in_memory_claim L clk key =
     bindM (getM (\<lambda>s. records s key)) (\<lambda>existing.
     case existing of
       Some r \<Rightarrow> retM \<lparr>ic_record = r, ic_acquired = False\<rparr>
     | None \<Rightarrow>
         bindM uuid4 (\<lambda>owner_token.
         bindM (read_clock clk) (\<lambda>claimed_at.
         bindM (liftM (IdempotencyRecord L
           \<lparr>ir_key = key, ir_owner_token = owner_token, ir_status = IN_PROGRESS,
            ir_claimed_at = claimed_at, ir_completed_at = None, ir_result_reference = None,
            ir_result = PyNone\<rparr>)) (\<lambda>r.
         bindM (modifyM (\<lambda>s. s\<lparr>records := (records s)(key \<mapsto> r)\<rparr>)) (\<lambda>_.
         retM \<lparr>ic_record = r, ic_acquired = True\<rparr>)))))"

definition get_record :: "('e, 'y) idem_world_scheme \<Rightarrow> string \<Rightarrow> idempotency_record option" where
  "get_record s key = records s key"

definition in_memory_mark_completed ::
  "'z libs_scheme \<Rightarrow> clock \<Rightarrow> string \<Rightarrow> uuid \<Rightarrow> string option \<Rightarrow> pyval \<Rightarrow>
   (('e, 'y) idem_world_scheme, idempotency_record) action" where
  "in_memory_mark_completed L clk key owner_token result_reference result =
     bindM (getM (\<lambda>s. records s key)) (\<lambda>found.
     case found of
       None \<Rightarrow> raiseM (KeyErr key)
     | Some r \<Rightarrow>
         if ir_owner_token r \<noteq> owner_token then raiseM (IdempotencyOwnershipError key)
         else if ir_status r = COMPLETED then retM r
         else
           bindM (read_clock clk) (\<lambda>completed_at.
           bindM (liftM (IdempotencyRecord L
             \<lparr>ir_key = ir_key r, ir_owner_token = ir_owner_token r, ir_status = COMPLETED,
              ir_claimed_at = ir_claimed_at r, ir_completed_at = Some completed_at,
              ir_result_reference = result_reference, ir_result = result\<rparr>)) (\<lambda>completed.
           bindM (modifyM (\<lambda>s. s\<lparr>records := (records s)(key \<mapsto> completed)\<rparr>)) (\<lambda>_.
           retM completed))))"

definition claim ::
  "'z libs_scheme \<Rightarrow> 'e idempotency_backend \<Rightarrow> string \<Rightarrow> (('e, 'y) idem_world_scheme, idempotency_claim) action" where
  "claim L backend key =
     (case backend of
        InMemoryIdempotencyBackend clk \<Rightarrow> in_memory_claim L clk key
      | CustomIdempotency f _ \<Rightarrow> call_user (f key))"

definition mark_completed ::
  "'z libs_scheme \<Rightarrow> 'e idempotency_backend \<Rightarrow> string \<Rightarrow> uuid \<Rightarrow> string option \<Rightarrow> pyval \<Rightarrow>
   (('e, 'y) idem_world_scheme, idempotency_record) action" where
  "mark_completed L backend key owner_token result_reference result =
     (case backend of
        InMemoryIdempotencyBackend clk \<Rightarrow>
          in_memory_mark_completed L clk key owner_token result_reference result
      | CustomIdempotency _ g \<Rightarrow> call_user (g key owner_token result_reference result))"

lemma keeps_idempotency [keeps_intros]:
  "keeps calls (claim L backend key)"
  "keeps calls (mark_completed L backend key tok ref res)"
  unfolding claim_def mark_completed_def in_memory_claim_def in_memory_mark_completed_def
  by (cases backend; auto intro!: keeps_intros keeps_modifyM)+

lemma idempotency_keeps_events [keeps_intros]:
  "keeps events (claim L backend key)"
  "keeps events (mark_completed L backend key tok ref res)"
  unfolding claim_def mark_completed_def in_memory_claim_def in_memory_mark_completed_def
  by (cases backend; auto intro!: keeps_intros keeps_modifyM)+

section \<open>The life of a record\<close>

definition valid_record :: "idempotency_record \<Rightarrow> bool" where
  "valid_record r \<longleftrightarrow>
     (case ir_status r of
        IN_PROGRESS \<Rightarrow> ir_completed_at r = None \<and> ir_result_reference r = None \<and> ir_result r = PyNone
      | COMPLETED \<Rightarrow> (\<exists>t. ir_completed_at r = Some t \<and> ir_claimed_at r \<le> t))"

definition idem_inv :: "(string \<Rightarrow> idempotency_record option) \<Rightarrow> bool" where
  "idem_inv m \<longleftrightarrow> (\<forall>k r. m k = Some r \<longrightarrow> valid_record r)"

lemma IdempotencyRecord_elim:
  assumes "IdempotencyRecord L r = Inr q"
  obtains k ref where "ShortText L (ir_key r) = Some k"
    and "optional_text (LongText L) ''result_reference'' (ir_result_reference r) = Inr ref"
    and "q = r\<lparr>ir_key := k, ir_result_reference := ref\<rparr>" and "json_value L (ir_result r)"
    and "valid_record q"
proof -
  from assms obtain k ref where k: "ShortText L (ir_key r) = Some k"
    and ref: "optional_text (LongText L) ''result_reference'' (ir_result_reference r) = Inr ref"
    and j: "json_value L (ir_result r)"
    and q: "q = r\<lparr>ir_key := k, ir_result_reference := ref\<rparr>"
    and st: "if ir_status r = IN_PROGRESS
       then ir_completed_at r = None \<and> ref = None \<and> ir_result r = PyNone
       else \<exists>t. ir_completed_at r = Some t \<and> ir_claimed_at r \<le> t"
    by (auto simp: IdempotencyRecord_def bindR_Inr_iff split: if_splits option.splits)
  from q st have "valid_record q"
    by (cases "ir_status r") (auto simp: valid_record_def)
  with k ref q j show ?thesis by (rule that)
qed

lemma IdempotencyRecord_IN_PROGRESS:
  "IdempotencyRecord L \<lparr>ir_key = key, ir_owner_token = tok, ir_status = IN_PROGRESS,
     ir_claimed_at = t, ir_completed_at = None, ir_result_reference = None, ir_result = PyNone\<rparr> =
   (if json_value L PyNone then
      (case ShortText L key of
         None \<Rightarrow> Inl (ValidationError ''key'')
       | Some k \<Rightarrow> Inr \<lparr>ir_key = k, ir_owner_token = tok, ir_status = IN_PROGRESS,
           ir_claimed_at = t, ir_completed_at = None, ir_result_reference = None,
           ir_result = PyNone\<rparr>)
    else Inl (ValidationError (if ShortText L key = None then ''key'' else ''result'')))"
  by (simp add: IdempotencyRecord_def text_field_def optional_text_def require_def
      split: option.splits)

lemma not_completed: "st \<noteq> COMPLETED \<longleftrightarrow> st = IN_PROGRESS"
  by (cases st) simp_all

text \<open>What one operation of the in-memory backend can do to the record of a key.\<close>

datatype idem_op =
  Claim string
| MarkCompleted string uuid "string option" pyval

fun idem_step ::
  "'z libs_scheme \<Rightarrow> clock \<Rightarrow> idem_op \<Rightarrow> ('e, 'y) idem_world_scheme \<Rightarrow> ('e, 'y) idem_world_scheme" where
  "idem_step L clk (Claim key) s = snd (in_memory_claim L clk key s)"
| "idem_step L clk (MarkCompleted key tok ref res) s =
     snd (in_memory_mark_completed L clk key tok ref res s)"

fun acquires :: "'z libs_scheme \<Rightarrow> clock \<Rightarrow> string \<Rightarrow> idem_op \<Rightarrow> ('e, 'y) idem_world_scheme \<Rightarrow> bool" where
  "acquires L clk k (Claim key) s \<longleftrightarrow> key = k \<and>
     (case fst (in_memory_claim L clk key s) of Inl _ \<Rightarrow> False | Inr c \<Rightarrow> ic_acquired c)"
| "acquires L clk k (MarkCompleted _ _ _ _) s \<longleftrightarrow> False"

text \<open>How often a sequence of operations hands the key to a caller.\<close>

fun acquisitions ::
  "'z libs_scheme \<Rightarrow> clock \<Rightarrow> string \<Rightarrow> idem_op list \<Rightarrow> ('e, 'y) idem_world_scheme \<Rightarrow> nat" where
  "acquisitions L clk k [] s = 0"
| "acquisitions L clk k (p # ps) s =
     (if acquires L clk k p s then 1 else 0) + acquisitions L clk k ps (idem_step L clk p s)"

lemma in_memory_claim_old:
  "records s key = Some r \<Longrightarrow>
   in_memory_claim L clk key s = (Inr \<lparr>ic_record = r, ic_acquired = False\<rparr>, s)"
  by (simp add: in_memory_claim_def)

lemma in_memory_claim_new:
  assumes "records s key = None"
  shows "in_memory_claim L clk key s =
    (let q = IdempotencyRecord L
       \<lparr>ir_key = key, ir_owner_token = uuid_source s (drawn s), ir_status = IN_PROGRESS,
        ir_claimed_at = clk (tick s), ir_completed_at = None, ir_result_reference = None,
        ir_result = PyNone\<rparr>;
       s' = s\<lparr>drawn := Suc (drawn s), tick := Suc (tick s)\<rparr>
     in case q of Inl e \<Rightarrow> (Inl e, s')
        | Inr r \<Rightarrow> (Inr \<lparr>ic_record = r, ic_acquired = True\<rparr>, s'\<lparr>records := (records s)(key \<mapsto> r)\<rparr>))"
  using assms by (simp add: in_memory_claim_def Let_def split: sum.splits)

lemma in_memory_mark_completed_cases:
  "in_memory_mark_completed L clk key tok ref res s =
    (case records s key of
       None \<Rightarrow> (Inl (KeyErr key), s)
     | Some r \<Rightarrow>
         if ir_owner_token r \<noteq> tok then (Inl (IdempotencyOwnershipError key), s)
         else if ir_status r = COMPLETED then (Inr r, s)
         else
           (case IdempotencyRecord L
              \<lparr>ir_key = ir_key r, ir_owner_token = ir_owner_token r, ir_status = COMPLETED,
               ir_claimed_at = ir_claimed_at r, ir_completed_at = Some (clk (tick s)),
               ir_result_reference = ref, ir_result = res\<rparr> of
              Inl e \<Rightarrow> (Inl e, s\<lparr>tick := Suc (tick s)\<rparr>)
            | Inr q \<Rightarrow> (Inr q, s\<lparr>tick := Suc (tick s), records := (records s)(key \<mapsto> q)\<rparr>)))"
  by (simp add: in_memory_mark_completed_def split: option.splits sum.splits)

text \<open>
  One step of the backend, seen from the record of one key: nothing, its creation by a
  claim that acquires it, or its completion by its owner.
\<close>

lemma idem_step_record:
  obtains (same) "records (idem_step L clk p s) k = records s k" "\<not> acquires L clk k p s"
  | (created) r where "records s k = None" "records (idem_step L clk p s) k = Some r"
      "acquires L clk k p s" "valid_record r" "ir_status r = IN_PROGRESS"
      "ir_owner_token r = uuid_source s (drawn s)"
  | (completed) r q where "records s k = Some r" "ir_status r = IN_PROGRESS"
      "records (idem_step L clk p s) k = Some q" "valid_record q" "ir_status q = COMPLETED"
      "ir_owner_token q = ir_owner_token r" "ir_claimed_at q = ir_claimed_at r"
      "\<not> acquires L clk k p s"
proof (cases p)
  case (Claim key)
  show ?thesis
  proof (cases "records s key")
    case (Some r)
    then show ?thesis using Claim by (intro same) (simp_all add: in_memory_claim_old)
  next
    case None
    let ?raw = "\<lparr>ir_key = key, ir_owner_token = uuid_source s (drawn s), ir_status = IN_PROGRESS,
        ir_claimed_at = clk (tick s), ir_completed_at = None, ir_result_reference = None,
        ir_result = PyNone\<rparr>"
    show ?thesis
    proof (cases "IdempotencyRecord L ?raw")
      case (Inl e)
      then show ?thesis using Claim None by (intro same) (simp_all add: in_memory_claim_new Let_def)
    next
      case (Inr q)
      show ?thesis
      proof (cases "key = k")
        case True
        from Inr obtain k' ref where "q = ?raw\<lparr>ir_key := k', ir_result_reference := ref\<rparr>"
          and "valid_record q" by (auto elim!: IdempotencyRecord_elim)
        then show ?thesis using Claim None Inr True
          by (intro created[of q]) (simp_all add: in_memory_claim_new Let_def)
      next
        case False
        then show ?thesis using Claim None Inr
          by (intro same) (simp_all add: in_memory_claim_new Let_def)
      qed
    qed
  qed
next
  case (MarkCompleted key tok ref res)
  show ?thesis
  proof (cases "\<exists>r. key = k \<and> records s k = Some r \<and> ir_owner_token r = tok \<and> ir_status r = IN_PROGRESS")
    case False
    then have "records (idem_step L clk p s) k = records s k"
      by (auto simp: MarkCompleted in_memory_mark_completed_cases not_completed
          split: option.split sum.split)
    then show ?thesis by (intro same) (simp_all add: MarkCompleted)
  next
    case True
    then obtain r where r: "key = k" "records s k = Some r" "ir_owner_token r = tok"
      "ir_status r = IN_PROGRESS" by blast
    let ?raw = "\<lparr>ir_key = ir_key r, ir_owner_token = ir_owner_token r, ir_status = COMPLETED,
      ir_claimed_at = ir_claimed_at r, ir_completed_at = Some (clk (tick s)),
      ir_result_reference = ref, ir_result = res\<rparr>"
    show ?thesis
    proof (cases "IdempotencyRecord L ?raw")
      case (Inl e)
      then have "records (idem_step L clk p s) k = records s k"
        using r by (simp add: MarkCompleted in_memory_mark_completed_cases)
      then show ?thesis by (intro same) (simp_all add: MarkCompleted)
    next
      case (Inr q)
      then have post: "records (idem_step L clk p s) k = Some q"
        using r by (simp add: MarkCompleted in_memory_mark_completed_cases)
      from IdempotencyRecord_elim[OF Inr] obtain k' ref'
        where q: "q = ?raw\<lparr>ir_key := k', ir_result_reference := ref'\<rparr>" and "valid_record q"
        by blast
      then show ?thesis using r post
        by (intro completed[of r q]) (simp_all add: MarkCompleted)
    qed
  qed
qed

lemma idem_step_inv: "idem_inv (records s) \<Longrightarrow> idem_inv (records (idem_step L clk p s))"
  unfolding idem_inv_def
proof (intro allI impI)
  fix k r
  assume inv: "\<forall>k r. records s k = Some r \<longrightarrow> valid_record r"
    and r: "records (idem_step L clk p s) k = Some r"
  show "valid_record r"
    by (cases rule: idem_step_record[of L clk p s k]) (use inv r in auto)
qed

lemma idem_run_inv: "idem_inv (records s) \<Longrightarrow> idem_inv (records (fold (idem_step L clk) ps s))"
  by (induction ps arbitrary: s) (simp_all add: idem_step_inv)

text \<open>The owner of a key and the outcome stored for it are stable.\<close>

interpretation owner: stable_store
  "\<lambda>s k. map_option ir_owner_token (records s k)" "idem_step L clk"
proof
  fix s :: "('a, 'b) idem_world_scheme" and k v p
  assume v: "map_option ir_owner_token (records s k) = Some v"
  show "map_option ir_owner_token (records (idem_step L clk p s) k) = Some v"
    by (cases rule: idem_step_record[of L clk p s k]) (use v in auto)
qed

interpretation settled: stable_store
  "\<lambda>s k. case records s k of Some r \<Rightarrow> if ir_status r = COMPLETED then Some r else None | None \<Rightarrow> None"
  "idem_step L clk"
proof
  fix s :: "('a, 'b) idem_world_scheme" and k v p
  assume v: "(case records s k of Some r \<Rightarrow> if ir_status r = COMPLETED then Some r else None
    | None \<Rightarrow> None) = Some v"
  show "(case records (idem_step L clk p s) k of
      Some r \<Rightarrow> if ir_status r = COMPLETED then Some r else None | None \<Rightarrow> None) = Some v"
    by (cases rule: idem_step_record[of L clk p s k]) (use v in \<open>auto split: option.splits if_splits\<close>)
qed

lemma acquisitions_bound:
  "acquisitions L clk k ps s \<le> (if records s k = None then 1 else 0)"
proof (induction ps arbitrary: s)
  case (Cons p ps)
  show ?case
    by (cases rule: idem_step_record[of L clk p s k])
      (use Cons.IH[of "idem_step L clk p s"] in \<open>auto split: if_splits\<close>)
qed simp

end
