(* ===== verification/Runtime.thy ===== *)
theory Runtime
  imports Schema_Validation Execution_Models Idempotency Policies
begin

text \<open>
  The single-action execution pipeline (\<^verbatim>\<open>execution/runtime.py\<close>). \<open>execute\<close> is the method of
  the same name, cut at its stages: each definition below is one stage with the early returns
  it contains, and hands over to the next. The state is the world, the events of an in-memory
  ledger and the records of an in-memory idempotency backend; exceptions that the method does
  not catch leave it as \<open>Inl\<close>.
\<close>

section \<open>The services\<close>

type_synonym 'e runtime_check =
  "action_intent \<Rightarrow> tool_contract \<Rightarrow> json_object \<Rightarrow> ('e, bool) callback"

datatype 'e approval_checker =
  NoApprovalChecker
| StaticApprovalChecker "uuid list"
| CustomApprovalChecker
    "action_intent \<Rightarrow> tool_contract \<Rightarrow> policy_decision \<Rightarrow> json_object \<Rightarrow> ('e, bool) callback"

definition is_approved ::
  "'e approval_checker \<Rightarrow> action_intent \<Rightarrow> tool_contract \<Rightarrow> policy_decision \<Rightarrow> json_object \<Rightarrow>
   (('e, 'y) world_scheme, bool) action" where
  "is_approved checker action contract verdict context =
     (case checker of
        NoApprovalChecker \<Rightarrow> retM False
      | StaticApprovalChecker approved_intent_ids \<Rightarrow>
          retM (ai_intent_id action \<in> set approved_intent_ids)
      | CustomApprovalChecker f \<Rightarrow> call_user (f action contract verdict context))"

record 'e runtime =
  rt_registry :: "'e tool_registry"
  rt_policy_engine :: "'e policy list"
  rt_idempotency :: "'e idempotency_backend"
  rt_ledger :: "'e ledger"
  rt_approval_checker :: "'e approval_checker"
  rt_preconditions :: "'e runtime_check list"
  rt_postconditions :: "'e runtime_check list"
  rt_clock :: clock

text \<open>
  The constructor, with the defaults of its optional arguments. The in-memory default
  services read the clock \<open>utc\<close> of their own module.
\<close>

definition SingleActionRuntime ::
  "clock \<Rightarrow> 'e tool_registry \<Rightarrow> 'e policy list \<Rightarrow> 'e idempotency_backend option \<Rightarrow> 'e ledger option \<Rightarrow>
   'e approval_checker option \<Rightarrow> 'e runtime_check list \<Rightarrow> 'e runtime_check list \<Rightarrow> clock option \<Rightarrow>
   'e runtime" where
  "SingleActionRuntime utc registry policy_engine idempotency_backend ledger approval_checker
     preconditions postconditions clk =
     \<lparr>rt_registry = registry, rt_policy_engine = policy_engine,
      rt_idempotency = (case idempotency_backend of
        None \<Rightarrow> InMemoryIdempotencyBackend utc | Some b \<Rightarrow> b),
      rt_ledger = (case ledger of None \<Rightarrow> InMemoryLedger utc | Some l \<Rightarrow> l),
      rt_approval_checker = (case approval_checker of None \<Rightarrow> NoApprovalChecker | Some c \<Rightarrow> c),
      rt_preconditions = preconditions, rt_postconditions = postconditions,
      rt_clock = (case clk of None \<Rightarrow> utc | Some c \<Rightarrow> c)\<rparr>"

text \<open>
  The serializer and parser that pydantic gives \<^verbatim>\<open>ExecutionResult\<close>:
  \<^verbatim>\<open>model_dump(mode="json")\<close>, and \<^verbatim>\<open>model_validate_json\<close> of the JSON text of a value.
\<close>

record rt_libs = libs +
  model_dump :: "execution_result \<Rightarrow> pyval"
  model_validate_json :: "pyval \<Rightarrow> execution_result option"

text \<open>What identifies one call of \<^verbatim>\<open>execute\<close>: its local variables.\<close>

record attempt =
  at_execution_id :: uuid
  at_transaction_id :: uuid
  at_started_at :: time

section \<open>Helpers\<close>

definition append_event ::
  "'z libs_scheme \<Rightarrow> 'e runtime \<Rightarrow> action_intent \<Rightarrow> string \<Rightarrow> uuid option \<Rightarrow> json_object option \<Rightarrow>
   (('e, 'y) idem_world_scheme, bool) action" where
  "append_event L rt action event_type transaction_id details =
     bindM (tryM (ledger_append L (rt_ledger rt)
       \<lparr>rq_correlation_id = ai_intent_id action, rq_event_type = event_type,
        rq_intent_id = Some (ai_intent_id action), rq_transaction_id = transaction_id,
        rq_actor_id = None, rq_details = details\<rparr>)) (\<lambda>event. retM (event \<noteq> None))"

definition failure ::
  "'z libs_scheme \<Rightarrow> 'e runtime \<Rightarrow> action_intent \<Rightarrow> attempt \<Rightarrow> string \<Rightarrow> string \<Rightarrow> pyval \<Rightarrow> bool option \<Rightarrow>
   (('e, 'y) idem_world_scheme, execution_result) action" where
  "failure L rt action att code message output postcondition_verified =
     bindM (read_clock (rt_clock rt)) (\<lambda>completed_at.
     bindM (liftM (FailureDetail L \<lparr>fd_code = code, fd_message = message\<rparr>)) (\<lambda>detail.
     liftM (ExecutionResult L
       \<lparr>er_execution_id = at_execution_id att, er_transaction_id = at_transaction_id att,
        er_intent_id = ai_intent_id action, er_succeeded = False,
        er_started_at = at_started_at att, er_completed_at = completed_at, er_output = output,
        er_error = Some detail, er_postcondition_verified = postcondition_verified\<rparr>)))"

definition complete_claim ::
  "'z rt_libs_scheme \<Rightarrow> 'e runtime \<Rightarrow> idempotency_claim option \<Rightarrow> execution_result \<Rightarrow>
   (('e, 'y) idem_world_scheme, unit) action" where
  "complete_claim L rt held result =
     (case held of
        None \<Rightarrow> retM ()
      | Some c \<Rightarrow>
          bindM (mark_completed L (rt_idempotency rt) (ir_key (ic_record c))
            (ir_owner_token (ic_record c)) (Some (uuid_str (er_execution_id result)))
            (model_dump L result)) (\<lambda>_. retM ()))"

definition decode_execution_result :: "'z rt_libs_scheme \<Rightarrow> pyval \<Rightarrow> execution_result result" where
  "decode_execution_result L v =
     (if \<not> json_dumps_ok v then Inl (ValueErr ''Out of range float values are not JSON compliant'')
      else from_option (ValidationError ''ExecutionResult'') (model_validate_json L v))"

text \<open>\<^verbatim>\<open>for check in checks\<close>, left at the first check that raises or returns false.\<close>

fun checks_pass ::
  "'e runtime_check list \<Rightarrow> action_intent \<Rightarrow> tool_contract \<Rightarrow> json_object \<Rightarrow>
   (('e, 'y) world_scheme, bool) action" where
  "checks_pass [] action contract context = retM True"
| "checks_pass (check # checks) action contract context =
     bindM (tryM (call_user (check action contract context))) (\<lambda>passed.
     if passed = Some True then checks_pass checks action contract context else retM False)"

definition call_handler ::
  "'e registered_tool \<Rightarrow> action_intent \<Rightarrow> (('e, 'y) world_scheme, pyval) action" where
  "call_handler tool action =
     bindM (note_call (HandlerCall (ai_tool_name action) (ai_arguments action))) (\<lambda>_.
     call_user (rg_handler tool (ai_arguments action)))"

section \<open>The stages, from the last to the first\<close>

definition succeed ::
  "'z rt_libs_scheme \<Rightarrow> 'e runtime \<Rightarrow> action_intent \<Rightarrow> attempt \<Rightarrow> idempotency_claim option \<Rightarrow> pyval \<Rightarrow>
   (('e, 'y) idem_world_scheme, execution_result) action" where
  "succeed L rt action att held raw_output =
     bindM (read_clock (rt_clock rt)) (\<lambda>completed_at.
     bindM (liftM (json_or_raise raw_output ''$'')) (\<lambda>output.
     bindM (liftM (ExecutionResult L
       \<lparr>er_execution_id = at_execution_id att, er_transaction_id = at_transaction_id att,
        er_intent_id = ai_intent_id action, er_succeeded = True,
        er_started_at = at_started_at att, er_completed_at = completed_at, er_output = output,
        er_error = None, er_postcondition_verified = Some True\<rparr>)) (\<lambda>result.
     bindM (append_event L rt action ''execution_succeeded'' (Some (at_transaction_id att)) None) (\<lambda>_.
     bindM (complete_claim L rt held result) (\<lambda>_. retM result)))))"

definition check_postconditions ::
  "'z rt_libs_scheme \<Rightarrow> 'e runtime \<Rightarrow> action_intent \<Rightarrow> json_object \<Rightarrow> tool_contract \<Rightarrow> attempt \<Rightarrow>
   idempotency_claim option \<Rightarrow> pyval \<Rightarrow> (('e, 'y) idem_world_scheme, execution_result) action" where
  "check_postconditions L rt action context contract att held raw_output =
     bindM (checks_pass (rt_postconditions rt) action contract context) (\<lambda>passed.
     if \<not> passed then
       bindM (failure L rt action att ''postcondition_failed''
         ''A postcondition failed after execution.'' (json_or_none raw_output) (Some False)) (\<lambda>result.
       bindM (append_event L rt action ''postcondition_failed'' (Some (at_transaction_id att)) None) (\<lambda>_.
       bindM (complete_claim L rt held result) (\<lambda>_. retM result)))
     else succeed L rt action att held raw_output)"

definition check_output ::
  "'z rt_libs_scheme \<Rightarrow> 'e runtime \<Rightarrow> action_intent \<Rightarrow> json_object \<Rightarrow> tool_contract \<Rightarrow> attempt \<Rightarrow>
   idempotency_claim option \<Rightarrow> pyval \<Rightarrow> (('e, 'y) idem_world_scheme, execution_result) action" where
  "check_output L rt action context contract att held raw_output =
     (case validate_against_schema L raw_output (ts_document (tc_output_schema contract)) of
        Some output_error \<Rightarrow>
          bindM (failure L rt action att ''output_validation_failed'' output_error
            (json_or_none raw_output) (Some False)) (\<lambda>result.
          bindM (append_event L rt action ''output_validation_failed'' (Some (at_transaction_id att))
            (Some [(PyStr ''message'', PyStr output_error)])) (\<lambda>_.
          bindM (complete_claim L rt held result) (\<lambda>_. retM result)))
      | None \<Rightarrow> check_postconditions L rt action context contract att held raw_output)"

definition run_handler ::
  "'z rt_libs_scheme \<Rightarrow> 'e runtime \<Rightarrow> action_intent \<Rightarrow> json_object \<Rightarrow> 'e registered_tool \<Rightarrow> attempt \<Rightarrow>
   idempotency_claim option \<Rightarrow> (('e, 'y) idem_world_scheme, execution_result) action" where
  "run_handler L rt action context tool att held =
     bindM (tryM (call_handler tool action)) (\<lambda>raw_output.
     case raw_output of
       None \<Rightarrow>
         bindM (failure L rt action att ''tool_execution_failed'' ''Tool handler raised an exception.''
           PyNone (Some False)) (\<lambda>result.
         bindM (append_event L rt action ''execution_failed'' (Some (at_transaction_id att))
           (Some [(PyStr ''code'', PyStr (case er_error result of
              Some detail \<Rightarrow> fd_code detail | None \<Rightarrow> ''unknown''))])) (\<lambda>_.
         bindM (complete_claim L rt held result) (\<lambda>_. retM result)))
     | Some output \<Rightarrow> check_output L rt action context (rg_contract tool) att held output)"

definition start_execution ::
  "'z rt_libs_scheme \<Rightarrow> 'e runtime \<Rightarrow> action_intent \<Rightarrow> json_object \<Rightarrow> 'e registered_tool \<Rightarrow> attempt \<Rightarrow>
   idempotency_claim option \<Rightarrow> (('e, 'y) idem_world_scheme, execution_result) action" where
  "start_execution L rt action context tool att held =
     bindM (append_event L rt action ''execution_started'' (Some (at_transaction_id att)) None) (\<lambda>recorded.
     if \<not> recorded then
       bindM (failure L rt action att ''ledger_error'' ''Audit ledger failed before execution.''
         PyNone None) (\<lambda>result.
       bindM (complete_claim L rt held result) (\<lambda>_. retM result))
     else run_handler L rt action context tool att held)"

definition check_preconditions ::
  "'z rt_libs_scheme \<Rightarrow> 'e runtime \<Rightarrow> action_intent \<Rightarrow> json_object \<Rightarrow> 'e registered_tool \<Rightarrow> attempt \<Rightarrow>
   idempotency_claim option \<Rightarrow> (('e, 'y) idem_world_scheme, execution_result) action" where
  "check_preconditions L rt action context tool att held =
     bindM (checks_pass (rt_preconditions rt) action (rg_contract tool) context) (\<lambda>passed.
     if \<not> passed then
       bindM (append_event L rt action ''precondition_failed'' None None) (\<lambda>_.
       bindM (failure L rt action att ''precondition_failed''
         ''A precondition failed before execution.'' PyNone None) (\<lambda>result.
       bindM (complete_claim L rt held result) (\<lambda>_. retM result)))
     else start_execution L rt action context tool att held)"

fun status_value :: "idempotency_record_status \<Rightarrow> string" where
  "status_value IN_PROGRESS = ''in_progress''"
| "status_value COMPLETED = ''completed''"

definition replay ::
  "'z rt_libs_scheme \<Rightarrow> 'e runtime \<Rightarrow> action_intent \<Rightarrow> attempt \<Rightarrow> idempotency_record \<Rightarrow>
   (('e, 'y) idem_world_scheme, execution_result) action" where
  "replay L rt action att existing =
     bindM (append_event L rt action ''idempotency_replayed'' None
       (Some [(PyStr ''status'', PyStr (status_value (ir_status existing)))])) (\<lambda>_.
     if ir_status existing = COMPLETED \<and> ir_result existing \<noteq> PyNone then
       liftM (decode_execution_result L (ir_result existing))
     else
       failure L rt action att ''idempotency_in_progress''
         ''An action with this idempotency key is already in progress.'' PyNone None)"

definition reserve_key ::
  "'z rt_libs_scheme \<Rightarrow> 'e runtime \<Rightarrow> action_intent \<Rightarrow> json_object \<Rightarrow> 'e registered_tool \<Rightarrow> attempt \<Rightarrow>
   (('e, 'y) idem_world_scheme, execution_result) action" where
  "reserve_key L rt action context tool att =
     (if tc_idempotency_key_required (rg_contract tool) \<and> ai_idempotency_key action = None then
        bindM (append_event L rt action ''idempotency_key_missing'' None None) (\<lambda>_.
        failure L rt action att ''idempotency_key_missing''
          ''The registered contract requires an idempotency key.'' PyNone None)
      else
        (case ai_idempotency_key action of
           None \<Rightarrow> check_preconditions L rt action context tool att None
         | Some key \<Rightarrow>
             bindM (claim L (rt_idempotency rt) key) (\<lambda>c.
             if \<not> ic_acquired c then replay L rt action att (ic_record c)
             else check_preconditions L rt action context tool att (Some c))))"

definition check_approval ::
  "'z rt_libs_scheme \<Rightarrow> 'e runtime \<Rightarrow> action_intent \<Rightarrow> json_object \<Rightarrow> 'e registered_tool \<Rightarrow> attempt \<Rightarrow>
   policy_decision \<Rightarrow> (('e, 'y) idem_world_scheme, execution_result) action" where
  "check_approval L rt action context tool att verdict =
     (if pd_decision_type verdict = DENY then
        failure L rt action att ''policy_denied'' (pd_reason verdict) PyNone None
      else if pd_decision_type verdict = REQUIRE_APPROVAL then
        bindM (tryM (is_approved (rt_approval_checker rt) action (rg_contract tool) verdict context)) (\<lambda>approved.
        if approved \<noteq> Some True then
          bindM (append_event L rt action ''approval_required'' None
            (Some [(PyStr ''decision_id'', PyStr (uuid_str (pd_decision_id verdict)))])) (\<lambda>_.
          failure L rt action att ''approval_required'' ''Approval is required before execution.''
            PyNone None)
        else reserve_key L rt action context tool att)
      else reserve_key L rt action context tool att)"

definition check_policy ::
  "'z rt_libs_scheme \<Rightarrow> 'e runtime \<Rightarrow> action_intent \<Rightarrow> json_object \<Rightarrow> 'e registered_tool \<Rightarrow> attempt \<Rightarrow>
   (('e, 'y) idem_world_scheme, execution_result) action" where
  "check_policy L rt action context tool att =
     bindM (append_event L rt action ''contract_validated'' None
       (Some [(PyStr ''contract_id'', PyStr (uuid_str (tc_contract_id (rg_contract tool))))])) (\<lambda>_.
     bindM (evaluate L (rt_policy_engine rt) action (Some (rg_contract tool)) context) (\<lambda>decision.
     bindM (append_event L rt action ''policy_evaluated'' None
       (Some [(PyStr ''decision_type'', PyStr (policy_decision_type_value (pd_decision_type decision))),
              (PyStr ''risk_level'', PyStr (risk_level_value (pd_risk_level decision)))])) (\<lambda>_.
     check_approval L rt action context tool att decision)))"

definition check_contract ::
  "'z rt_libs_scheme \<Rightarrow> 'e runtime \<Rightarrow> action_intent \<Rightarrow> json_object \<Rightarrow> 'e registered_tool \<Rightarrow> attempt \<Rightarrow>
   (('e, 'y) idem_world_scheme, execution_result) action" where
  "check_contract L rt action context tool att =
     (if \<not> action_matches_contract action (rg_contract tool) then
        bindM (append_event L rt action ''contract_mismatch'' None
          (Some [(PyStr ''tool_name'', PyStr (ai_tool_name action))])) (\<lambda>_.
        failure L rt action att ''contract_mismatch''
          ''Action intent does not match the registered contract.'' PyNone None)
      else
        (case validate_against_schema L (PyDict (ai_arguments action))
           (ts_document (tc_input_schema (rg_contract tool))) of
           Some input_error \<Rightarrow>
             bindM (append_event L rt action ''input_validation_failed'' None
               (Some [(PyStr ''message'', PyStr input_error)])) (\<lambda>_.
             failure L rt action att ''input_validation_failed'' input_error PyNone None)
         | None \<Rightarrow> check_policy L rt action context tool att))"

definition execute ::
  "'z rt_libs_scheme \<Rightarrow> 'e runtime \<Rightarrow> action_intent \<Rightarrow> json_object \<Rightarrow>
   (('e, 'y) idem_world_scheme, execution_result) action" where
  "execute L rt action context =
     bindM uuid4 (\<lambda>execution_id.
     bindM uuid4 (\<lambda>transaction_id.
     bindM (read_clock (rt_clock rt)) (\<lambda>started_at.
     let att = \<lparr>at_execution_id = execution_id, at_transaction_id = transaction_id,
               at_started_at = started_at\<rparr>
     in bindM (append_event L rt action ''action_received'' None
          (Some [(PyStr ''tool_name'', PyStr (ai_tool_name action))])) (\<lambda>recorded.
     if \<not> recorded then
       failure L rt action att ''ledger_error'' ''Audit ledger failed before tool resolution.'' PyNone None
     else
       (case get_tool (rt_registry rt) (ai_tool_name action) of
          Inl _ \<Rightarrow>
            bindM (evaluate L (rt_policy_engine rt) action None context) (\<lambda>decision.
            bindM (append_event L rt action ''tool_unknown'' None
              (Some [(PyStr ''decision_type'',
                PyStr (policy_decision_type_value (pd_decision_type decision)))])) (\<lambda>_.
            failure L rt action att ''unknown_tool''
              (''Tool is not registered: '' @ ai_tool_name action @ ''.'') PyNone None))
        | Inr tool \<Rightarrow> check_contract L rt action context tool att)))))"

end
