(* ===== verification/Runtime_Gates.thy ===== *)
theory Runtime_Gates
  imports Runtime Policy_Correctness
begin

text \<open>
  How a run of \<open>execute\<close> reaches the tool handler. Each stage of the pipeline has one lemma
  that says what must have happened for the handler to be called: which guard passed, in
  which state it was evaluated, and what the state is afterwards. \<open>handler_chain\<close> is their
  composition; the safety properties are read off it.
\<close>

section \<open>Everything but the handler leaves the calls alone\<close>

lemmas keeps_evaluate_calls [keeps_intros] = beyond_calls[OF keeps_evaluate]

lemma keeps_is_approved [keeps_intros]: "keeps calls (is_approved ch a c d x)"
  unfolding is_approved_def by (cases ch) (auto intro!: keeps_intros)

lemma keeps_runtime_calls [keeps_intros]:
  "keeps calls (append_event L rt a ty tid ds)"
  "keeps calls (failure L rt a att code msg out pv)"
  "keeps calls (complete_claim L rt held r)"
  unfolding append_event_def failure_def complete_claim_def by (intro keeps_intros)+

lemma keeps_checks [keeps_intros]: "keeps calls (checks_pass cs a c x)"
  by (induction cs) (auto intro!: keeps_intros)

lemma keeps_replay [keeps_intros]: "keeps calls (replay L rt a att r)"
  unfolding replay_def by (intro keeps_intros)

lemma keeps_after_handler [keeps_intros]:
  "keeps calls (succeed L rt a att held out)"
  "keeps calls (check_postconditions L rt a x c att held out)"
  "keeps calls (check_output L rt a x c att held out)"
proof -
  show s: "keeps calls (succeed L rt a att held out)" for out
    unfolding succeed_def by (intro keeps_intros)
  show p: "keeps calls (check_postconditions L rt a x c att held out)" for out
    unfolding check_postconditions_def by (intro keeps_intros s)
  show "keeps calls (check_output L rt a x c att held out)"
    unfolding check_output_def by (intro keeps_intros p)
qed

lemma call_handler_calls:
  "calls (snd (call_handler tool a s)) = calls s @ [HandlerCall (ai_tool_name a) (ai_arguments a)]"
  unfolding call_handler_def note_call_total
  by (simp add: keeps_snd keeps_calls)

lemma run_handler_calls:
  "calls (snd (run_handler L rt a x tool att held s)) =
     calls s @ [HandlerCall (ai_tool_name a) (ai_arguments a)]"
  unfolding run_handler_def
  by (subst keeps_then) (auto intro!: keeps_intros simp: call_handler_calls)

section \<open>The stages before the handler\<close>

lemma start_execution_reaches:
  assumes "calls (snd (start_execution L rt a x tool att held s)) \<noteq> calls s"
  obtains s' where
    "append_event L rt a ''execution_started'' (Some (at_transaction_id att)) None s = (Inr True, s')"
    "start_execution L rt a x tool att held s = run_handler L rt a x tool att held s'"
    "calls s' = calls s"
proof (rule keeps_gate[OF assms[unfolded start_execution_def], where ok = "\<lambda>b. b"])
  fix b s'
  assume "append_event L rt a ''execution_started'' (Some (at_transaction_id att)) None s = (Inr b, s')"
    and b and "calls s' = calls s"
  then show thesis by (intro that[of s']) (simp_all add: start_execution_def bindM_run)
qed (auto intro!: keeps_intros)

lemma check_preconditions_reaches:
  assumes "calls (snd (check_preconditions L rt a x tool att held s)) \<noteq> calls s"
  obtains s' where
    "checks_pass (rt_preconditions rt) a (rg_contract tool) x s = (Inr True, s')"
    "check_preconditions L rt a x tool att held s = start_execution L rt a x tool att held s'"
    "calls s' = calls s"
proof (rule keeps_gate[OF assms[unfolded check_preconditions_def], where ok = "\<lambda>b. b"])
  fix b s'
  assume "checks_pass (rt_preconditions rt) a (rg_contract tool) x s = (Inr b, s')"
    and b and "calls s' = calls s"
  then show thesis by (intro that[of s']) (simp_all add: check_preconditions_def bindM_run)
qed (auto intro!: keeps_intros)

definition holds_key ::
  "'z rt_libs_scheme \<Rightarrow> 'e runtime \<Rightarrow> action_intent \<Rightarrow> tool_contract \<Rightarrow> ('e, 'y) idem_world_scheme \<Rightarrow>
   idempotency_claim option \<Rightarrow> ('e, 'y) idem_world_scheme \<Rightarrow> bool" where
  "holds_key L rt a c s held s' \<longleftrightarrow>
     (case ai_idempotency_key a of
        None \<Rightarrow> \<not> tc_idempotency_key_required c \<and> held = None \<and> s' = s
      | Some k \<Rightarrow> \<exists>cl. claim L (rt_idempotency rt) k s = (Inr cl, s') \<and> ic_acquired cl \<and> held = Some cl)"

lemma reserve_key_reaches:
  assumes "calls (snd (reserve_key L rt a x tool att s)) \<noteq> calls s"
  obtains held s' where "holds_key L rt a (rg_contract tool) s held s'"
    "reserve_key L rt a x tool att s = check_preconditions L rt a x tool att held s'"
    "calls s' = calls s"
proof (cases "ai_idempotency_key a")
  case None
  have "keeps calls (bindM (append_event L rt a ''idempotency_key_missing'' None None) (\<lambda>_.
        failure L rt a att ''idempotency_key_missing''
          ''The registered contract requires an idempotency key.'' PyNone None))"
    by (intro keeps_intros)
  from keeps_snd[OF this, of s] None assms show ?thesis
    by (intro that[of None s]) (auto simp: reserve_key_def holds_key_def split: if_splits)
next
  case (Some k)
  let ?go = "\<lambda>c. if \<not> ic_acquired c then replay L rt a att (ic_record c)
    else check_preconditions L rt a x tool att (Some c)"
  have eq: "reserve_key L rt a x tool att s = bindM (claim L (rt_idempotency rt) k) ?go s"
    by (simp add: reserve_key_def Some)
  show ?thesis
  proof (rule keeps_gate[OF assms[unfolded eq], where ok = ic_acquired])
    fix c s'
    assume "claim L (rt_idempotency rt) k s = (Inr c, s')" "ic_acquired c" "calls s' = calls s"
    then show ?thesis
      by (intro that[of "Some c" s']) (simp_all add: eq Some holds_key_def bindM_run)
  qed (auto intro!: keeps_intros)
qed

definition permitted ::
  "'e runtime \<Rightarrow> action_intent \<Rightarrow> tool_contract \<Rightarrow> policy_decision \<Rightarrow> json_object \<Rightarrow>
   ('e, 'y) idem_world_scheme \<Rightarrow> ('e, 'y) idem_world_scheme \<Rightarrow> bool" where
  "permitted rt a c d x s s' \<longleftrightarrow> pd_decision_type d \<noteq> DENY \<and>
     (if pd_decision_type d = REQUIRE_APPROVAL
      then is_approved (rt_approval_checker rt) a c d x s = (Inr True, s') else s' = s)"

lemma tryM_Some_iff: "tryM m s = (Inr (Some y), s') \<longleftrightarrow> m s = (Inr y, s')"
  by (auto simp: tryM_def split: prod.split sum.split)

lemma check_approval_reaches:
  assumes "calls (snd (check_approval L rt a x tool att d s)) \<noteq> calls s"
  obtains s' where "permitted rt a (rg_contract tool) d x s s'"
    "check_approval L rt a x tool att d s = reserve_key L rt a x tool att s'"
    "calls s' = calls s"
proof (cases "pd_decision_type d = REQUIRE_APPROVAL")
  case False
  have "keeps calls (failure L rt a att ''policy_denied'' (pd_reason d) PyNone None)"
    by (intro keeps_intros)
  from keeps_snd[OF this, of s] False assms show ?thesis
    by (intro that[of s]) (auto simp: check_approval_def permitted_def split: if_splits)
next
  case True
  let ?go = "\<lambda>approved. if approved \<noteq> Some True then
      bindM (append_event L rt a ''approval_required'' None
        (Some [(PyStr ''decision_id'', PyStr (uuid_str (pd_decision_id d)))])) (\<lambda>_.
      failure L rt a att ''approval_required'' ''Approval is required before execution.'' PyNone None)
    else reserve_key L rt a x tool att"
  have eq: "check_approval L rt a x tool att d s =
      bindM (tryM (is_approved (rt_approval_checker rt) a (rg_contract tool) d x)) ?go s"
    by (simp add: check_approval_def True)
  show ?thesis
  proof (rule keeps_gate[OF assms[unfolded eq], where ok = "\<lambda>v. v = Some True"])
    fix v s'
    assume run: "tryM (is_approved (rt_approval_checker rt) a (rg_contract tool) d x) s = (Inr v, s')"
      and v: "v = Some True" and c: "calls s' = calls s"
    from run v have "permitted rt a (rg_contract tool) d x s s'"
      by (simp add: permitted_def True tryM_Some_iff)
    moreover from run v have "check_approval L rt a x tool att d s = reserve_key L rt a x tool att s'"
      by (simp add: eq bindM_run)
    ultimately show ?thesis using c by (rule that)
  qed (auto intro!: keeps_intros)
qed

text \<open>An event is recorded or it is not: appending it to the ledger never raises.\<close>

lemma append_event_returns: "\<exists>b. fst (append_event L rt a ty tid ds s) = Inr b"
  by (auto simp: append_event_def bindM_cases tryM_def split: prod.splits sum.splits)

lemma append_event_then [simp]:
  "bindM (append_event L rt a ty tid ds) (\<lambda>_. k) s = k (snd (append_event L rt a ty tid ds s))"
  using append_event_returns[of L rt a ty tid ds s] by (auto simp: bindM_cases split: prod.split)

abbreviation validated_event where
  "validated_event L rt a tool \<equiv> append_event L rt a ''contract_validated'' None
     (Some [(PyStr ''contract_id'', PyStr (uuid_str (tc_contract_id (rg_contract tool))))])"

abbreviation evaluated_event where
  "evaluated_event L rt a d \<equiv> append_event L rt a ''policy_evaluated'' None
     (Some [(PyStr ''decision_type'', PyStr (policy_decision_type_value (pd_decision_type d))),
            (PyStr ''risk_level'', PyStr (risk_level_value (pd_risk_level d)))])"

lemma check_policy_eq:
  assumes "evaluate L (rt_policy_engine rt) a (Some (rg_contract tool)) x
    (snd (validated_event L rt a tool s)) = (Inr d, s')"
  shows "check_policy L rt a x tool att s =
    check_approval L rt a x tool att d (snd (evaluated_event L rt a d s'))"
  using assms by (simp add: check_policy_def bindM_run)

lemma check_policy_reaches:
  assumes "calls (snd (check_policy L rt a x tool att s)) \<noteq> calls s"
  obtains d s1 where
    "evaluate L (rt_policy_engine rt) a (Some (rg_contract tool)) x
       (snd (validated_event L rt a tool s)) = (Inr d, s1)"
    "check_policy L rt a x tool att s =
       check_approval L rt a x tool att d (snd (evaluated_event L rt a d s1))"
    "calls (snd (evaluated_event L rt a d s1)) = calls s"
proof -
  let ?s0 = "snd (validated_event L rt a tool s)"
  have c0: "calls ?s0 = calls s" by (intro keeps_snd keeps_intros)
  obtain r s1 where ev: "evaluate L (rt_policy_engine rt) a (Some (rg_contract tool)) x ?s0 = (r, s1)"
    by fastforce
  then have c1: "calls s1 = calls s" using keepsD[OF keeps_evaluate_calls ev] c0 by simp
  show thesis
  proof (cases r)
    case (Inl e)
    with ev have "check_policy L rt a x tool att s = (Inl e, s1)"
      by (simp add: check_policy_def bindM_run)
    with assms c1 show ?thesis by simp
  next
    case (Inr d)
    have "calls (snd (evaluated_event L rt a d s1)) = calls s1" by (intro keeps_snd keeps_intros)
    with ev Inr c1 show ?thesis by (intro that[of d s1]) (simp_all add: check_policy_eq)
  qed
qed

lemma check_contract_reaches:
  assumes "calls (snd (check_contract L rt a x tool att s)) \<noteq> calls s"
  shows "action_matches_contract a (rg_contract tool)"
    and "validate_against_schema L (PyDict (ai_arguments a))
           (ts_document (tc_input_schema (rg_contract tool))) = None"
    and "check_contract L rt a x tool att s = check_policy L rt a x tool att s"
proof -
  have k: "calls (snd (failure L rt a att code msg out pv s)) = calls s" for code msg out pv and s :: "('a, 'b) idem_world_scheme"
    by (intro keeps_snd keeps_intros)
  have e: "calls (snd (append_event L rt a ty tid ds s)) = calls s" for ty tid ds and s :: "('a, 'b) idem_world_scheme"
    by (intro keeps_snd keeps_intros)
  show "action_matches_contract a (rg_contract tool)"
    "validate_against_schema L (PyDict (ai_arguments a))
           (ts_document (tc_input_schema (rg_contract tool))) = None"
    "check_contract L rt a x tool att s = check_policy L rt a x tool att s"
    using assms by (auto simp: check_contract_def k e split: if_splits option.splits)
qed

section \<open>The whole chain\<close>

definition attempt_of :: "'e runtime \<Rightarrow> ('e, 'y) idem_world_scheme \<Rightarrow> attempt" where
  "attempt_of rt s = \<lparr>at_execution_id = uuid_source s (drawn s),
     at_transaction_id = uuid_source s (Suc (drawn s)), at_started_at = rt_clock rt (tick s)\<rparr>"

abbreviation received_event where
  "received_event L rt a \<equiv> append_event L rt a ''action_received'' None
     (Some [(PyStr ''tool_name'', PyStr (ai_tool_name a))])"

abbreviation opened where
  "opened s \<equiv> s\<lparr>drawn := Suc (Suc (drawn s)), tick := Suc (tick s)\<rparr>"

text \<open>
  \<open>cleared L rt a x s tool held t\<close>: from the state \<open>s\<close>, the action passes every gate of the
  pipeline, in the order of the code and each in the state the previous one left, and arrives
  at the call of the handler of \<open>tool\<close> in the state \<open>t\<close>, holding the claim \<open>held\<close>.
\<close>

definition cleared ::
  "'z rt_libs_scheme \<Rightarrow> 'e runtime \<Rightarrow> action_intent \<Rightarrow> json_object \<Rightarrow> ('e, 'y) idem_world_scheme \<Rightarrow>
   'e registered_tool \<Rightarrow> idempotency_claim option \<Rightarrow> ('e, 'y) idem_world_scheme \<Rightarrow> bool" where
  "cleared L rt a x s tool held t \<longleftrightarrow>
     (\<exists>s1 d s3 s5 s6 s7.
        received_event L rt a (opened s) = (Inr True, s1) \<and>
        get_tool (rt_registry rt) (ai_tool_name a) = Inr tool \<and>
        action_matches_contract a (rg_contract tool) \<and>
        validate_against_schema L (PyDict (ai_arguments a))
          (ts_document (tc_input_schema (rg_contract tool))) = None \<and>
        evaluate L (rt_policy_engine rt) a (Some (rg_contract tool)) x
          (snd (validated_event L rt a tool s1)) = (Inr d, s3) \<and>
        permitted rt a (rg_contract tool) d x (snd (evaluated_event L rt a d s3)) s5 \<and>
        holds_key L rt a (rg_contract tool) s5 held s6 \<and>
        checks_pass (rt_preconditions rt) a (rg_contract tool) x s6 = (Inr True, s7) \<and>
        append_event L rt a ''execution_started''
          (Some (at_transaction_id (attempt_of rt s))) None s7 = (Inr True, t))"

lemma opened_run:
  "bindM uuid4 (\<lambda>i. bindM uuid4 (\<lambda>j. bindM (read_clock c) (\<lambda>n. k i j n))) s =
     k (uuid_source s (drawn s)) (uuid_source s (Suc (drawn s))) (c (tick s)) (opened s)"
  by simp

definition resolve ::
  "'z rt_libs_scheme \<Rightarrow> 'e runtime \<Rightarrow> action_intent \<Rightarrow> json_object \<Rightarrow> attempt \<Rightarrow> bool \<Rightarrow>
   (('e, 'y) idem_world_scheme, execution_result) action" where
  "resolve L rt a x att recorded =
     (if \<not> recorded then
        failure L rt a att ''ledger_error'' ''Audit ledger failed before tool resolution.'' PyNone None
      else
        (case get_tool (rt_registry rt) (ai_tool_name a) of
           Inl _ \<Rightarrow>
             bindM (evaluate L (rt_policy_engine rt) a None x) (\<lambda>decision.
             bindM (append_event L rt a ''tool_unknown'' None
               (Some [(PyStr ''decision_type'',
                 PyStr (policy_decision_type_value (pd_decision_type decision)))])) (\<lambda>_.
             failure L rt a att ''unknown_tool''
               (''Tool is not registered: '' @ ai_tool_name a @ ''.'') PyNone None))
         | Inr tool \<Rightarrow> check_contract L rt a x tool att))"

lemma execute_eq:
  "execute L rt a x s = bindM (received_event L rt a) (resolve L rt a x (attempt_of rt s)) (opened s)"
  unfolding execute_def opened_run resolve_def attempt_of_def Let_def ..

lemma cleared_reaches:
  assumes "calls (snd (execute L rt a x s)) \<noteq> calls s"
  obtains tool held t where "cleared L rt a x s tool held t" and "calls t = calls s"
    and "execute L rt a x s = run_handler L rt a x tool (attempt_of rt s) held t"
proof -
  let ?att = "attempt_of rt s"
  let ?ok = "\<lambda>b. b \<and> (\<exists>tool. get_tool (rt_registry rt) (ai_tool_name a) = Inr tool)"
  have "calls (snd (bindM (received_event L rt a) (resolve L rt a x ?att) (opened s))) \<noteq> calls (opened s)"
    using assms by (simp add: execute_eq)
  moreover have "keeps calls (received_event L rt a)"
    by (intro keeps_intros)
  moreover have "keeps calls (resolve L rt a x ?att b)" if "\<not> ?ok b" for b
    using that unfolding resolve_def by (auto intro!: keeps_intros)
  ultimately obtain b s1 where r: "received_event L rt a (opened s) = (Inr b, s1)"
    and ok: "?ok b"
    and "bindM (received_event L rt a) (resolve L rt a x ?att) (opened s) = resolve L rt a x ?att b s1"
    and "calls s1 = calls (opened s)"
    by (rule keeps_gate[where ok = ?ok])
  then have e1: "execute L rt a x s = resolve L rt a x ?att b s1" and c1: "calls s1 = calls s"
    by (simp_all add: execute_eq)
  from ok obtain tool where tool: "get_tool (rt_registry rt) (ai_tool_name a) = Inr tool" and b by blast
  with e1 have e1: "execute L rt a x s = check_contract L rt a x tool ?att s1"
    by (simp add: resolve_def)
  with assms c1 have cc: "calls (snd (check_contract L rt a x tool ?att s1)) \<noteq> calls s1" by simp
  note cc_facts = check_contract_reaches[OF cc]
  from cc cc_facts(3) have "calls (snd (check_policy L rt a x tool ?att s1)) \<noteq> calls s1" by simp
  then obtain d s3 where ev: "evaluate L (rt_policy_engine rt) a (Some (rg_contract tool)) x
        (snd (validated_event L rt a tool s1)) = (Inr d, s3)"
    and e4: "check_policy L rt a x tool ?att s1 =
        check_approval L rt a x tool ?att d (snd (evaluated_event L rt a d s3))"
    and c4: "calls (snd (evaluated_event L rt a d s3)) = calls s1"
    by (rule check_policy_reaches)
  let ?s4 = "snd (evaluated_event L rt a d s3)"
  have "calls (snd (check_approval L rt a x tool ?att d ?s4)) \<noteq> calls ?s4"
    using cc cc_facts(3) e4 c4 by simp
  then obtain s5 where p: "permitted rt a (rg_contract tool) d x ?s4 s5"
    and e5: "check_approval L rt a x tool ?att d ?s4 = reserve_key L rt a x tool ?att s5"
    and c5: "calls s5 = calls ?s4" by (rule check_approval_reaches)
  have "calls (snd (reserve_key L rt a x tool ?att s5)) \<noteq> calls s5"
    using cc cc_facts(3) e4 c4 e5 c5 by simp
  then obtain held s6 where h: "holds_key L rt a (rg_contract tool) s5 held s6"
    and e6: "reserve_key L rt a x tool ?att s5 = check_preconditions L rt a x tool ?att held s6"
    and c6: "calls s6 = calls s5" by (rule reserve_key_reaches)
  have "calls (snd (check_preconditions L rt a x tool ?att held s6)) \<noteq> calls s6"
    using cc cc_facts(3) e4 c4 e5 c5 e6 c6 by simp
  then obtain s7 where pre: "checks_pass (rt_preconditions rt) a (rg_contract tool) x s6 = (Inr True, s7)"
    and e7: "check_preconditions L rt a x tool ?att held s6 = start_execution L rt a x tool ?att held s7"
    and c7: "calls s7 = calls s6" by (rule check_preconditions_reaches)
  have "calls (snd (start_execution L rt a x tool ?att held s7)) \<noteq> calls s7"
    using cc cc_facts(3) e4 c4 e5 c5 e6 c6 e7 c7 by simp
  then obtain t where st: "append_event L rt a ''execution_started''
        (Some (at_transaction_id ?att)) None s7 = (Inr True, t)"
    and e8: "start_execution L rt a x tool ?att held s7 = run_handler L rt a x tool ?att held t"
    and c8: "calls t = calls s7" by (rule start_execution_reaches)
  show thesis
  proof (rule that)
    show "cleared L rt a x s tool held t"
      unfolding cleared_def using r \<open>b\<close> tool cc_facts(1,2) ev p h pre st by auto
    show "calls t = calls s" using c1 c4 c5 c6 c7 c8 by simp
    show "execute L rt a x s = run_handler L rt a x tool ?att held t"
      using e1 cc_facts(3) e4 e5 e6 e7 e8 by simp
  qed
qed

text \<open>Conversely, an action that is cleared arrives at its handler.\<close>

lemma cleared_runs:
  assumes "cleared L rt a x s tool held t"
  shows "execute L rt a x s = run_handler L rt a x tool (attempt_of rt s) held t"
proof -
  let ?att = "attempt_of rt s"
  from assms obtain s1 d s3 s5 s6 s7 where
    r: "received_event L rt a (opened s) = (Inr True, s1)"
    and tool: "get_tool (rt_registry rt) (ai_tool_name a) = Inr tool"
    and m: "action_matches_contract a (rg_contract tool)"
    and v: "validate_against_schema L (PyDict (ai_arguments a))
          (ts_document (tc_input_schema (rg_contract tool))) = None"
    and ev: "evaluate L (rt_policy_engine rt) a (Some (rg_contract tool)) x
          (snd (validated_event L rt a tool s1)) = (Inr d, s3)"
    and p: "permitted rt a (rg_contract tool) d x (snd (evaluated_event L rt a d s3)) s5"
    and h: "holds_key L rt a (rg_contract tool) s5 held s6"
    and pre: "checks_pass (rt_preconditions rt) a (rg_contract tool) x s6 = (Inr True, s7)"
    and st: "append_event L rt a ''execution_started'' (Some (at_transaction_id ?att)) None s7 =
          (Inr True, t)"
    unfolding cleared_def by auto
  have "execute L rt a x s = check_policy L rt a x tool ?att s1"
    using r tool m v by (simp add: execute_eq bindM_run resolve_def check_contract_def)
  also have "\<dots> = check_approval L rt a x tool ?att d (snd (evaluated_event L rt a d s3))"
    by (rule check_policy_eq[OF ev])
  also have "\<dots> = reserve_key L rt a x tool ?att s5"
    using p by (auto simp: permitted_def check_approval_def bindM_run tryM_run split: if_splits)
  also have "\<dots> = check_preconditions L rt a x tool ?att held s6"
    using h by (auto simp: holds_key_def reserve_key_def bindM_run split: option.splits)
  also have "\<dots> = start_execution L rt a x tool ?att held s7"
    using pre by (simp add: check_preconditions_def bindM_run)
  also have "\<dots> = run_handler L rt a x tool ?att held t"
    using st by (simp add: start_execution_def bindM_run)
  finally show ?thesis .
qed

end
