(* ===== verification/Runtime_State.thy ===== *)
theory Runtime_State
  imports Runtime_Gates
begin

text \<open>
  What a run of \<open>execute\<close> does to the shared services: the events of the in-memory ledger are
  only appended to, and the idempotency records of other keys are left alone. Both are
  evolutions in the sense of the prelude, one interpretation of the interface each.
\<close>

section \<open>The audit trail\<close>

definition audit_extends :: "uuid \<Rightarrow> ('e, 'y) ledger_world_scheme \<Rightarrow> ('e, 'y) ledger_world_scheme \<Rightarrow> bool" where
  "audit_extends i s t \<longleftrightarrow> (\<exists>new. events t = events s @ new \<and>
     (ledger_inv (events s) \<longrightarrow> ledger_inv (events t)) \<and>
     (\<forall>e \<in> set new. le_correlation_id e = i))"

interpretation audit: evolution "audit_extends i"
  by unfold_locales (auto simp: audit_extends_def)

lemma keeps_audit: "keeps events m \<Longrightarrow> along (audit_extends i) m"
  by (auto simp: along_def keeps_def audit_extends_def)

lemma beyond_events:
  fixes m :: "(('e, 'y) ledger_world_scheme, 'a) action"
  assumes "keeps beyond m"
  shows "keeps events m"
  unfolding keeps_def
proof
  fix s
  from assms have "world.more (snd (m s)) = world.more s"
    by (simp add: keeps_def beyond_def)
  then show "events (snd (m s)) = events s"
    by (cases s, cases "snd (m s)") simp
qed

lemma beyond_eq: "beyond s = beyond t \<longleftrightarrow> calls s = calls t \<and> world.more s = world.more t"
  by (simp add: beyond_def)

lemma beyond_same:
  fixes s t :: "('e, 'y) idem_world_scheme"
  shows "beyond s = beyond t \<Longrightarrow> records s = records t \<and> events s = events t"
  by (cases s; cases t) (simp add: beyond_def)

lemma ledger_append_audit: "along (audit_extends (rq_correlation_id rq)) (ledger_append L ledger rq)"
  unfolding along_def audit_extends_def
proof
  fix s
  show "\<exists>new. events (snd (ledger_append L ledger rq s)) = events s @ new \<and>
      (ledger_inv (events s) \<longrightarrow> ledger_inv (events (snd (ledger_append L ledger rq s)))) \<and>
      (\<forall>e\<in>set new. le_correlation_id e = rq_correlation_id rq)"
    using ledger_append_events[of L ledger rq s] by auto
qed

lemma append_event_audit: "along (audit_extends (ai_intent_id a)) (append_event L rt a ty tid ds)"
  unfolding append_event_def
  by (intro audit.intros)
    (rule ledger_append_audit[of "\<lparr>rq_correlation_id = ai_intent_id a, rq_event_type = ty,
        rq_intent_id = Some (ai_intent_id a), rq_transaction_id = tid, rq_actor_id = None,
        rq_details = ds\<rparr>", simplified])

lemma failure_events: "keeps events (failure L rt a att code msg out pv)"
  unfolding failure_def by (intro keeps_intros)

lemma complete_claim_events: "keeps events (complete_claim L rt held r)"
  unfolding complete_claim_def by (intro keeps_intros)

lemma checks_events: "keeps events (checks_pass cs a c x)"
  by (induction cs) (auto intro!: keeps_intros)

lemma call_handler_events: "keeps events (call_handler tool a)"
  unfolding call_handler_def by (intro keeps_intros)

lemmas audit_pieces = append_event_audit keeps_audit[OF failure_events]
  keeps_audit[OF complete_claim_events] keeps_audit[OF checks_events]
  keeps_audit[OF call_handler_events] keeps_audit[OF beyond_events[OF keeps_evaluate]]

lemma keeps_audit_world:
  "along (audit_extends i) uuid4" "along (audit_extends i) (read_clock c)"
  "along (audit_extends i) (claim L b key)"
  by (intro keeps_audit keeps_intros)+

lemma is_approved_audit: "along (audit_extends i) (is_approved ch a c d x)"
  by (rule keeps_audit) (auto simp: is_approved_def intro!: keeps_intros split: approval_checker.split)

lemmas audit_rules = audit.intros audit_pieces keeps_audit_world is_approved_audit

lemma run_handler_audit: "along (audit_extends (ai_intent_id a)) (run_handler L rt a x tool att held)"
  unfolding run_handler_def check_output_def check_postconditions_def succeed_def
  by (intro audit_rules)

lemma reserve_key_audit: "along (audit_extends (ai_intent_id a)) (reserve_key L rt a x tool att)"
  unfolding reserve_key_def replay_def check_preconditions_def start_execution_def
  by (intro audit_rules run_handler_audit)

lemma execute_audit: "along (audit_extends (ai_intent_id a)) (execute L rt a x)"
  unfolding execute_def check_contract_def check_policy_def check_approval_def
  by (intro audit_rules reserve_key_audit)

section \<open>The idempotency records\<close>

definition records_evolve :: "('e, 'y) idem_world_scheme \<Rightarrow> ('e, 'y) idem_world_scheme \<Rightarrow> bool" where
  "records_evolve s t \<longleftrightarrow> (idem_inv (records s) \<longrightarrow> idem_inv (records t)) \<and>
     (\<forall>k r. records s k = Some r \<longrightarrow> (\<exists>r'. records t k = Some r' \<and>
        ir_owner_token r' = ir_owner_token r \<and> (ir_status r = COMPLETED \<longrightarrow> r' = r)))"

interpretation recs: evolution records_evolve
proof
  fix s t u :: "('a, 'b) idem_world_scheme"
  show "records_evolve s s" by (simp add: records_evolve_def)
  assume st: "records_evolve s t" and tu: "records_evolve t u"
  show "records_evolve s u"
    unfolding records_evolve_def
  proof (intro conjI allI impI)
    show "idem_inv (records u)" if "idem_inv (records s)"
      using that st tu by (simp add: records_evolve_def)
    fix k r
    assume "records s k = Some r"
    with st obtain r1 where 1: "records t k = Some r1" "ir_owner_token r1 = ir_owner_token r"
      "ir_status r = COMPLETED \<longrightarrow> r1 = r" unfolding records_evolve_def by blast
    with tu obtain r2 where "records u k = Some r2" "ir_owner_token r2 = ir_owner_token r1"
      "ir_status r1 = COMPLETED \<longrightarrow> r2 = r1" unfolding records_evolve_def by blast
    with 1 show "\<exists>r'. records u k = Some r' \<and> ir_owner_token r' = ir_owner_token r \<and>
        (ir_status r = COMPLETED \<longrightarrow> r' = r)" by auto
  qed
qed

lemma idem_step_evolves: "records_evolve s (idem_step L clk p s)"
  unfolding records_evolve_def
proof (intro conjI impI allI)
  show "idem_inv (records (idem_step L clk p s))" if "idem_inv (records s)"
    using that by (rule idem_step_inv)
  fix k r
  assume r: "records s k = Some r"
  show "\<exists>r'. records (idem_step L clk p s) k = Some r' \<and> ir_owner_token r' = ir_owner_token r \<and>
      (ir_status r = COMPLETED \<longrightarrow> r' = r)"
    by (cases rule: idem_step_record[of L clk p s k]) (use r in auto)
qed

lemma keeps_records_evolve: "keeps records m \<Longrightarrow> along records_evolve m"
  by (simp add: along_def keeps_def records_evolve_def)

lemma beyond_records:
  fixes m :: "(('e, 'y) idem_world_scheme, 'a) action"
  assumes "keeps beyond m"
  shows "keeps records m"
  unfolding keeps_def
proof
  fix s
  from assms have "world.more (snd (m s)) = world.more s"
    by (simp add: keeps_def beyond_def)
  then show "records (snd (m s)) = records s"
    by (cases s, cases "snd (m s)") simp
qed

lemma keeps_records_world [keeps_intros]:
  "keeps records (uuid4 :: (('e, 'y) idem_world_scheme, uuid) action)"
  "keeps records (read_clock c :: (('e, 'y) idem_world_scheme, time) action)"
  "keeps records (call_user f :: (('e, 'y) idem_world_scheme, 'a) action)"
  by (intro beyond_records keeps_intros)+

lemma keeps_records_note [keeps_intros]:
  "keeps records (note_call n :: (('e, 'y) idem_world_scheme, unit) action)"
  by (simp add: keeps_def note_call_def)

lemma keeps_records_ledger [keeps_intros]:
  "keeps records (ledger_append L ledger rq :: (('e, 'y) idem_world_scheme, ledger_event) action)"
  unfolding ledger_append_def in_memory_append_def
  by (cases ledger) (auto intro!: keeps_bindM keeps_basic keeps_modifyM keeps_records_world)

lemma claim_evolves: "along records_evolve (claim L b key)"
proof (cases b)
  case (InMemoryIdempotencyBackend clk)
  show ?thesis unfolding along_def
  proof
    fix s :: "('a, 'b) idem_world_scheme"
    show "records_evolve s (snd (claim L b key s))"
      using idem_step_evolves[of s L clk "Claim key"]
      by (simp add: claim_def InMemoryIdempotencyBackend)
  qed
next
  case (CustomIdempotency f g)
  then show ?thesis by (simp add: claim_def keeps_records_evolve keeps_records_world)
qed

lemma mark_completed_evolves: "along records_evolve (mark_completed L b key tok ref res)"
proof (cases b)
  case (InMemoryIdempotencyBackend clk)
  show ?thesis unfolding along_def
  proof
    fix s :: "('a, 'b) idem_world_scheme"
    show "records_evolve s (snd (mark_completed L b key tok ref res s))"
      using idem_step_evolves[of s L clk "MarkCompleted key tok ref res"]
      by (simp add: mark_completed_def InMemoryIdempotencyBackend)
  qed
next
  case (CustomIdempotency f g)
  then show ?thesis by (simp add: mark_completed_def keeps_records_evolve keeps_records_world)
qed

lemma append_event_records [keeps_intros]: "keeps records (append_event L rt a ty tid ds)"
  unfolding append_event_def by (intro keeps_intros)

lemma failure_records [keeps_intros]: "keeps records (failure L rt a att code msg out pv)"
  unfolding failure_def by (intro keeps_intros)

lemma checks_records [keeps_intros]: "keeps records (checks_pass cs a c x)"
  by (induction cs) (auto intro!: keeps_intros)

lemma call_handler_records [keeps_intros]: "keeps records (call_handler tool a)"
  unfolding call_handler_def by (intro keeps_intros)

lemmas evaluate_records [keeps_intros] = beyond_records[OF keeps_evaluate]

lemma is_approved_records [keeps_intros]: "keeps records (is_approved ch a c d x)"
  unfolding is_approved_def by (cases ch) (auto intro!: keeps_intros)

lemma complete_claim_evolves: "along records_evolve (complete_claim L rt held r)"
  unfolding complete_claim_def by (intro recs.intros mark_completed_evolves)

lemmas record_rules = recs.intros claim_evolves complete_claim_evolves
  keeps_records_evolve[OF append_event_records] keeps_records_evolve[OF failure_records]
  keeps_records_evolve[OF checks_records] keeps_records_evolve[OF call_handler_records]
  keeps_records_evolve[OF evaluate_records] keeps_records_evolve[OF is_approved_records]
  keeps_records_evolve[OF keeps_records_world(1)] keeps_records_evolve[OF keeps_records_world(2)]

lemma run_handler_evolves: "along records_evolve (run_handler L rt a x tool att held)"
  unfolding run_handler_def check_output_def check_postconditions_def succeed_def
  by (intro record_rules)

lemma check_preconditions_evolves: "along records_evolve (check_preconditions L rt a x tool att held)"
  unfolding check_preconditions_def start_execution_def
  by (intro record_rules run_handler_evolves)

lemma reserve_key_evolves: "along records_evolve (reserve_key L rt a x tool att)"
  unfolding reserve_key_def replay_def
  by (intro record_rules check_preconditions_evolves)

lemma execute_evolves: "along records_evolve (execute L rt a x)"
  unfolding execute_def check_contract_def check_policy_def check_approval_def
  by (intro record_rules reserve_key_evolves)

end
