(* ===== verification/Runtime_Outcomes.thy ===== *)
theory Runtime_Outcomes
  imports Runtime_State
begin

text \<open>
  What the results of \<open>execute\<close> say of the handler. The result of a run that called it is
  determined by what the handler did and by the verdict of the postconditions in the world it
  left; a success without a call is decoded from the completed record of the action's
  idempotency key. And what the record of the key is once the handler has run.
\<close>

section \<open>Partial correctness of an action from a kept view of the state\<close>

definition yields ::
  "('s \<Rightarrow> 'v) \<Rightarrow> 'v \<Rightarrow> ('s, 'a) action \<Rightarrow> ('a \<Rightarrow> 's \<Rightarrow> bool) \<Rightarrow> bool" where
  "yields f v m Q \<longleftrightarrow> (\<forall>s r t. f s = v \<longrightarrow> m s = (Inr r, t) \<longrightarrow> Q r t)"

lemma yieldsI: "(\<And>s r t. f s = v \<Longrightarrow> m s = (Inr r, t) \<Longrightarrow> Q r t) \<Longrightarrow> yields f v m Q"
  by (simp add: yields_def)

lemma yieldsD: "yields f v m Q \<Longrightarrow> f s = v \<Longrightarrow> m s = (Inr r, t) \<Longrightarrow> Q r t"
  by (simp add: yields_def)

lemma yields_bind:
  assumes "keeps f m" and "\<And>x. yields f v (k x) Q"
  shows "yields f v (bindM m k) Q"
proof (rule yieldsI)
  fix s r t
  assume f: "f s = v" and "bindM m k s = (Inr r, t)"
  from this(2) obtain x s' where x: "m s = (Inr x, s')" "k x s' = (Inr r, t)" by (rule bindM_Inr_elim)
  from keepsD[OF assms(1) x(1)] f have "f s' = v" by simp
  with x(2) show "Q r t" by (intro yieldsD[OF assms(2)])
qed

lemma yields_if:
  "(c \<Longrightarrow> yields f v m Q) \<Longrightarrow> (\<not> c \<Longrightarrow> yields f v n Q) \<Longrightarrow> yields f v (if c then m else n) Q"
  by simp

lemma yields_case_option:
  "(x = None \<Longrightarrow> yields f v m Q) \<Longrightarrow> (\<And>y. x = Some y \<Longrightarrow> yields f v (n y) Q) \<Longrightarrow>
   yields f v (case x of None \<Rightarrow> m | Some y \<Rightarrow> n y) Q"
  by (cases x) simp_all

lemma yields_case_sum:
  "(\<And>a. x = Inl a \<Longrightarrow> yields f v (m a) Q) \<Longrightarrow> (\<And>b. x = Inr b \<Longrightarrow> yields f v (n b) Q) \<Longrightarrow>
   yields f v (case x of Inl a \<Rightarrow> m a | Inr b \<Rightarrow> n b) Q"
  by (cases x) simp_all

lemma keeps_both: "keeps f m \<Longrightarrow> keeps g m \<Longrightarrow> keeps (\<lambda>s. (f s, g s)) m"
  by (simp add: keeps_def)

lemmas yields_rules = yields_bind yields_if yields_case_option yields_case_sum

section \<open>Failures\<close>

definition results :: "('a \<Rightarrow> bool) \<Rightarrow> ('s, 'a) action \<Rightarrow> bool" where
  "results P m \<longleftrightarrow> (\<forall>s r t. m s = (Inr r, t) \<longrightarrow> P r)"

abbreviation unsuccessful :: "('s, execution_result) action \<Rightarrow> bool" where
  "unsuccessful \<equiv> results (\<lambda>r. \<not> er_succeeded r)"

lemma resultsD: "results P m \<Longrightarrow> m s = (Inr r, t) \<Longrightarrow> P r"
  unfolding results_def by blast

lemma resultsI: "(\<And>s r t. m s = (Inr r, t) \<Longrightarrow> P r) \<Longrightarrow> results P m"
  by (simp add: results_def)

lemma failure_Inr:
  assumes "failure L rt a att code msg out pv s = (Inr r, t)"
  shows "\<not> er_succeeded r" and "er_intent_id r = ai_intent_id a" and "er_output r = out"
    and "er_postcondition_verified r = pv" and "er_execution_id r = at_execution_id att"
    and "\<exists>d. er_error r = Some d \<and> ShortText L code = Some (fd_code d)"
    and "ExecutionResult L r = Inr r"
  using assms
  by (auto simp: failure_def FailureDetail_iff ExecutionResult_iff elim!: bindM_Inr_elim)

lemma unsuccessful_failure: "unsuccessful (failure L rt a att code msg out pv)"
  by (auto simp: results_def dest: failure_Inr)

lemma results_bind: "(\<And>x. results P (k x)) \<Longrightarrow> results P (bindM m k)"
  by (rule resultsI) (auto elim!: bindM_Inr_elim dest: resultsD)

lemma results_finish:
  "results P m \<Longrightarrow> results P (bindM m (\<lambda>r. bindM (n r) (\<lambda>_. retM r)))"
  "results P m \<Longrightarrow> results P (bindM m (\<lambda>r. bindM (n' r) (\<lambda>_. bindM (n r) (\<lambda>_. retM r))))"
  by (rule resultsI, auto elim!: bindM_Inr_elim dest: resultsD)+

lemma results_if:
  "(c \<Longrightarrow> results P m) \<Longrightarrow> (\<not> c \<Longrightarrow> results P n) \<Longrightarrow> results P (if c then m else n)"
  by simp

lemma results_case_option:
  "(y = None \<Longrightarrow> results P m) \<Longrightarrow> (\<And>z. y = Some z \<Longrightarrow> results P (n z)) \<Longrightarrow>
   results P (case y of None \<Rightarrow> m | Some z \<Rightarrow> n z)"
  by (cases y) simp_all

lemmas unsuccessful_rules = results_finish unsuccessful_failure results_bind

lemma unsuccessful_yields:
  "unsuccessful m \<Longrightarrow> (\<And>r t. \<not> er_succeeded r \<Longrightarrow> Q r t) \<Longrightarrow> yields f v m Q"
  by (rule yieldsI) (auto dest: resultsD)

section \<open>What a call of the handler deserves\<close>

text \<open>
  The specification that the stages after the call are held against. The checks hold in a
  world if each of them returns true, in their order, each in the world the previous one left.
\<close>

fun checks_hold ::
  "'e runtime_check list \<Rightarrow> action_intent \<Rightarrow> tool_contract \<Rightarrow> json_object \<Rightarrow> 'e \<Rightarrow> bool" where
  "checks_hold [] a c x e \<longleftrightarrow> True"
| "checks_hold (f # fs) a c x e \<longleftrightarrow> fst (f a c x e) = Returned True \<and> checks_hold fs a c x (snd (f a c x e))"

definition delivered ::
  "'z rt_libs_scheme \<Rightarrow> 'e runtime \<Rightarrow> action_intent \<Rightarrow> json_object \<Rightarrow> tool_contract \<Rightarrow>
   pyval outcome \<times> 'e \<Rightarrow> execution_result \<Rightarrow> bool" where
  "delivered L rt a x c called r \<longleftrightarrow>
     er_succeeded r \<and> er_intent_id r = ai_intent_id a \<and> er_error r = None \<and>
     er_postcondition_verified r = Some True \<and> fst called = Returned (er_output r) \<and>
     json_value L (er_output r) \<and>
     validate_against_schema L (er_output r) (ts_document (tc_output_schema c)) = None \<and>
     checks_hold (rt_postconditions rt) a c x (snd called)"

definition failed_with :: "action_intent \<Rightarrow> execution_result \<Rightarrow> string \<Rightarrow> pyval \<Rightarrow> bool" where
  "failed_with a r code out \<longleftrightarrow> \<not> er_succeeded r \<and> er_intent_id r = ai_intent_id a \<and>
     er_postcondition_verified r = Some False \<and> er_output r = out \<and>
     (\<exists>m. er_error r = Some \<lparr>fd_code = code, fd_message = m\<rparr>)"

text \<open>
  The result that corresponds to what the handler did: \<open>called\<close> is the outcome of its call
  and the world the call left, in which the postconditions are asked.
\<close>

definition handler_outcome ::
  "'z rt_libs_scheme \<Rightarrow> 'e runtime \<Rightarrow> action_intent \<Rightarrow> json_object \<Rightarrow> tool_contract \<Rightarrow>
   pyval outcome \<times> 'e \<Rightarrow> execution_result \<Rightarrow> bool" where
  "handler_outcome L rt a x c called r \<longleftrightarrow> (case fst called of
     Raised \<Rightarrow> failed_with a r ''tool_execution_failed'' PyNone
   | Returned v \<Rightarrow>
       if validate_against_schema L v (ts_document (tc_output_schema c)) \<noteq> None
       then failed_with a r ''output_validation_failed'' (json_or_none v)
       else if \<not> checks_hold (rt_postconditions rt) a c x (snd called)
       then failed_with a r ''postcondition_failed'' (json_or_none v)
       else delivered L rt a x c called r)"

abbreviation handler_call :: "'e registered_tool \<Rightarrow> action_intent \<Rightarrow> ('e, 'y) idem_world_scheme \<Rightarrow> pyval outcome \<times> 'e" where
  "handler_call tool a u \<equiv> rg_handler tool (ai_arguments a) (ext u)"

lemma checks_pass_returns: "\<exists>t. checks_pass cs a c x s = (Inr (checks_hold cs a c x (ext s)), t)"
proof (induction cs arbitrary: s)
  case (Cons f fs)
  obtain o1 e where f: "f a c x (ext s) = (o1, e)" by (cases "f a c x (ext s)")
  have run: "tryM (call_user (f a c x)) s =
      (Inr (case o1 of Returned b \<Rightarrow> Some b | Raised \<Rightarrow> None), s\<lparr>ext := e\<rparr>)"
    by (cases o1) (simp_all add: tryM_def call_user_def f)
  show ?case
  proof (cases "o1 = Returned True")
    case True
    with run Cons.IH[of "s\<lparr>ext := e\<rparr>"] show ?thesis by (simp add: bindM_run f)
  next
    case False
    then have "(case o1 of Returned b \<Rightarrow> Some b | Raised \<Rightarrow> None) \<noteq> Some True" by (cases o1) auto
    with run False show ?thesis by (auto simp: bindM_run f)
  qed
qed simp

lemma checks_pass_verdict:
  "checks_pass cs a c x s = (Inr b, t) \<Longrightarrow> b \<longleftrightarrow> checks_hold cs a c x (ext s)"
  using checks_pass_returns[of cs a c x s] by auto

lemma call_handler_run:
  "call_handler tool a s =
     (let s' = s\<lparr>calls := calls s @ [HandlerCall (ai_tool_name a) (ai_arguments a)],
                 ext := snd (rg_handler tool (ai_arguments a) (ext s))\<rparr>
      in case fst (rg_handler tool (ai_arguments a) (ext s)) of
           Raised \<Rightarrow> (Inl CallbackError, s') | Returned v \<Rightarrow> (Inr v, s'))"
  by (simp add: call_handler_def call_user_def Let_def split: prod.split outcome.split)

lemma succeed_Inr:
  assumes "succeed L rt a att held out s = (Inr r, t)"
  shows "er_intent_id r = ai_intent_id a" "er_error r = None" "er_output r = out"
    "er_postcondition_verified r = Some True" "json_value L (er_output r)" "er_succeeded r"
  using assms
  by (auto simp: succeed_def ExecutionResult_iff json_or_raise_def elim!: bindM_Inr_elim split: if_splits)

text \<open>
  The end of a run that fails after the call. The code of the failure is the text given,
  provided it is text that \<^verbatim>\<open>ShortText\<close> leaves as it is.
\<close>

lemma failure_end:
  assumes "bindM (failure L rt a att code msg out pv) (\<lambda>result.
      bindM (append_event L rt a ty tid (ds result)) (\<lambda>_.
      bindM (complete_claim L rt held result) (\<lambda>_. retM result))) s = (Inr r, t)"
    and "pv = Some False"
  shows "\<not> er_succeeded r" and "ShortText L code = Some code \<Longrightarrow> failed_with a r code out"
proof -
  obtain u where "failure L rt a att code msg out pv s = (Inr r, u)"
    using assms(1) by (auto simp del: append_event_then elim!: bindM_Inr_elim)
  note f = failure_Inr[OF this]
  show "\<not> er_succeeded r" by (rule f)
  obtain d where d: "er_error r = Some d" "ShortText L code = Some (fd_code d)" using f(6) by blast
  show "failed_with a r code out" if "ShortText L code = Some code"
    using f d that assms(2) by (cases d) (auto simp: failed_with_def)
qed

text \<open>The codes with which an execution fails once the handler has been called.\<close>

definition plain_codes :: "'z libs_scheme \<Rightarrow> bool" where
  "plain_codes L \<longleftrightarrow> list_all (\<lambda>c. ShortText L c = Some c)
     [''tool_execution_failed'', ''output_validation_failed'', ''postcondition_failed'']"

lemma run_handler_exact:
  assumes run: "run_handler L rt a x tool att held s = (Inr r, t)"
  shows "er_succeeded r \<Longrightarrow> delivered L rt a x (rg_contract tool) (handler_call tool a s) r"
    and "plain_codes L \<Longrightarrow> handler_outcome L rt a x (rg_contract tool) (handler_call tool a s) r"
proof -
  let ?o = "handler_call tool a s" and ?c = "rg_contract tool"
  let ?s1 = "s\<lparr>calls := calls s @ [HandlerCall (ai_tool_name a) (ai_arguments a)], ext := snd ?o\<rparr>"
  have "(er_succeeded r \<longrightarrow> delivered L rt a x ?c ?o r) \<and> (plain_codes L \<longrightarrow> handler_outcome L rt a x ?c ?o r)"
  proof (cases "fst ?o")
    case Raised
    then have "bindM (failure L rt a att ''tool_execution_failed'' ''Tool handler raised an exception.''
           PyNone (Some False)) (\<lambda>result.
         bindM (append_event L rt a ''execution_failed'' (Some (at_transaction_id att))
           (Some [(PyStr ''code'', PyStr (case er_error result of
              Some detail \<Rightarrow> fd_code detail | None \<Rightarrow> ''unknown''))])) (\<lambda>_.
         bindM (complete_claim L rt held result) (\<lambda>_. retM result))) ?s1 = (Inr r, t)"
      using run by (simp add: run_handler_def bindM_def[of "tryM _"] call_handler_run tryM_def Let_def
          del: append_event_then)
    from failure_end[OF this refl] Raised show ?thesis
      by (simp add: handler_outcome_def plain_codes_def)
  next
    case (Returned v)
    have co: "check_output L rt a x ?c att held v ?s1 = (Inr r, t)"
      using run Returned by (simp add: run_handler_def bindM_def[of "tryM _"] call_handler_run tryM_def Let_def)
    show ?thesis
    proof (cases "validate_against_schema L v (ts_document (tc_output_schema ?c))")
      case (Some m)
      with co have "bindM (failure L rt a att ''output_validation_failed'' m (json_or_none v) (Some False))
          (\<lambda>result. bindM (append_event L rt a ''output_validation_failed'' (Some (at_transaction_id att))
            (Some [(PyStr ''message'', PyStr m)])) (\<lambda>_.
          bindM (complete_claim L rt held result) (\<lambda>_. retM result))) ?s1 = (Inr r, t)"
        by (simp add: check_output_def del: append_event_then)
      from failure_end[OF this refl] Returned Some show ?thesis
        by (simp add: handler_outcome_def plain_codes_def)
    next
      case None
      with co have post: "check_postconditions L rt a x ?c att held v ?s1 = (Inr r, t)"
        by (simp add: check_output_def)
      obtain s2 where s2: "checks_pass (rt_postconditions rt) a ?c x ?s1 =
          (Inr (checks_hold (rt_postconditions rt) a ?c x (ext ?s1)), s2)"
        using checks_pass_returns by blast
      show ?thesis
      proof (cases "checks_hold (rt_postconditions rt) a ?c x (snd ?o)")
        case True
        with post s2 have "succeed L rt a att held v s2 = (Inr r, t)"
          by (simp add: check_postconditions_def bindM_run)
        from succeed_Inr[OF this] True Returned None show ?thesis
          by (simp add: handler_outcome_def delivered_def)
      next
        case False
        with post s2 have "bindM (failure L rt a att ''postcondition_failed''
             ''A postcondition failed after execution.'' (json_or_none v) (Some False)) (\<lambda>result.
           bindM (append_event L rt a ''postcondition_failed'' (Some (at_transaction_id att)) None) (\<lambda>_.
           bindM (complete_claim L rt held result) (\<lambda>_. retM result))) s2 = (Inr r, t)"
          by (simp add: check_postconditions_def bindM_run del: append_event_then)
        from failure_end[OF this refl] Returned None False show ?thesis
          by (simp add: handler_outcome_def plain_codes_def)
      qed
    qed
  qed
  then show "er_succeeded r \<Longrightarrow> delivered L rt a x ?c ?o r"
    and "plain_codes L \<Longrightarrow> handler_outcome L rt a x ?c ?o r" by blast+
qed

section \<open>The origin of a success\<close>

abbreviation key_state where
  "key_state s \<equiv> (records s, calls s)"

definition replayed ::
  "'z rt_libs_scheme \<Rightarrow> (string \<Rightarrow> idempotency_record option) \<Rightarrow> action_intent \<Rightarrow> execution_result \<Rightarrow> bool" where
  "replayed L m a r \<longleftrightarrow> (\<exists>k rec. ai_idempotency_key a = Some k \<and> m k = Some rec \<and>
     ir_status rec = COMPLETED \<and> decode_execution_result L (ir_result rec) = Inr r)"

text \<open>The alternative that a successful result is one of, against the state before the call.\<close>

definition success_origin ::
  "'z rt_libs_scheme \<Rightarrow> 'e runtime \<Rightarrow> action_intent \<Rightarrow>
   (string \<Rightarrow> idempotency_record option) \<times> call list \<Rightarrow> execution_result \<Rightarrow>
   ('e, 'y) idem_world_scheme \<Rightarrow> bool" where
  "success_origin L rt a v r t \<longleftrightarrow> (er_succeeded r \<longrightarrow>
     calls t = snd v @ [HandlerCall (ai_tool_name a) (ai_arguments a)] \<or>
     (replayed L (fst v) a r \<and> calls t = snd v))"

lemma unsuccessful_origin: "unsuccessful m \<Longrightarrow> yields f w m (success_origin L rt a v)"
  by (rule unsuccessful_yields) (simp_all add: success_origin_def)

lemma run_handler_origin:
  "yields calls C (run_handler L rt a x tool att held) (success_origin L rt a (R, C))"
proof (rule yieldsI)
  fix s r t
  assume C: "calls s = C" and run: "run_handler L rt a x tool att held s = (Inr r, t)"
  have "calls t = C @ [HandlerCall (ai_tool_name a) (ai_arguments a)]"
    using run_handler_calls[of L rt a x tool att held s] run C by simp
  then show "success_origin L rt a (R, C) r t" by (simp add: success_origin_def)
qed

lemma check_preconditions_origin:
  "yields calls C (check_preconditions L rt a x tool att held) (success_origin L rt a (R, C))"
  unfolding check_preconditions_def start_execution_def
  by (intro yields_bind yields_if run_handler_origin unsuccessful_origin unsuccessful_rules
      keeps_intros)

lemma yields_calls: "yields calls C m Q \<Longrightarrow> yields key_state (R, C) m Q"
  unfolding yields_def by blast

lemma replay_origin:
  assumes "ai_idempotency_key a = Some k" and "R k = Some rec"
  shows "yields key_state (R, C) (replay L rt a att rec) (success_origin L rt a (R, C))"
proof -
  have "yields key_state (R, C) (liftM (decode_execution_result L (ir_result rec)))
      (success_origin L rt a (R, C))" if "ir_status rec = COMPLETED"
    using assms that by (auto simp: yields_def success_origin_def replayed_def)
  then show ?thesis
    unfolding replay_def
    by (intro yields_bind keeps_both keeps_intros)
      (auto simp: unsuccessful_origin[OF unsuccessful_failure])
qed

lemma reserve_key_origin:
  assumes mem: "rt_idempotency rt = InMemoryIdempotencyBackend clk"
  shows "yields key_state (R, C) (reserve_key L rt a x tool att) (success_origin L rt a (R, C))"
proof -
  have pre: "yields key_state (R, C) (check_preconditions L rt a x tool att held)
      (success_origin L rt a (R, C))" for held
    by (rule yields_calls[OF check_preconditions_origin])
  have "yields key_state (R, C)
      (bindM (claim L (rt_idempotency rt) k) (\<lambda>c. if \<not> ic_acquired c then replay L rt a att (ic_record c)
             else check_preconditions L rt a x tool att (Some c))) (success_origin L rt a (R, C))"
    if k: "ai_idempotency_key a = Some k" for k
  proof (rule yieldsI)
    fix s r t
    assume v: "key_state s = (R, C)"
      and run: "bindM (claim L (rt_idempotency rt) k) (\<lambda>c. if \<not> ic_acquired c
          then replay L rt a att (ic_record c)
          else check_preconditions L rt a x tool att (Some c)) s = (Inr r, t)"
    from run obtain c s' where c: "claim L (rt_idempotency rt) k s = (Inr c, s')"
      and rest: "(if \<not> ic_acquired c then replay L rt a att (ic_record c)
          else check_preconditions L rt a x tool att (Some c)) s' = (Inr r, t)"
      by (rule bindM_Inr_elim)
    show "success_origin L rt a (R, C) r t"
    proof (cases "R k")
      case (Some rec)
      with c v have "c = \<lparr>ic_record = rec, ic_acquired = False\<rparr>" "s' = s"
        by (auto simp: claim_def mem in_memory_claim_old)
      with rest have "replay L rt a att rec s = (Inr r, t)" by simp
      then show ?thesis using replay_origin[of a k R rec, OF k Some] v by (blast dest: yieldsD)
    next
      case None
      have "calls s' = C" using keepsD[OF keeps_idempotency(1) c] v by simp
      moreover from None c v have "ic_acquired c"
        by (auto simp: claim_def mem in_memory_claim_new Let_def split: sum.splits)
      ultimately show ?thesis
        using rest yieldsD[OF check_preconditions_origin, where t = t and r = r] by simp
    qed
  qed
  note claimed = this
  show ?thesis
  proof (cases "ai_idempotency_key a")
    case None
    then show ?thesis unfolding reserve_key_def
      by simp (intro conjI impI pre unsuccessful_origin results_bind unsuccessful_failure)
  next
    case (Some k)
    then show ?thesis by (simp add: reserve_key_def claimed)
  qed
qed

lemma execute_origin:
  assumes mem: "rt_idempotency rt = InMemoryIdempotencyBackend clk"
  shows "yields key_state v (execute L rt a x) (success_origin L rt a v)"
proof (cases v)
  case (Pair R C)
  have cc: "yields key_state (R, C) (check_contract L rt a x tool att) (success_origin L rt a (R, C))"
    for tool att
    unfolding check_contract_def check_policy_def check_approval_def
    by (intro yields_bind yields_if yields_case_option unsuccessful_origin unsuccessful_rules
        keeps_both keeps_intros reserve_key_origin[OF mem])
  show ?thesis
    unfolding Pair execute_def Let_def
    by (intro yields_bind yields_if yields_case_sum unsuccessful_origin unsuccessful_rules
        keeps_both keeps_intros cc)
qed

section \<open>The record of the key after the handler\<close>

text \<open>An action that, when it returns, has completed the claim as its last write.\<close>

definition completes ::
  "'z rt_libs_scheme \<Rightarrow> 'e runtime \<Rightarrow> idempotency_claim option \<Rightarrow>
   (('e, 'y) idem_world_scheme, execution_result) action \<Rightarrow> bool" where
  "completes L rt held m \<longleftrightarrow> (\<forall>s r t. m s = (Inr r, t) \<longrightarrow>
     (\<exists>u. records u = records s \<and> complete_claim L rt held r u = (Inr (), t)))"

lemma completesI:
  "(\<And>s r t. m s = (Inr r, t) \<Longrightarrow> \<exists>u. records u = records s \<and> complete_claim L rt held r u = (Inr (), t)) \<Longrightarrow>
   completes L rt held m"
  by (simp add: completes_def)

lemma completes_bind:
  assumes "keeps records m" and "\<And>x. completes L rt held (k x)"
  shows "completes L rt held (bindM m k)"
proof (rule completesI)
  fix s r t
  assume "bindM m k s = (Inr r, t)"
  then obtain x s' where x: "m s = (Inr x, s')" "k x s' = (Inr r, t)" by (rule bindM_Inr_elim)
  with assms(2)[of x] obtain u where "records u = records s'" "complete_claim L rt held r u = (Inr (), t)"
    unfolding completes_def by blast
  with keepsD[OF assms(1) x(1)]
  show "\<exists>u. records u = records s \<and> complete_claim L rt held r u = (Inr (), t)" by auto
qed

lemma completes_finish: "completes L rt held (bindM (complete_claim L rt held r) (\<lambda>_. retM r))"
proof (rule completesI)
  fix s q t
  assume "bindM (complete_claim L rt held r) (\<lambda>_. retM r) s = (Inr q, t)"
  then have "complete_claim L rt held q s = (Inr (), t)" by (auto elim!: bindM_Inr_elim)
  then show "\<exists>u. records u = records s \<and> complete_claim L rt held q u = (Inr (), t)" by blast
qed

lemmas completes_rules = completes_finish completes_bind keeps_intros

lemma completes_cases:
  "(c \<Longrightarrow> completes L rt held m) \<Longrightarrow> (\<not> c \<Longrightarrow> completes L rt held n) \<Longrightarrow>
     completes L rt held (if c then m else n)"
  "(y = None \<Longrightarrow> completes L rt held m) \<Longrightarrow> (\<And>z. y = Some z \<Longrightarrow> completes L rt held (n' z)) \<Longrightarrow>
     completes L rt held (case y of None \<Rightarrow> m | Some z \<Rightarrow> n' z)"
  by simp (cases y; simp)

lemma run_handler_completes: "completes L rt held (run_handler L rt a x tool att held)"
  unfolding run_handler_def check_output_def check_postconditions_def succeed_def
  by (intro completes_cases completes_rules)

text \<open>From the claim on, the record of the key is the claimed one; at the end it is completed.\<close>

lemma cleared_key:
  assumes "cleared L rt a x s tool held t" and k: "ai_idempotency_key a = Some k"
    and mem: "rt_idempotency rt = InMemoryIdempotencyBackend clk"
  obtains cl where "held = Some cl" "records s k = None" "records t = (records s)(k \<mapsto> ic_record cl)"
    "ShortText L k = Some (ir_key (ic_record cl))" "ir_status (ic_record cl) = IN_PROGRESS"
proof -
  from assms(1) obtain s1 d s3 s5 s6 s7 where
    1: "received_event L rt a (opened s) = (Inr True, s1)"
    and 2: "evaluate L (rt_policy_engine rt) a (Some (rg_contract tool)) x
          (snd (validated_event L rt a tool s1)) = (Inr d, s3)"
    and 3: "permitted rt a (rg_contract tool) d x (snd (evaluated_event L rt a d s3)) s5"
    and 4: "holds_key L rt a (rg_contract tool) s5 held s6"
    and 5: "checks_pass (rt_preconditions rt) a (rg_contract tool) x s6 = (Inr True, s7)"
    and 6: "append_event L rt a ''execution_started''
          (Some (at_transaction_id (attempt_of rt s))) None s7 = (Inr True, t)"
    unfolding cleared_def by blast
  have "records s1 = records s" using keepsD[OF append_event_records 1] by simp
  moreover have "records s3 = records s1"
    using keepsD[OF evaluate_records 2] by (simp add: keeps_snd[OF append_event_records])
  moreover have "records s5 = records s3"
    using 3 by (auto simp: permitted_def keeps_snd[OF append_event_records]
        dest!: keepsD[OF is_approved_records] split: if_splits)
  ultimately have s5: "records s5 = records s" by simp
  have t: "records t = records s6"
    using keepsD[OF checks_records 5] keepsD[OF append_event_records 6] by simp
  from 4 k obtain cl where cl: "claim L (rt_idempotency rt) k s5 = (Inr cl, s6)" "ic_acquired cl"
    "held = Some cl" by (auto simp: holds_key_def)
  then have none: "records s5 k = None"
    by (cases "records s5 k") (auto simp: claim_def mem in_memory_claim_old)
  with cl obtain q where q: "IdempotencyRecord L
       \<lparr>ir_key = k, ir_owner_token = uuid_source s5 (drawn s5), ir_status = IN_PROGRESS,
        ir_claimed_at = clk (tick s5), ir_completed_at = None, ir_result_reference = None,
        ir_result = PyNone\<rparr> = Inr q" and c: "cl = \<lparr>ic_record = q, ic_acquired = True\<rparr>"
    and s6: "records s6 = (records s5)(k \<mapsto> q)"
    by (auto simp: claim_def mem in_memory_claim_new Let_def split: sum.splits)
  from q have "ShortText L k = Some (ir_key q)" "ir_status q = IN_PROGRESS"
    by (auto elim!: IdempotencyRecord_elim)
  with cl(3) c s6 s5 none t show thesis by (intro that[of cl]) simp_all
qed

lemma complete_claim_record:
  assumes "complete_claim L rt (Some cl) r u = (Inr (), t)"
    and mem: "rt_idempotency rt = InMemoryIdempotencyBackend clk"
    and rec: "records u (ir_key (ic_record cl)) = Some (ic_record cl)"
    and st: "ir_status (ic_record cl) = IN_PROGRESS"
  shows "\<exists>q. records t (ir_key (ic_record cl)) = Some q \<and> ir_status q = COMPLETED \<and>
    ir_result q = model_dump L r"
proof -
  let ?k = "ir_key (ic_record cl)"
  from assms(1) obtain q where m: "in_memory_mark_completed L clk ?k (ir_owner_token (ic_record cl))
      (Some (uuid_str (er_execution_id r))) (model_dump L r) u = (Inr q, t)"
    by (auto simp: complete_claim_def mark_completed_def mem elim!: bindM_Inr_elim)
  then show ?thesis
    using rec st
    by (auto simp: in_memory_mark_completed_cases elim!: IdempotencyRecord_elim split: sum.splits)
qed

lemma run_completes_key:
  assumes "execute L rt a x s = (Inr r, t)" and "calls t \<noteq> calls s"
    and k: "ai_idempotency_key a = Some k" and key: "ShortText L k = Some k"
    and mem: "rt_idempotency rt = InMemoryIdempotencyBackend clk"
  shows "records s k = None \<and> (\<exists>q. records t k = Some q \<and> ir_status q = COMPLETED \<and>
    ir_result q = model_dump L r)"
proof -
  from assms(1,2) have "calls (snd (execute L rt a x s)) \<noteq> calls s" by simp
  then obtain tool held t0 where cl: "cleared L rt a x s tool held t0"
    and run: "execute L rt a x s = run_handler L rt a x tool (attempt_of rt s) held t0"
    by (rule cleared_reaches)
  from cleared_key[OF cl k mem] obtain c where c: "held = Some c" "records s k = None"
    "records t0 = (records s)(k \<mapsto> ic_record c)" "ShortText L k = Some (ir_key (ic_record c))"
    "ir_status (ic_record c) = IN_PROGRESS" .
  from run assms(1) c(1) have "run_handler L rt a x tool (attempt_of rt s) (Some c) t0 = (Inr r, t)"
    by simp
  with run_handler_completes obtain u where "records u = records t0"
    "complete_claim L rt (Some c) r u = (Inr (), t)" unfolding completes_def by blast
  with complete_claim_record[of L rt c r u t clk] c key mem show ?thesis by simp
qed

section \<open>Results that can be stored\<close>

text \<open>What a handler run returns is a validated result whose output is JSON.\<close>

definition storable :: "'z rt_libs_scheme \<Rightarrow> execution_result \<Rightarrow> bool" where
  "storable L r \<longleftrightarrow> ExecutionResult L r = Inr r \<and> json_dumps_ok (er_output r)"

lemma json_or_none_dumps: "json_dumps_ok (json_or_none v)"
  by (simp add: json_or_none_def json_or_raise_def)

lemma failure_storable: "json_dumps_ok out \<Longrightarrow> results (storable L) (failure L rt a att code msg out pv)"
  by (rule resultsI) (simp add: storable_def failure_Inr)

lemma succeed_storable: "results (storable L) (succeed L rt a att held out)"
  by (rule resultsI)
    (auto simp: succeed_def storable_def ExecutionResult_iff json_or_raise_def
      elim!: bindM_Inr_elim split: if_splits)

lemma run_handler_results:
  fixes P :: "execution_result \<Rightarrow> bool"
  assumes "\<And>code msg out pv. json_dumps_ok out \<Longrightarrow>
      results P (failure L rt a att code msg out pv :: (('e, 'y) idem_world_scheme, execution_result) action)"
    and "\<And>out. results P (succeed L rt a att held out :: (('e, 'y) idem_world_scheme, execution_result) action)"
  shows "results P (run_handler L rt a x tool att held :: (('e, 'y) idem_world_scheme, execution_result) action)"
proof -
  note failed = results_finish(2)[OF assms(1)]
  have post: "results P (check_postconditions L rt a x (rg_contract tool) att held out ::
      (('e, 'y) idem_world_scheme, execution_result) action)" for out
    unfolding check_postconditions_def
    by (intro results_bind[where m = "checks_pass _ _ _ _"] results_if failed assms(2)
        json_or_none_dumps)
  have out: "results P (check_output L rt a x (rg_contract tool) att held out ::
      (('e, 'y) idem_world_scheme, execution_result) action)" for out
    unfolding check_output_def
    by (intro results_case_option failed json_or_none_dumps post)
  have none: "json_dumps_ok PyNone" by simp
  show ?thesis
    unfolding run_handler_def
    by (intro results_bind[where m = "tryM _"] results_case_option failed none out)
qed

lemma run_handler_storable: "results (storable L) (run_handler L rt a x tool att held)"
  by (rule run_handler_results[OF failure_storable succeed_storable])

lemma run_handler_intent: "results (\<lambda>r. er_intent_id r = ai_intent_id a) (run_handler L rt a x tool att held)"
  by (rule run_handler_results; rule resultsI) (auto dest: failure_Inr(2) succeed_Inr(1))

text \<open>
  The documented behaviour of the serializer: \<^verbatim>\<open>model_dump(mode="json")\<close> of a stored result is
  a JSON value that \<^verbatim>\<open>model_validate_json\<close> reads back.
\<close>

definition serializer_documented :: "'z rt_libs_scheme \<Rightarrow> bool" where
  "serializer_documented L \<longleftrightarrow> (\<forall>r. storable L r \<longrightarrow>
     decode_execution_result L (model_dump L r) = Inr r \<and> json_value L (model_dump L r))"

end
