(* ===== verification/Runtime_Samples.thy ===== *)
theory Runtime_Samples
  imports Runtime_Outcomes
begin

text \<open>
  A concrete runtime, world and serializer, on which the witnesses of the runtime's
  properties are evaluated. The serializer writes identifiers and instants as numbers; it is
  one function with the documented round trip, not a model of pydantic's.
\<close>

definition dump_detail :: "failure_detail option \<Rightarrow> pyval" where
  "dump_detail d = (case d of None \<Rightarrow> PyNone
     | Some e \<Rightarrow> PyList [PyStr (fd_code e), PyStr (fd_message e)])"

fun parse_detail :: "pyval \<Rightarrow> failure_detail option" where
  "parse_detail (PyList [PyStr c, PyStr m]) = Some \<lparr>fd_code = c, fd_message = m\<rparr>"
| "parse_detail _ = None"

definition dump_flag :: "bool option \<Rightarrow> pyval" where
  "dump_flag b = (case b of None \<Rightarrow> PyNone | Some v \<Rightarrow> PyBool v)"

fun parse_flag :: "pyval \<Rightarrow> bool option" where
  "parse_flag (PyBool b) = Some b"
| "parse_flag _ = None"

definition sample_dump :: "execution_result \<Rightarrow> pyval" where
  "sample_dump r = PyList [PyInt (uint (er_execution_id r)), PyInt (uint (er_transaction_id r)),
     PyInt (uint (er_intent_id r)), PyBool (er_succeeded r), PyInt (er_started_at r),
     PyInt (er_completed_at r), er_output r, dump_detail (er_error r),
     dump_flag (er_postcondition_verified r)]"

fun the_int :: "pyval \<Rightarrow> int" where
  "the_int (PyInt i) = i"
| "the_int _ = 0"

definition sample_parse :: "pyval \<Rightarrow> execution_result option" where
  "sample_parse v = (case v of
     PyList xs \<Rightarrow> if length xs \<noteq> 9 then None else
       Some \<lparr>er_execution_id = word_of_int (the_int (xs ! 0)),
         er_transaction_id = word_of_int (the_int (xs ! 1)),
         er_intent_id = word_of_int (the_int (xs ! 2)), er_succeeded = (xs ! 3 = PyBool True),
         er_started_at = the_int (xs ! 4), er_completed_at = the_int (xs ! 5),
         er_output = xs ! 6, er_error = parse_detail (xs ! 7),
         er_postcondition_verified = parse_flag (xs ! 8)\<rparr>
   | _ \<Rightarrow> None)"

lemma sample_round_trip: "sample_parse (sample_dump r) = Some r"
  by (cases r) (auto simp: sample_parse_def sample_dump_def dump_detail_def dump_flag_def split: option.split)

definition sample_rt_libs :: rt_libs where
  "sample_rt_libs = \<lparr>str_constraints = sample_str_constraints,
     json_value = (\<lambda>v. json_shape v \<and> json_dumps_ok v), float_repr = sample_float_repr,
     model_dump = sample_dump, model_validate_json = sample_parse\<rparr>"

lemma sample_rt_libs_documented: "pydantic_documented sample_rt_libs"
  using sample_libs_documented
  by (simp add: pydantic_documented_def sample_libs_def sample_rt_libs_def)

lemma sample_serializer_documented: "serializer_documented sample_rt_libs"
proof -
  have "json_dumps_ok (sample_dump r)" if "json_dumps_ok (er_output r)" for r
    using that by (simp add: sample_dump_def dump_detail_def dump_flag_def split: option.split)
  moreover have "json_shape (sample_dump r)" if "json_shape (er_output r)" for r
    using that by (simp add: sample_dump_def dump_detail_def dump_flag_def split: option.split)
  ultimately show ?thesis
    by (simp add: serializer_documented_def storable_def decode_execution_result_def
        sample_rt_libs_def sample_round_trip ExecutionResult_iff)
qed

definition sample_registry :: "risk_level \<Rightarrow> 'e handler \<Rightarrow> 'e tool_registry" where
  "sample_registry risk h = \<lparr>registrations =
     [(''refund'', \<lparr>rg_contract = sample_contract risk, rg_handler = h\<rparr>)]\<rparr>"

definition sample_runtime :: "risk_level \<Rightarrow> 'e policy list \<Rightarrow> 'e handler \<Rightarrow> 'e runtime" where
  "sample_runtime risk policies h =
     SingleActionRuntime int (sample_registry risk h) policies None None None [] [] None"

definition sample_state :: "'e \<Rightarrow> 'e idem_world" where
  "sample_state e = \<lparr>tick = 0, uuid_source = of_nat, drawn = 0, utc_now = int, calls = [],
     ext = e, events = [], records = (\<lambda>_. None)\<rparr>"

definition echo_amount :: "pydict \<Rightarrow> (unit, pyval) callback" where
  "echo_amount args e = (Returned (the (dict_get args ''amount'')), e)"

text \<open>Two executions of one action with an idempotency key, evaluated.\<close>

definition sample_execute :: "unit idem_world \<Rightarrow> execution_result result \<times> unit idem_world" where
  "sample_execute = execute sample_rt_libs (sample_runtime LOW [] echo_amount) (sample_action (Some ''k'')) []"

definition sample_result :: execution_result where
  "sample_result = \<lparr>er_execution_id = 0, er_transaction_id = 1, er_intent_id = 40,
     er_succeeded = True, er_started_at = 0, er_completed_at = 7, er_output = PyInt 5,
     er_error = None, er_postcondition_verified = Some True\<rparr>"

definition sample_check :: bool where
  "sample_check = (case sample_execute (sample_state ()) of (r, t) \<Rightarrow>
     r = Inr sample_result \<and> calls t = [HandlerCall ''refund'' [(PyStr ''amount'', PyInt 5)]] \<and>
     map le_event_type (events t) = [''action_received'', ''contract_validated'', ''policy_evaluated'',
       ''execution_started'', ''execution_succeeded''] \<and>
     fst (sample_execute t) = Inr sample_result)"

lemma sample_check: sample_check
  by code_simp

lemma sample_first:
  obtains t where "sample_execute (sample_state ()) = (Inr sample_result, t)"
    and "calls t = [HandlerCall ''refund'' [(PyStr ''amount'', PyInt 5)]]"
    and "map le_event_type (events t) = [''action_received'', ''contract_validated'',
      ''policy_evaluated'', ''execution_started'', ''execution_succeeded'']"
    and "fst (sample_execute t) = Inr sample_result"
  using sample_check unfolding sample_check_def
  by (cases "sample_execute (sample_state ())") auto

lemma sample_runtime_parts [simp]:
  "rt_idempotency (sample_runtime risk ps h) = InMemoryIdempotencyBackend int"
  "rt_ledger (sample_runtime risk ps h) = InMemoryLedger int"
  "rt_policy_engine (sample_runtime risk ps h) = ps"
  "rt_approval_checker (sample_runtime risk ps h) = NoApprovalChecker"
  "rt_preconditions (sample_runtime risk ps h) = []"
  "rt_postconditions (sample_runtime risk ps h) = []"
  "rt_clock (sample_runtime risk ps h) = int"
  "rt_registry (sample_runtime risk ps h) = sample_registry risk h"
  by (simp_all add: sample_runtime_def SingleActionRuntime_def)

lemma sample_tool:
  "get_tool (sample_registry risk h) (ai_tool_name (sample_action key)) =
     Inr \<lparr>rg_contract = sample_contract risk, rg_handler = h\<rparr>"
  by (simp add: sample_registry_def get_tool_def sample_action_def)

lemma sample_key: "ai_idempotency_key (sample_action key) = key"
  by (simp add: sample_action_def)

lemma sample_short: "ShortText sample_rt_libs ''k'' = Some ''k''"
  by (rule ShortText_plain[OF sample_rt_libs_documented]) (simp_all add: white_space_def)

end
