(* ===== verification/Runtime_Safety.thy ===== *)
theory Runtime_Safety
  imports Runtime_Samples
begin

text \<open>
  The safety of the execution pipeline: when a handler can be called, how often per
  idempotency key, where successes come from, and what the ledger holds afterwards.
\<close>

section \<open>When a handler is called\<close>

lemma cleared_calls:
  assumes "cleared L rt a x s tool held t"
  shows "calls t = calls s"
proof -
  from assms obtain s1 d s3 s5 s6 s7 where
    1: "received_event L rt a (opened s) = (Inr True, s1)"
    and 2: "evaluate L (rt_policy_engine rt) a (Some (rg_contract tool)) x
          (snd (validated_event L rt a tool s1)) = (Inr d, s3)"
    and 3: "permitted rt a (rg_contract tool) d x (snd (evaluated_event L rt a d s3)) s5"
    and 4: "holds_key L rt a (rg_contract tool) s5 held s6"
    and 5: "checks_pass (rt_preconditions rt) a (rg_contract tool) x s6 = (Inr True, s7)"
    and 6: "append_event L rt a ''execution_started''
          (Some (at_transaction_id (attempt_of rt s))) None s7 = (Inr True, t)"
    unfolding cleared_def by blast
  have "calls s1 = calls s" using keepsD[OF keeps_runtime_calls(1) 1] by simp
  moreover have "calls s3 = calls s1"
    using keepsD[OF keeps_evaluate_calls 2] by (simp add: keeps_snd[OF keeps_runtime_calls(1)])
  moreover have "calls s5 = calls s3"
    using 3 by (auto simp: permitted_def keeps_snd[OF keeps_runtime_calls(1)]
        dest!: keepsD[OF keeps_is_approved] split: if_splits)
  moreover have "calls s6 = calls s5"
    using 4 by (auto simp: holds_key_def dest!: keepsD[OF keeps_idempotency(1)] split: option.splits)
  moreover have "calls t = calls s6"
    using keepsD[OF keeps_checks 5] keepsD[OF keeps_runtime_calls(1) 6] by simp
  ultimately show ?thesis by simp
qed

lemma execute_calls:
  "calls (snd (execute L rt a x s)) = calls s @
     (if \<exists>tool held t. cleared L rt a x s tool held t
      then [HandlerCall (ai_tool_name a) (ai_arguments a)] else [])"
proof (cases "\<exists>tool held t. cleared L rt a x s tool held t")
  case True
  then obtain tool held t where c: "cleared L rt a x s tool held t" by blast
  then show ?thesis
    using cleared_calls[OF c] by (auto simp: cleared_runs[OF c] run_handler_calls)
next
  case False
  then have "calls (snd (execute L rt a x s)) = calls s"
    using cleared_reaches[of L rt a x s] by metis
  with False show ?thesis by simp
qed

text \<open>
  C1: One \<^verbatim>\<open>execute\<close> calls the handler at most once, and calls it exactly when every gate
  of the pipeline passes in the order of the code, each in the state left by the one before:
  the ledger records \<^verbatim>\<open>action_received\<close>, the tool is registered, the intent matches the
  registered contract, the arguments conform to the input schema, the policy engine returns
  a decision that is not DENY (and the approval checker returns true if it is
  REQUIRE_APPROVAL), the idempotency key is present if required and newly acquired, every
  precondition returns true, and the ledger records \<^verbatim>\<open>execution_started\<close>.
\<close>

theorem handler_gated:
  "calls (snd (execute L rt a x s)) = calls s @
     (if \<exists>tool held t s1 d s3 s5 s6 s7.
        received_event L rt a (opened s) = (Inr True, s1) \<and>
        get_tool (rt_registry rt) (ai_tool_name a) = Inr tool \<and>
        action_matches_contract a (rg_contract tool) \<and>
        validate_against_schema L (PyDict (ai_arguments a))
          (ts_document (tc_input_schema (rg_contract tool))) = None \<and>
        evaluate L (rt_policy_engine rt) a (Some (rg_contract tool)) x
          (snd (validated_event L rt a tool s1)) = (Inr d, s3) \<and>
        permitted rt a (rg_contract tool) d x (snd (evaluated_event L rt a d s3)) s5 \<and>
        holds_key L rt a (rg_contract tool) s5 held s6 \<and>
        checks_pass (rt_preconditions rt) a (rg_contract tool) x s6 = (Inr True, s7) \<and>
        append_event L rt a ''execution_started''
          (Some (at_transaction_id (attempt_of rt s))) None s7 = (Inr True, t)
      then [HandlerCall (ai_tool_name a) (ai_arguments a)] else [])"
  unfolding execute_calls cleared_def by auto

lemma required_strictness_high: "HIGH \<le> tc_risk_level c \<Longrightarrow> 2 \<le> required_strictness a c as"
  unfolding required_strictness_def
  by (rule order_trans[OF _ Max_ge[OF _ insertI1]]) (auto simp: le_max_iff_disj intro: order_trans)

lemma strictness_allow: "strictness ty \<ge> 2 \<longleftrightarrow> ty = REQUIRE_APPROVAL \<or> ty = DENY"
  by (cases ty) simp_all

text \<open>What a call of the handler needs of the policy engine and the approval checker.\<close>

lemma call_needs_decision:
  fixes s :: "('e, 'y) idem_world_scheme"
  assumes "calls (snd (execute L rt a x s)) \<noteq> calls s"
    and "get_tool (rt_registry rt) (ai_tool_name a) = Inr tool"
  obtains d and w w' u u' :: "('e, 'y) idem_world_scheme" where "action_matches_contract a (rg_contract tool)"
    and "evaluate L (rt_policy_engine rt) a (Some (rg_contract tool)) x w = (Inr d, w')"
    and "permitted rt a (rg_contract tool) d x u u'"
proof -
  from assms(1) obtain tool' held t where "cleared L rt a x s tool' held t" by (rule cleared_reaches)
  then obtain d and s1 s3 s5 :: "('e, 'y) idem_world_scheme"
    where "get_tool (rt_registry rt) (ai_tool_name a) = Inr tool'"
    and m: "action_matches_contract a (rg_contract tool')"
    and ev: "evaluate L (rt_policy_engine rt) a (Some (rg_contract tool')) x
          (snd (validated_event L rt a tool' s1)) = (Inr d, s3)"
    and p: "permitted rt a (rg_contract tool') d x (snd (evaluated_event L rt a d s3)) s5"
    unfolding cleared_def by blast
  with assms(2) have "tool' = tool" by simp
  with m ev p show thesis by (intro that) simp_all
qed

definition withholds_approval :: "'e approval_checker \<Rightarrow> action_intent \<Rightarrow> bool" where
  "withholds_approval ch a \<longleftrightarrow> (case ch of
     NoApprovalChecker \<Rightarrow> True
   | StaticApprovalChecker ids \<Rightarrow> ai_intent_id a \<notin> set ids
   | CustomApprovalChecker f \<Rightarrow> \<forall>c d x e e'. f a c d x e \<noteq> (Returned True, e'))"

lemma withholds_approval_not: "withholds_approval ch a \<Longrightarrow> is_approved ch a c d x s \<noteq> (Inr True, s')"
  by (cases ch) (auto simp: withholds_approval_def is_approved_def call_user_def
      split: prod.splits outcome.splits)

text \<open>
  A tool whose registered contract is of HIGH or CRITICAL risk is never called without
  approval, whatever the policies answer: not with the default checker, which approves
  nothing, nor with a static checker that does not list the intent, nor with a checker that
  only returns false or raises for it.
\<close>

theorem high_risk_needs_approval:
  fixes s :: "('e, 'y) idem_world_scheme"
  assumes "pydantic_documented L" and "returns_instances L (rt_policy_engine rt)"
    and "get_tool (rt_registry rt) (ai_tool_name a) = Inr tool"
    and "HIGH \<le> tc_risk_level (rg_contract tool)"
    and "withholds_approval (rt_approval_checker rt) a"
  shows "calls (snd (execute L rt a x s)) = calls s"
proof (rule ccontr)
  assume "calls (snd (execute L rt a x s)) \<noteq> calls s"
  then obtain d and w w' u u' :: "('e, 'y) idem_world_scheme"
    where m: "action_matches_contract a (rg_contract tool)"
    and ev: "evaluate L (rt_policy_engine rt) a (Some (rg_contract tool)) x w = (Inr d, w')"
    and p: "permitted rt a (rg_contract tool) d x u u'"
    by (rule call_needs_decision[OF _ assms(3)])
  from engine_outcome[OF assms(1,2) m, of x w] ev required_strictness_high[OF assms(4)]
  have "strictness (pd_decision_type d) \<ge> 2" by simp
  with p show False
    by (auto simp: strictness_allow permitted_def withholds_approval_not[OF assms(5)])
qed

theorem high_risk_needs_approval_witness:
  "calls (snd (execute sample_rt_libs (sample_runtime HIGH [] echo_amount) (sample_action (Some ''k'')) []
     (sample_state ()))) = []"
  by (subst high_risk_needs_approval[where tool = "\<lparr>rg_contract = sample_contract HIGH, rg_handler = echo_amount\<rparr>"])
    (simp_all add: sample_rt_libs_documented returns_instances_def sample_runtime_def
      SingleActionRuntime_def sample_registry_def get_tool_def sample_action_def
      sample_contract_def withholds_approval_def sample_state_def)

lemma policy_answers_member:
  fixes w :: "('e, 'y) world_scheme"
  assumes "p \<in> set ps"
  shows "\<exists>w' :: ('e, 'y) world_scheme. (case fst (policy_evaluate L p a c x w') of
      Inl _ \<Rightarrow> None | Inr ans \<Rightarrow> Some ans) \<in> set (policy_answers L ps a c x w)"
  using assms
proof (induction ps arbitrary: w)
  case (Cons q ps)
  show ?case
  proof (cases "p = q")
    case True
    obtain r w1 where "policy_evaluate L p a c x w = (r, w1)" by fastforce
    with True show ?thesis by (intro exI[of _ w]) (cases r; simp)
  next
    case False
    with Cons.prems have "p \<in> set ps" by simp
    obtain r w1 where q: "policy_evaluate L q a c x w = (r, w1)" by fastforce
    from Cons.IH[OF \<open>p \<in> set ps\<close>, of w1] obtain w' :: "('e, 'y) world_scheme"
      where "(case fst (policy_evaluate L p a c x w') of Inl _ \<Rightarrow> None | Inr ans \<Rightarrow> Some ans)
        \<in> set (policy_answers L ps a c x w1)" by blast
    with q show ?thesis by (intro exI[of _ w']) (cases r; simp)
  qed
qed simp

text \<open>
  A single policy can veto. If one of the registered policies raises, returns something
  that is not a decision, returns a decision for another intent or denies, in whatever state
  it is asked, then the handler is not called.
\<close>

theorem policy_veto:
  fixes s :: "('e, 'y) idem_world_scheme"
  assumes "pydantic_documented L" and "returns_instances L (rt_policy_engine rt)"
    and "get_tool (rt_registry rt) (ai_tool_name a) = Inr tool"
    and "p \<in> set (rt_policy_engine rt)"
    and "\<And>(w :: ('e, 'y) idem_world_scheme) d w'.
      policy_evaluate L p a (rg_contract tool) x w = (Inr (Decision d), w') \<Longrightarrow>
      pd_intent_id d \<noteq> ai_intent_id a \<or> pd_decision_type d = DENY"
  shows "calls (snd (execute L rt a x s)) = calls s"
proof (rule ccontr)
  assume "calls (snd (execute L rt a x s)) \<noteq> calls s"
  then obtain d and w w' u u' :: "('e, 'y) idem_world_scheme"
    where m: "action_matches_contract a (rg_contract tool)"
    and ev: "evaluate L (rt_policy_engine rt) a (Some (rg_contract tool)) x w = (Inr d, w')"
    and pm: "permitted rt a (rg_contract tool) d x u u'"
    by (rule call_needs_decision[OF _ assms(3)])
  from policy_answers_member[OF assms(4)] obtain w1 :: "('e, 'y) idem_world_scheme"
    where ans: "(case fst (policy_evaluate L p a (rg_contract tool) x w1) of
        Inl _ \<Rightarrow> None | Inr ans \<Rightarrow> Some ans)
      \<in> set (policy_answers L (rt_policy_engine rt) a (rg_contract tool) x w)" (is "?ans \<in> _") by blast
  have "\<not> bound a ?ans \<or> (\<exists>d. ?ans = Some (Decision d) \<and> pd_decision_type d = DENY)"
    using assms(5)[of w1]
    by (cases "policy_evaluate L p a (rg_contract tool) x w1"; cases "(a, ?ans)" rule: bound.cases)
      (auto split: sum.splits)
  from engine_denies[OF assms(1,2) m ans this] ev pm show False
    by (auto simp: permitted_def)
qed

theorem policy_veto_witness:
  "calls (snd (execute sample_rt_libs
     (sample_runtime LOW [RiskApprovalPolicy HIGH, ToolAllowDenyPolicy None [''refund'']] echo_amount)
     (sample_action (Some ''k'')) [] (sample_state ()))) = []"
proof -
  let ?rt = "sample_runtime LOW [RiskApprovalPolicy HIGH, ToolAllowDenyPolicy None [''refund'']] echo_amount"
  let ?tool = "\<lparr>rg_contract = sample_contract LOW, rg_handler = echo_amount\<rparr>"
  have rt: "rt_policy_engine ?rt = [RiskApprovalPolicy HIGH, ToolAllowDenyPolicy None [''refund'']]"
    "get_tool (rt_registry ?rt) (ai_tool_name (sample_action (Some ''k''))) = Inr ?tool"
    by (simp_all add: sample_runtime_def SingleActionRuntime_def sample_registry_def get_tool_def
        sample_action_def)
  have "calls (snd (execute sample_rt_libs ?rt (sample_action (Some ''k'')) [] (sample_state ()))) =
      calls (sample_state ())"
  proof (rule policy_veto[OF sample_rt_libs_documented])
    show "returns_instances sample_rt_libs (rt_policy_engine ?rt)"
      by (simp add: rt returns_instances_def)
    show "ToolAllowDenyPolicy None [''refund''] \<in> set (rt_policy_engine ?rt)" by (simp add: rt)
    show "get_tool (rt_registry ?rt) (ai_tool_name (sample_action (Some ''k''))) = Inr ?tool"
      by (rule rt)
  next
    fix w w' :: "unit idem_world" and d
    assume "policy_evaluate sample_rt_libs (ToolAllowDenyPolicy None [''refund'']) (sample_action (Some ''k''))
        (rg_contract ?tool) [] w = (Inr (Decision d), w')"
    then show "pd_intent_id d \<noteq> ai_intent_id (sample_action (Some ''k'')) \<or> pd_decision_type d = DENY"
      by (auto simp: policy_evaluate_def tool_allow_deny_evaluate_def sample_action_def
          elim!: bindM_Inr_elim dest!: decision_Inr(1))
  qed
  then show ?thesis by (simp add: sample_state_def)
qed

section \<open>Successes\<close>

text \<open>
  C12: A result reported as succeeded is never invented. Either this call passed every gate
  and ran the handler once, the handler returned the output that the result reports, that
  output is JSON and conforms to the registered output schema, and every postcondition, asked
  in order from the world that the handler left, returned true; or no handler was called and
  the result is the one decoded from the completed record that the store held, before the
  call, for the action's idempotency key. This holds for the in-memory store.
\<close>

theorem success_validated:
  assumes "rt_idempotency rt = InMemoryIdempotencyBackend clk"
    and "execute L rt a x s = (Inr r, t)" and "er_succeeded r"
  shows "(\<exists>tool held u called. cleared L rt a x s tool held u \<and>
        get_tool (rt_registry rt) (ai_tool_name a) = Inr tool \<and>
        called = rg_handler tool (ai_arguments a) (ext u) \<and>
        calls t = calls s @ [HandlerCall (ai_tool_name a) (ai_arguments a)] \<and>
        er_intent_id r = ai_intent_id a \<and> er_error r = None \<and>
        er_postcondition_verified r = Some True \<and>
        fst called = Returned (er_output r) \<and> json_value L (er_output r) \<and>
        validate_against_schema L (er_output r) (ts_document (tc_output_schema (rg_contract tool))) = None \<and>
        checks_hold (rt_postconditions rt) a (rg_contract tool) x (snd called)) \<or>
     (\<exists>k rec. calls t = calls s \<and> ai_idempotency_key a = Some k \<and> records s k = Some rec \<and>
        ir_status rec = COMPLETED \<and> decode_execution_result L (ir_result rec) = Inr r)"
proof (cases "calls t = calls s")
  case True
  with yieldsD[OF execute_origin[OF assms(1)] refl assms(2)] assms(3) show ?thesis
    by (auto simp: success_origin_def replayed_def)
next
  case False
  with assms(2) have "calls (snd (execute L rt a x s)) \<noteq> calls s" by simp
  then obtain tool held u where cl: "cleared L rt a x s tool held u" and u: "calls u = calls s"
    and run: "execute L rt a x s = run_handler L rt a x tool (attempt_of rt s) held u"
    by (rule cleared_reaches)
  have run: "run_handler L rt a x tool (attempt_of rt s) held u = (Inr r, t)" using run assms(2) by simp
  have "get_tool (rt_registry rt) (ai_tool_name a) = Inr tool" using cl by (auto simp: cleared_def)
  moreover have "calls t = calls s @ [HandlerCall (ai_tool_name a) (ai_arguments a)]"
    using run_handler_calls[of L rt a x tool "attempt_of rt s" held u] run u by simp
  ultimately show ?thesis using cl run_handler_exact(1)[OF run assms(3)] by (auto simp: delivered_def)
qed

theorem success_validated_witness:
  "\<exists>r t tool u. sample_execute (sample_state ()) = (Inr r, t) \<and> er_succeeded r \<and>
     get_tool (sample_registry LOW echo_amount) ''refund'' = Inr tool \<and>
     fst (rg_handler tool [(PyStr ''amount'', PyInt 5)] u) = Returned (er_output r) \<and>
     validate_against_schema sample_rt_libs (er_output r) (ts_document (tc_output_schema (rg_contract tool))) = None"
proof (rule sample_first)
  fix t
  assume run: "sample_execute (sample_state ()) = (Inr sample_result, t)"
    and c: "calls t = [HandlerCall ''refund'' [(PyStr ''amount'', PyInt 5)]]"
  have "er_succeeded sample_result" by (simp add: sample_result_def)
  from success_validated[OF sample_runtime_parts(1) run[unfolded sample_execute_def] this] c
  show ?thesis using run \<open>er_succeeded sample_result\<close>
    by (auto simp: sample_state_def sample_action_def)
qed

section \<open>Idempotency\<close>

text \<open>
  A history: executions, each by a runtime of its own configuration over the shared state.
  \<open>keyed_calls\<close> counts the handler calls made by the executions of actions with key \<open>k\<close>.
\<close>

type_synonym 'e request = "'e runtime \<times> action_intent \<times> json_object"

fun run_requests ::
  "'z rt_libs_scheme \<Rightarrow> 'e request list \<Rightarrow> ('e, 'y) idem_world_scheme \<Rightarrow> ('e, 'y) idem_world_scheme" where
  "run_requests L [] s = s"
| "run_requests L ((rt, a, x) # qs) s = run_requests L qs (snd (execute L rt a x s))"

fun keyed_calls ::
  "'z rt_libs_scheme \<Rightarrow> string \<Rightarrow> 'e request list \<Rightarrow> ('e, 'y) idem_world_scheme \<Rightarrow> nat" where
  "keyed_calls L k [] s = 0"
| "keyed_calls L k ((rt, a, x) # qs) s =
     (let t = snd (execute L rt a x s) in
      (if ai_idempotency_key a = Some k then length (calls t) - length (calls s) else 0) +
      keyed_calls L k qs t)"

definition in_memory_keys :: "'e runtime \<Rightarrow> bool" where
  "in_memory_keys rt \<longleftrightarrow> (\<exists>clk. rt_idempotency rt = InMemoryIdempotencyBackend clk)"

lemma records_evolve_found: "records_evolve s t \<Longrightarrow> records s k \<noteq> None \<Longrightarrow> records t k \<noteq> None"
  unfolding records_evolve_def by fastforce

lemma records_evolve_completed:
  "records_evolve s t \<Longrightarrow> records s k = Some r \<Longrightarrow> ir_status r = COMPLETED \<Longrightarrow> records t k = Some r"
  unfolding records_evolve_def by fastforce

lemma execute_one_call: "length (calls (snd (execute L rt a x s))) - length (calls s) \<le> 1"
  by (simp add: execute_calls)

lemma execute_keyed_call:
  assumes "in_memory_keys rt" and k: "ai_idempotency_key a = Some k"
    and "length (calls (snd (execute L rt a x s))) - length (calls s) \<noteq> 0"
  shows "records s k = None" and "records (snd (execute L rt a x s)) k \<noteq> None"
proof -
  from assms(3) have "calls (snd (execute L rt a x s)) \<noteq> calls s" by auto
  then obtain tool held t where c: "cleared L rt a x s tool held t"
    and run: "execute L rt a x s = run_handler L rt a x tool (attempt_of rt s) held t"
    by (rule cleared_reaches)
  from assms(1) obtain clk where mem: "rt_idempotency rt = InMemoryIdempotencyBackend clk"
    by (auto simp: in_memory_keys_def)
  obtain cl :: idempotency_claim where none: "records s k = None"
    and t: "records t = (records s)(k \<mapsto> ic_record cl)"
    by (rule cleared_key[OF c k mem])
  show "records s k = None" by (rule none)
  have "records_evolve t (snd (execute L rt a x s))"
    unfolding run by (rule along_snd[OF run_handler_evolves])
  then show "records (snd (execute L rt a x s)) k \<noteq> None"
    by (rule records_evolve_found) (simp add: t)
qed

lemma execute_keeps_record: "records s k \<noteq> None \<Longrightarrow> records (snd (execute L rt a x s)) k \<noteq> None"
  by (rule records_evolve_found[OF along_snd[OF execute_evolves]])

lemma keyed_calls_bound:
  assumes "\<forall>(rt, a, x) \<in> set qs. in_memory_keys rt"
  shows "keyed_calls L k qs s \<le> (if records s k = None then 1 else 0)"
  using assms
proof (induction qs arbitrary: s)
  case (Cons q qs)
  obtain rt a x where q: "q = (rt, a, x)" by (cases q)
  let ?t = "snd (execute L rt a x s)"
  let ?n = "length (calls ?t) - length (calls s)"
  have IH: "keyed_calls L k qs ?t \<le> (if records ?t k = None then 1 else 0)"
    using Cons by simp
  have mem: "in_memory_keys rt" using Cons.prems q by simp
  show ?case
  proof (cases "ai_idempotency_key a = Some k \<and> ?n \<noteq> 0")
    case True
    then have "records s k = None" "records ?t k \<noteq> None" and key: "ai_idempotency_key a = Some k"
      using execute_keyed_call[OF mem] by blast+
    with IH have "keyed_calls L k qs ?t = 0" by simp
    with key execute_one_call[of L rt a x s] \<open>records s k = None\<close> show ?thesis by (simp add: q Let_def)
  next
    case False
    then have "keyed_calls L k (q # qs) s = keyed_calls L k qs ?t" by (auto simp: q Let_def)
    with IH execute_keeps_record[of s k L rt a x] show ?thesis by (auto split: if_splits)
  qed
qed simp

text \<open>
  At most once. However many executions of whatever actions run one after another over
  one in-memory idempotency store, the actions that carry a given key call a handler at most
  once in total, and not at all if the store already had a record for the key.
\<close>

theorem at_most_once_per_key:
  assumes "\<forall>(rt, a, x) \<in> set qs. in_memory_keys rt"
  shows "keyed_calls L k qs s \<le> (if records s k = None then 1 else 0)"
  using assms by (rule keyed_calls_bound)

theorem at_most_once_per_key_witness:
  "keyed_calls sample_rt_libs ''k''
     [(sample_runtime LOW [] echo_amount, sample_action (Some ''k''), []),
      (sample_runtime HIGH [] echo_amount, sample_action (Some ''k''), []),
      (sample_runtime LOW [] echo_amount, sample_action (Some ''k''), [])] (sample_state ()) \<le> 1"
  using at_most_once_per_key[of "[(sample_runtime LOW [] echo_amount, sample_action (Some ''k''), []),
      (sample_runtime HIGH [] echo_amount, sample_action (Some ''k''), []),
      (sample_runtime LOW [] echo_amount, sample_action (Some ''k''), [])]" sample_rt_libs "''k''" "sample_state ()"]
  by (simp add: in_memory_keys_def sample_state_def del: keyed_calls.simps)

lemma run_requests_evolve: "records_evolve s (run_requests L qs s)"
proof (induction qs arbitrary: s)
  case (Cons q qs)
  obtain rt a x where "q = (rt, a, x)" by (cases q)
  with Cons.IH[of "snd (execute L rt a x s)"] along_snd[OF execute_evolves, of s L rt a x]
  show ?case by (auto intro: recs.trans)
qed (simp add: recs.refl)

text \<open>What a run leaves under its key, and what a later execution makes of it.\<close>

lemma run_records_result:
  assumes "serializer_documented L" and "rt_idempotency rt = InMemoryIdempotencyBackend clk"
    and "execute L rt a x s = (Inr r, t)" and "calls t \<noteq> calls s"
    and "ai_idempotency_key a = Some k" and "ShortText L k = Some k"
  shows "\<exists>q. records (run_requests L qs t) k = Some q \<and> ir_status q = COMPLETED \<and>
    decode_execution_result L (ir_result q) = Inr r"
proof -
  from assms(3,4) have "calls (snd (execute L rt a x s)) \<noteq> calls s" by simp
  then obtain tool held t0 where "execute L rt a x s = run_handler L rt a x tool (attempt_of rt s) held t0"
    by (rule cleared_reaches)
  with assms(3) have "storable L r" by (metis resultsD run_handler_storable)
  with assms(1) have dec: "decode_execution_result L (model_dump L r) = Inr r"
    by (simp add: serializer_documented_def)
  from run_completes_key[OF assms(3-6,2)] obtain q where "records t k = Some q"
    and q: "ir_status q = COMPLETED" "ir_result q = model_dump L r" by blast
  then have "records (run_requests L qs t) k = Some q"
    using records_evolve_completed[OF run_requests_evolve] by blast
  with q dec show ?thesis by simp
qed

lemma recorded_key_replays:
  assumes "rt_idempotency rt = InMemoryIdempotencyBackend clk" and "ai_idempotency_key a = Some k"
    and rec: "records s k = Some q" and dec: "decode_execution_result L (ir_result q) = Inr r"
    and run: "execute L rt a x s = (Inr r', u)"
  shows "calls u = calls s \<and> (er_succeeded r' \<longrightarrow> r' = r)"
proof -
  have "length (calls u) - length (calls s) = 0"
    using execute_keyed_call(1)[of rt a k L x s] assms by (auto simp: in_memory_keys_def)
  moreover have "\<exists>new. calls u = calls s @ new" using execute_calls[of L rt a x s] run by auto
  ultimately have c: "calls u = calls s" by auto
  moreover have "r' = r" if "er_succeeded r'"
    using yieldsD[OF execute_origin[OF assms(1)] refl run] that c assms(2) rec dec
    by (auto simp: success_origin_def replayed_def)
  ultimately show ?thesis by blast
qed

text \<open>
  Replay. Once the handler has run for a key and \<^verbatim>\<open>execute\<close> has returned its result,
  every later execution with the same key, whatever ran in between, calls no handler, and if
  it reports success then the result it returns is the recorded one.
\<close>

theorem replay_returns_recorded:
  assumes "serializer_documented L"
    and "rt_idempotency rt = InMemoryIdempotencyBackend clk"
    and "execute L rt a x s = (Inr r, t)" and "calls t \<noteq> calls s"
    and "ai_idempotency_key a = Some k" and "ShortText L k = Some k"
    and "rt_idempotency rt' = InMemoryIdempotencyBackend clk'" and "ai_idempotency_key a' = Some k"
    and "execute L rt' a' x' (run_requests L qs t) = (Inr r', u)"
  shows "calls u = calls (run_requests L qs t) \<and> (er_succeeded r' \<longrightarrow> r' = r)"
proof -
  obtain q where "records (run_requests L qs t) k = Some q" "decode_execution_result L (ir_result q) = Inr r"
    using run_records_result[OF assms(1-6)] by blast
  from recorded_key_replays[OF assms(7,8) this assms(9)] show ?thesis .
qed

theorem replay_returns_recorded_witness:
  "\<exists>t u. sample_execute (sample_state ()) = (Inr sample_result, t) \<and>
     sample_execute t = (Inr sample_result, u) \<and> calls u = calls t"
proof (rule sample_first)
  fix t
  assume run: "sample_execute (sample_state ()) = (Inr sample_result, t)"
    and c: "calls t = [HandlerCall ''refund'' [(PyStr ''amount'', PyInt 5)]]"
    and "fst (sample_execute t) = Inr sample_result"
  then obtain u where u: "sample_execute t = (Inr sample_result, u)" by (metis prod.collapse)
  have "calls t \<noteq> calls (sample_state ())" using c by (simp add: sample_state_def)
  from replay_returns_recorded[OF sample_serializer_documented sample_runtime_parts(1)
      run[unfolded sample_execute_def] this sample_key sample_short sample_runtime_parts(1) sample_key,
      where qs = "[]", simplified run_requests.simps, OF u[unfolded sample_execute_def]]
  show ?thesis using run u by blast
qed

end
