(* ===== verification/Runtime_Completion.thy ===== *)
theory Runtime_Completion
  imports Runtime_Safety
begin

text \<open>
  What \<open>execute\<close> guarantees once the handler has been called: it returns a structured result
  and completes the key, for every outcome of the handler and of the checks, provided the
  clocks do not run backwards and the output is a JSON value; and what happens when the
  output is not one.
\<close>

section \<open>Time\<close>

lemma later_decision: "along later (decision L a ty rk n rs cs)"
  unfolding decision_def by (intro later_rules)

lemma later_policy_evaluate: "along later (policy_evaluate L p a c x)"
  unfolding policy_evaluate_def tool_allow_deny_evaluate_def required_permission_evaluate_def
    risk_approval_evaluate_def numeric_threshold_evaluate_def allow_def Let_def
  by (cases p) (auto intro!: later_rules later_decision split: option.split)

lemma later_compose: "along later (compose L a c ds)"
  unfolding compose_def Let_def by (intro later_rules later_decision)

lemma later_evaluate_loop: "along later (evaluate_loop L ps a c x ds)"
proof (induction ps arbitrary: ds)
  case (Cons p ps)
  then show ?case
    by (auto simp: engine_denial_def intro!: later_rules later_decision later_policy_evaluate
        split: option.split policy_answer.split)
qed (simp add: later_compose)

lemma later_evaluate: "along later (evaluate L ps a oc x)"
  unfolding evaluate_def engine_denial_def
  by (intro later_rules later_decision later_evaluate_loop)

lemma later_append_event: "along later (append_event L rt a ty tid ds)"
  unfolding append_event_def by (intro later_rules later_ledger_append)

lemma later_claim: "along later (claim L b k)"
  unfolding claim_def in_memory_claim_def
  by (cases b) (auto intro!: later_rules later_modifyM)

lemma later_is_approved: "along later (is_approved ch a c d x)"
  unfolding is_approved_def by (cases ch) (auto intro!: later_rules)

lemma later_checks: "along later (checks_pass cs a c x)"
  by (induction cs) (auto intro!: later_rules)

lemma later_call_handler: "along later (call_handler tool a)"
  unfolding call_handler_def by (intro later_rules)

text \<open>The gates take time forward, and the claim is made after the attempt has started.\<close>

lemma cleared_time:
  assumes "cleared L rt a x s tool held t"
  shows "tick s \<le> tick t" and "\<And>k cl clk. ai_idempotency_key a = Some k \<Longrightarrow> held = Some cl \<Longrightarrow>
    rt_idempotency rt = InMemoryIdempotencyBackend clk \<Longrightarrow>
    \<exists>n \<le> tick t. ir_claimed_at (ic_record cl) = clk n"
proof -
  from assms obtain s1 d s3 s5 s6 s7 where
    1: "received_event L rt a (opened s) = (Inr True, s1)"
    and 2: "evaluate L (rt_policy_engine rt) a (Some (rg_contract tool)) x
          (snd (validated_event L rt a tool s1)) = (Inr d, s3)"
    and 3: "permitted rt a (rg_contract tool) d x (snd (evaluated_event L rt a d s3)) s5"
    and 4: "holds_key L rt a (rg_contract tool) s5 held s6"
    and 5: "checks_pass (rt_preconditions rt) a (rg_contract tool) x s6 = (Inr True, s7)"
    and 6: "append_event L rt a ''execution_started''
          (Some (at_transaction_id (attempt_of rt s))) None s7 = (Inr True, t)"
    unfolding cleared_def by blast
  have ev: "later u (snd (append_event L rt a ty tid ds u))" for u ty tid ds
    by (rule along_snd[OF later_append_event])
  have "tick s \<le> tick s1" using alongD[OF later_append_event 1] by (simp add: later_def)
  moreover have "tick s1 \<le> tick s3"
    using time.trans[OF ev alongD[OF later_evaluate 2]] by (simp add: later_def)
  moreover have "tick s3 \<le> tick s5"
  proof (cases "pd_decision_type d = REQUIRE_APPROVAL")
    case True
    with 3 have "later (snd (evaluated_event L rt a d s3)) s5"
      by (auto simp: permitted_def dest: alongD[OF later_is_approved])
    from time.trans[OF ev this] show ?thesis by (simp add: later_def)
  next
    case False
    with 3 have "s5 = snd (evaluated_event L rt a d s3)" by (simp add: permitted_def)
    with ev[of s3] show ?thesis by (simp add: later_def)
  qed
  moreover have "tick s5 \<le> tick s6"
    using 4 alongD[OF later_claim] by (auto simp: holds_key_def later_def split: option.splits)
  moreover have t: "tick s6 \<le> tick t"
    using alongD[OF later_checks 5] alongD[OF later_append_event 6] by (simp add: later_def)
  ultimately show "tick s \<le> tick t" by simp
  fix k cl clk
  assume k: "ai_idempotency_key a = Some k" "held = Some cl"
    and mem: "rt_idempotency rt = InMemoryIdempotencyBackend clk"
  with 4 have c: "in_memory_claim L clk k s5 = (Inr cl, s6)" "ic_acquired cl"
    by (auto simp: holds_key_def claim_def)
  then have "records s5 k = None" by (cases "records s5 k") (auto simp: in_memory_claim_old)
  with c have "ir_claimed_at (ic_record cl) = clk (tick s5)"
    by (auto simp: in_memory_claim_new Let_def elim!: IdempotencyRecord_elim split: sum.splits)
  moreover have "tick s5 \<le> tick t" using \<open>tick s5 \<le> tick s6\<close> t by simp
  ultimately show "\<exists>n \<le> tick t. ir_claimed_at (ic_record cl) = clk n" by blast
qed

section \<open>The steps that build and store a result\<close>

lemma uuid_str_hd: "\<exists>rest. uuid_str u = hex_digit (nat (uint u div 16 ^ 31 mod 16)) # rest"
proof -
  have "rev [0..<32] = (31 :: nat) # rev [0..<31]"
    using upt_Suc[of 0 31] by (simp del: upt_Suc)
  then show ?thesis unfolding uuid_str_def uuid_hex_def Let_def by (simp del: upt_Suc)
qed

lemma LongText_uuid:
  assumes "pydantic_documented L"
  shows "\<exists>t. LongText L (uuid_str u) = Some t"
proof -
  let ?c = "hex_digit (nat (uint u div 16 ^ 31 mod 16))"
  obtain rest where u: "uuid_str u = ?c # rest" using uuid_str_hd by blast
  have c: "\<not> white_space ?c" by (rule hex_digit_plain) (simp add: nat_less_iff)
  from c have "strip_by white_space (uuid_str u) \<noteq> []" unfolding u by (rule strip_by_nonempty)
  moreover have "length (strip_by white_space (uuid_str u)) \<le> 36"
    using length_strip_by[of white_space "uuid_str u"] by simp
  ultimately show ?thesis
    by (cases "strip_by white_space (uuid_str u)")
      (auto simp: documented_text(2)[OF assms] strip_bounded_def Let_def)
qed

lemma failure_returns:
  assumes "ShortText L code = Some code" and "LongText L msg = Some m" and "json_value L out"
    and "at_started_at att \<le> rt_clock rt (tick s)"
  shows "\<exists>r. failure L rt a att code msg out pv s = (Inr r, s\<lparr>tick := Suc (tick s)\<rparr>) \<and>
    er_error r = Some \<lparr>fd_code = code, fd_message = m\<rparr> \<and> er_output r = out \<and>
    \<not> er_succeeded r \<and> er_postcondition_verified r = pv \<and> er_intent_id r = ai_intent_id a"
  using assms by (auto simp: failure_def FailureDetail_def ExecutionResult_def)

text \<open>A claim that can be completed: it is in progress, and its clock has not run backwards.\<close>

definition completable ::
  "'z rt_libs_scheme \<Rightarrow> 'e runtime \<Rightarrow> idempotency_claim option \<Rightarrow> ('e, 'y) idem_world_scheme \<Rightarrow> bool" where
  "completable L rt held s \<longleftrightarrow> (\<forall>cl. held = Some cl \<longrightarrow> (\<exists>clk n.
     rt_idempotency rt = InMemoryIdempotencyBackend clk \<and> mono clk \<and>
     ShortText L (ir_key (ic_record cl)) = Some (ir_key (ic_record cl)) \<and>
     records s (ir_key (ic_record cl)) = Some (ic_record cl) \<and>
     ir_status (ic_record cl) = IN_PROGRESS \<and> ir_claimed_at (ic_record cl) = clk n \<and> n \<le> tick s))"

lemma completable_step:
  assumes "completable L rt held s" and "records t = records s" and "later s t"
  shows "completable L rt held t"
  using assms unfolding completable_def later_def by (fastforce intro: le_trans)

lemma complete_claim_returns:
  assumes doc: "pydantic_documented L" and ser: "serializer_documented L" and r: "storable L r"
    and c: "completable L rt held s"
  shows "\<exists>t. complete_claim L rt held r s = (Inr (), t)"
proof (cases held)
  case None
  then show ?thesis by (simp add: complete_claim_def)
next
  case (Some cl)
  let ?rec = "ic_record cl"
  from c Some obtain clk n where mem: "rt_idempotency rt = InMemoryIdempotencyBackend clk"
    and mono: "mono clk" and key: "ShortText L (ir_key ?rec) = Some (ir_key ?rec)"
    and rec: "records s (ir_key ?rec) = Some ?rec" and st: "ir_status ?rec = IN_PROGRESS"
    and at: "ir_claimed_at ?rec = clk n" "n \<le> tick s"
    unfolding completable_def by blast
  obtain ref where ref: "LongText L (uuid_str (er_execution_id r)) = Some ref"
    using LongText_uuid[OF doc] by blast
  have "ir_claimed_at ?rec \<le> clk (tick s)" using at mono by (simp add: monoD)
  moreover have "json_value L (model_dump L r)" using ser r by (simp add: serializer_documented_def)
  ultimately have "\<exists>q. IdempotencyRecord L \<lparr>ir_key = ir_key ?rec, ir_owner_token = ir_owner_token ?rec,
      ir_status = COMPLETED, ir_claimed_at = ir_claimed_at ?rec, ir_completed_at = Some (clk (tick s)),
      ir_result_reference = Some (uuid_str (er_execution_id r)), ir_result = model_dump L r\<rparr> = Inr q"
    using key ref by (simp add: IdempotencyRecord_def optional_text_def)
  then obtain q t where "in_memory_mark_completed L clk (ir_key ?rec) (ir_owner_token ?rec)
      (Some (uuid_str (er_execution_id r))) (model_dump L r) s = (Inr q, t)"
    using rec st by (auto simp: in_memory_mark_completed_cases)
  then show ?thesis by (simp add: complete_claim_def Some mark_completed_def mem bindM_run)
qed

text \<open>The end of a run that fails after the handler was called.\<close>

lemma failure_finish:
  assumes doc: "pydantic_documented L" and ser: "serializer_documented L"
    and "ShortText L code = Some code" and "LongText L msg = Some m"
    and "json_value L out" and "json_dumps_ok out"
    and "at_started_at att \<le> rt_clock rt (tick s)" and c: "completable L rt held s"
  shows "\<exists>r t. bindM (failure L rt a att code msg out pv) (\<lambda>result.
      bindM (append_event L rt a ty tid (ds result)) (\<lambda>_.
      bindM (complete_claim L rt held result) (\<lambda>_. retM result))) s = (Inr r, t) \<and>
    er_error r = Some \<lparr>fd_code = code, fd_message = m\<rparr> \<and> \<not> er_succeeded r \<and>
    er_postcondition_verified r = pv"
proof -
  let ?s1 = "s\<lparr>tick := Suc (tick s)\<rparr>"
  obtain r where f: "failure L rt a att code msg out pv s = (Inr r, ?s1)"
    and r: "er_error r = Some \<lparr>fd_code = code, fd_message = m\<rparr>" "er_output r = out"
      "\<not> er_succeeded r" "er_postcondition_verified r = pv"
    using failure_returns[OF assms(3-5,7), of a pv] by blast
  let ?s2 = "snd (append_event L rt a ty tid (ds r) ?s1)"
  have "storable L r" using failure_Inr(7)[OF f] r assms(6) by (simp add: storable_def)
  moreover have "completable L rt held ?s1"
    by (rule completable_step[OF c]) (simp_all add: later_def)
  then have "completable L rt held ?s2"
    by (rule completable_step) (simp add: keeps_snd[OF append_event_records],
        rule along_snd[OF later_append_event])
  ultimately obtain t where "complete_claim L rt held r ?s2 = (Inr (), t)"
    using complete_claim_returns[OF doc ser] by blast
  with f r show ?thesis by (simp add: bindM_run)
qed

lemma runtime_texts:
  assumes "pydantic_documented L"
  shows "ShortText L ''tool_execution_failed'' = Some ''tool_execution_failed''"
    "ShortText L ''output_validation_failed'' = Some ''output_validation_failed''"
    "ShortText L ''postcondition_failed'' = Some ''postcondition_failed''"
    "LongText L ''Tool handler raised an exception.'' = Some ''Tool handler raised an exception.''"
    "LongText L ''A postcondition failed after execution.'' = Some ''A postcondition failed after execution.''"
  by (rule ShortText_plain[OF assms] LongText_plain[OF assms]; simp add: white_space_def)+

section \<open>The outcome of a run\<close>

definition acceptable_output :: "'z libs_scheme \<Rightarrow> tool_contract \<Rightarrow> pyval \<Rightarrow> bool" where
  "acceptable_output L c v \<longleftrightarrow> (json_dumps_ok v \<longrightarrow> json_shape v) \<and>
     (\<forall>m. validate_against_schema L v (ts_document (tc_output_schema c)) = Some m \<longrightarrow> length m \<le> 4096)"

lemma json_or_none_acceptable:
  "pydantic_documented L \<Longrightarrow> acceptable_output L c v \<Longrightarrow> json_value L (json_or_none v)"
  by (auto simp: json_or_none_def json_or_raise_def acceptable_output_def intro: json_documented(1))

lemma succeed_returns:
  assumes doc: "pydantic_documented L" and ser: "serializer_documented L"
    and v: "json_dumps_ok v" "json_shape v"
    and "at_started_at att \<le> rt_clock rt (tick s)" and c: "completable L rt held s"
  shows "\<exists>r t. succeed L rt a att held v s = (Inr r, t) \<and> er_succeeded r \<and> er_output r = v"
proof -
  let ?s1 = "s\<lparr>tick := Suc (tick s)\<rparr>"
  let ?r = "\<lparr>er_execution_id = at_execution_id att, er_transaction_id = at_transaction_id att,
        er_intent_id = ai_intent_id a, er_succeeded = True,
        er_started_at = at_started_at att, er_completed_at = rt_clock rt (tick s), er_output = v,
        er_error = None, er_postcondition_verified = Some True\<rparr>"
  have er: "ExecutionResult L ?r = Inr ?r"
    using assms json_documented(1)[OF doc v(2,1)] by (simp add: ExecutionResult_def)
  let ?s2 = "snd (append_event L rt a ''execution_succeeded'' (Some (at_transaction_id att)) None ?s1)"
  have "storable L ?r" using er v by (simp add: storable_def)
  moreover have "completable L rt held ?s1"
    by (rule completable_step[OF c]) (simp_all add: later_def)
  then have "completable L rt held ?s2"
    by (rule completable_step) (simp add: keeps_snd[OF append_event_records],
        rule along_snd[OF later_append_event])
  ultimately obtain t where "complete_claim L rt held ?r ?s2 = (Inr (), t)"
    using complete_claim_returns[OF doc ser] by blast
  then show ?thesis
    using v er by (simp add: succeed_def json_or_raise_def bindM_run)
qed

lemma run_handler_returns:
  fixes s :: "('e, 'y) idem_world_scheme"
  assumes doc: "pydantic_documented L" and ser: "serializer_documented L"
    and mono: "mono (rt_clock rt)" and at: "at_started_at att = rt_clock rt n" "n \<le> tick s"
    and c: "completable L rt held s"
    and out: "\<And>v. fst (rg_handler tool (ai_arguments a) (ext s)) = Returned v \<Longrightarrow>
      acceptable_output L (rg_contract tool) v"
  shows "\<exists>r t. run_handler L rt a x tool att held s = (Inr r, t)"
proof -
  let ?o = "fst (rg_handler tool (ai_arguments a) (ext s))"
  let ?s1 = "s\<lparr>calls := calls s @ [HandlerCall (ai_tool_name a) (ai_arguments a)],
     ext := snd (rg_handler tool (ai_arguments a) (ext s))\<rparr>"
  have time: "at_started_at att \<le> rt_clock rt (tick u)" if "later s u" for u :: "('e, 'y) idem_world_scheme"
    using at that mono by (auto simp: later_def intro: monoD)
  have l1: "later s ?s1" by (simp add: later_def)
  have c1: "completable L rt held ?s1" by (rule completable_step[OF c]) (simp_all add: later_def)
  show ?thesis
  proof (cases ?o)
    case Raised
    with failure_finish[OF doc ser runtime_texts(1,4)[OF doc] _ _ time[OF l1] c1,
        where out = PyNone and a = a and pv = "Some False" and ty = "''execution_failed''"
          and tid = "Some (at_transaction_id att)"
          and ds = "\<lambda>result. Some [(PyStr ''code'', PyStr (case er_error result of
              Some detail \<Rightarrow> fd_code detail | None \<Rightarrow> ''unknown''))]"]
      json_documented(1)[OF doc, of PyNone]
    show ?thesis
      by (auto simp: run_handler_def call_handler_run tryM_def bindM_def[of "tryM _"]
          Let_def simp del: append_event_then)
  next
    case (Returned v)
    have ov: "acceptable_output L (rg_contract tool) v" by (rule out[OF Returned])
    have run: "run_handler L rt a x tool att held s = check_output L rt a x (rg_contract tool) att held v ?s1"
      using Returned by (simp add: run_handler_def bindM_def[of "tryM _"] call_handler_run tryM_def Let_def)
    show ?thesis
    proof (cases "validate_against_schema L v (ts_document (tc_output_schema (rg_contract tool)))")
      case (Some m)
      with ov have "length m \<le> 4096" by (simp add: acceptable_output_def)
      from schema_message_text[OF doc Some this] obtain m' where "LongText L m = Some m'" by blast
      from failure_finish[OF doc ser runtime_texts(2)[OF doc] this json_or_none_acceptable[OF doc ov]
          json_or_none_dumps time[OF l1] c1, where a = a and pv = "Some False"
          and ty = "''output_validation_failed''" and tid = "Some (at_transaction_id att)"
          and ds = "\<lambda>_. Some [(PyStr ''message'', PyStr m)]"]
      show ?thesis unfolding run check_output_def by (simp add: Some del: append_event_then) blast
    next
      case None
      then have v: "json_dumps_ok v" by (simp add: validate_against_schema_None conforms_json)
      with ov have shape: "json_shape v" by (simp add: acceptable_output_def)
      obtain passed s2 where p: "checks_pass (rt_postconditions rt) a (rg_contract tool) x ?s1 = (Inr passed, s2)"
        using checks_pass_returns by blast
      have l2: "later s s2" using time.trans[OF l1 alongD[OF later_checks p]] .
      have c2: "completable L rt held s2"
        using keepsD[OF checks_records p] alongD[OF later_checks p]
        by (intro completable_step[OF c1]) simp_all
      show ?thesis
      proof (cases passed)
        case True
        with succeed_returns[OF doc ser v shape time[OF l2] c2, where a = a] p show ?thesis
          unfolding run check_output_def check_postconditions_def
          by (auto simp: None bindM_run)
      next
        case False
        with failure_finish[OF doc ser runtime_texts(3,5)[OF doc] json_or_none_acceptable[OF doc ov]
            json_or_none_dumps time[OF l2] c2, where a = a and pv = "Some False"
            and ty = "''postcondition_failed''" and tid = "Some (at_transaction_id att)"
            and ds = "\<lambda>_. None"] p show ?thesis
          unfolding run check_output_def check_postconditions_def
          by (auto simp: None bindM_run simp del: append_event_then)
      qed
    qed
  qed
qed

section \<open>From the whole pipeline\<close>

lemma cleared_completable:
  assumes cl: "cleared L rt a x s tool held t"
    and mem: "rt_idempotency rt = InMemoryIdempotencyBackend clk" and "mono clk"
    and key: "\<And>k. ai_idempotency_key a = Some k \<Longrightarrow> ShortText L k = Some k"
  shows "completable L rt held t"
proof (cases "ai_idempotency_key a")
  case None
  with cl have "held = None" by (auto simp: cleared_def holds_key_def)
  then show ?thesis by (simp add: completable_def)
next
  case (Some k)
  from cleared_key[OF cl Some mem] obtain c where c: "held = Some c"
    "records t = (records s)(k \<mapsto> ic_record c)" "ShortText L k = Some (ir_key (ic_record c))"
    "ir_status (ic_record c) = IN_PROGRESS" by blast
  with cleared_time(2)[OF cl Some c(1) mem] key[OF Some] mem \<open>mono clk\<close> show ?thesis
    by (auto simp: completable_def)
qed

lemma plain_codes: "pydantic_documented L \<Longrightarrow> plain_codes L"
  by (simp add: plain_codes_def runtime_texts)

lemma handler_called_returns:
  assumes doc: "pydantic_documented L" and ser: "serializer_documented L"
    and mem: "rt_idempotency rt = InMemoryIdempotencyBackend clk" "mono clk"
    and mono: "mono (rt_clock rt)"
    and key: "\<And>k. ai_idempotency_key a = Some k \<Longrightarrow> ShortText L k = Some k"
    and tool: "get_tool (rt_registry rt) (ai_tool_name a) = Inr tool"
    and out: "\<And>e v. fst (rg_handler tool (ai_arguments a) e) = Returned v \<Longrightarrow>
      acceptable_output L (rg_contract tool) v"
    and called: "calls (snd (execute L rt a x s)) \<noteq> calls s"
  obtains held u r t where "cleared L rt a x s tool held u" and "execute L rt a x s = (Inr r, t)"
    and "handler_outcome L rt a x (rg_contract tool) (handler_call tool a u) r"
proof -
  from called obtain tool' held u where cl: "cleared L rt a x s tool' held u"
    and run: "execute L rt a x s = run_handler L rt a x tool' (attempt_of rt s) held u"
    by (rule cleared_reaches)
  have [simp]: "tool' = tool" using cl tool by (auto simp: cleared_def)
  have "at_started_at (attempt_of rt s) = rt_clock rt (tick s)" by (simp add: attempt_of_def)
  from run_handler_returns[OF doc ser mono this cleared_time(1)[OF cl] cleared_completable[OF cl mem key],
      where tool = tool and a = a and x = x] out
  obtain r t where r: "run_handler L rt a x tool (attempt_of rt s) held u = (Inr r, t)" by blast
  from run_handler_exact(2)[OF r plain_codes[OF doc]] r run cl show thesis by (intro that) simp_all
qed

text \<open>
  C13: Once the handler has been called, \<^verbatim>\<open>execute\<close> returns a structured result that says
  what this very call did. If the handler raised, the result is a failure
  \<^verbatim>\<open>tool_execution_failed\<close>; otherwise, if its output does not conform to the output schema, a
  failure \<^verbatim>\<open>output_validation_failed\<close>; otherwise, if a postcondition, asked in order from the
  world that the handler left, did not return true, a failure \<^verbatim>\<open>postcondition_failed\<close>; and
  otherwise, and only then, a success with that output. The failures after an output carry it
  if it can be serialized. And the key of the action is then completed with that result. This is
  what the code does also where docs/security-invariants.md asks for an indeterminate outcome
  (INV-EXE-03): a handler that raised may have taken effect, yet the result is a plain
  failure, recorded as completed. It holds for the in-memory store and every ledger, for
  clocks of the store and of the runtime that do not run backwards, for a key that the text
  type leaves as it is, and for outputs in which whatever is serializable is a JSON value and
  whose validation message, if any, is no longer than a failure message may be.
\<close>

theorem handler_outcome_reported:
  assumes "pydantic_documented L" and "serializer_documented L"
    and "rt_idempotency rt = InMemoryIdempotencyBackend clk" and "mono clk"
    and "mono (rt_clock rt)"
    and "\<And>k. ai_idempotency_key a = Some k \<Longrightarrow> ShortText L k = Some k"
    and "get_tool (rt_registry rt) (ai_tool_name a) = Inr tool"
    and "\<And>e v. fst (rg_handler tool (ai_arguments a) e) = Returned v \<Longrightarrow>
      acceptable_output L (rg_contract tool) v"
    and "calls (snd (execute L rt a x s)) \<noteq> calls s"
  shows "\<exists>held u r t. cleared L rt a x s tool held u \<and> execute L rt a x s = (Inr r, t) \<and>
    handler_outcome L rt a x (rg_contract tool) (rg_handler tool (ai_arguments a) (ext u)) r \<and>
    (\<forall>k. ai_idempotency_key a = Some k \<longrightarrow> (\<exists>q. records t k = Some q \<and> ir_status q = COMPLETED \<and>
       ir_result q = model_dump L r))"
proof -
  obtain held u r t where cl: "cleared L rt a x s tool held u" and run: "execute L rt a x s = (Inr r, t)"
    and o: "handler_outcome L rt a x (rg_contract tool) (rg_handler tool (ai_arguments a) (ext u)) r"
    by (rule handler_called_returns[OF assms(1-5) _ assms(7) _ assms(9)]) (use assms(6,8) in auto)
  have "calls t \<noteq> calls s" using assms(9) run by simp
  from run_completes_key[OF run this _ _ assms(3)] assms(6) run o cl show ?thesis by blast
qed

theorem handler_outcome_reported_witness:
  "\<exists>u r t. sample_execute (sample_state ()) = (Inr r, t) \<and>
    handler_outcome sample_rt_libs (sample_runtime LOW [] echo_amount) (sample_action (Some ''k'')) []
      (sample_contract LOW) (Returned (PyInt 5), u) r \<and>
    (\<exists>q. records t ''k'' = Some q \<and> ir_status q = COMPLETED \<and> ir_result q = model_dump sample_rt_libs r)"
proof (rule sample_first)
  fix t
  assume run: "sample_execute (sample_state ()) = (Inr sample_result, t)"
    and "calls t = [HandlerCall ''refund'' [(PyStr ''amount'', PyInt 5)]]"
  let ?rt = "sample_runtime LOW [] echo_amount :: unit runtime" and ?a = "sample_action (Some ''k'')"
  have echo: "echo_amount (ai_arguments ?a) e = (Returned (PyInt 5), e)" for e
    by (simp add: echo_amount_def sample_action_def dict_get_def)
  have ok: "acceptable_output sample_rt_libs (sample_contract LOW) (PyInt 5)"
    by (simp add: acceptable_output_def sample_contract_def validate_against_schema_def dict_get_def
        validate_value.simps[of _ "PyInt 5"] validate_minimum_def json_or_raise_def)
  have "\<exists>held u r t. cleared sample_rt_libs ?rt ?a [] (sample_state ())
      \<lparr>rg_contract = sample_contract LOW, rg_handler = echo_amount\<rparr> held u \<and>
    execute sample_rt_libs ?rt ?a [] (sample_state ()) = (Inr r, t) \<and>
    handler_outcome sample_rt_libs ?rt ?a [] (sample_contract LOW) (echo_amount (ai_arguments ?a) (ext u)) r \<and>
    (\<forall>k. ai_idempotency_key ?a = Some k \<longrightarrow> (\<exists>q. records t k = Some q \<and> ir_status q = COMPLETED \<and>
       ir_result q = model_dump sample_rt_libs r))"
    using handler_outcome_reported[OF sample_rt_libs_documented sample_serializer_documented
        sample_runtime_parts(1), of LOW "[]" echo_amount ?a
        "\<lparr>rg_contract = sample_contract LOW, rg_handler = echo_amount\<rparr>" "[]" "sample_state ()"]
      run \<open>calls t = _\<close>
    by (simp add: echo ok mono_def sample_tool sample_key sample_short sample_execute_def sample_state_def)
  then show ?thesis by (auto simp: sample_execute_def sample_key echo)
qed

text \<open>
  C34: The case the guarantee excludes is real. If the handler returns a value that
  \<^verbatim>\<open>json.dumps\<close> accepts and the output schema accepts but that is not a \<^verbatim>\<open>JsonValue\<close> (a
  tuple, or a dict with a key that is not text), then, when the postconditions hold in
  whatever world the handler leaves, \<^verbatim>\<open>execute\<close> raises instead of returning a result although
  the handler has run, and the key is left in progress. The store is the in-memory one.
\<close>

theorem unserializable_output_strands_key:
  assumes "pydantic_documented L"
    and "rt_idempotency rt = InMemoryIdempotencyBackend clk" and "ai_idempotency_key a = Some k"
    and "get_tool (rt_registry rt) (ai_tool_name a) = Inr tool"
    and "\<And>e. checks_hold (rt_postconditions rt) a (rg_contract tool) x
      (snd (rg_handler tool (ai_arguments a) e))"
    and "\<And>e. \<exists>v. fst (rg_handler tool (ai_arguments a) e) = Returned v \<and> \<not> json_shape v \<and>
      validate_against_schema L v (ts_document (tc_output_schema (rg_contract tool))) = None"
    and "calls (snd (execute L rt a x s)) \<noteq> calls s"
  shows "\<exists>e t q. execute L rt a x s = (Inl e, t) \<and> records t k = Some q \<and> ir_status q = IN_PROGRESS"
proof -
  from assms(7) obtain tool' held t0 where cl: "cleared L rt a x s tool' held t0"
    and run: "execute L rt a x s = run_handler L rt a x tool' (attempt_of rt s) held t0"
    by (rule cleared_reaches)
  have [simp]: "tool' = tool" using cl assms(4) by (auto simp: cleared_def)
  from cleared_key[OF cl assms(3,2)] obtain c where c: "held = Some c"
    "records t0 = (records s)(k \<mapsto> ic_record c)" "ir_status (ic_record c) = IN_PROGRESS" by blast
  obtain v where v: "fst (rg_handler tool (ai_arguments a) (ext t0)) = Returned v" "\<not> json_shape v"
    "validate_against_schema L v (ts_document (tc_output_schema (rg_contract tool))) = None"
    using assms(6) by blast
  have "\<not> json_value L v" using v(2) json_documented(2)[OF assms(1)] by blast
  then have no: "\<exists>e. ExecutionResult L r = Inl e" if "er_output r = v" for r
    using that ExecutionResult_iff[of L r] by (cases "ExecutionResult L r") auto
  let ?s1 = "t0\<lparr>calls := calls t0 @ [HandlerCall (ai_tool_name a) (ai_arguments a)],
     ext := snd (rg_handler tool (ai_arguments a) (ext t0))\<rparr>"
  from checks_pass_returns[of "rt_postconditions rt" a "rg_contract tool" x ?s1] assms(5)[of "ext t0"]
  obtain s2 where s2: "checks_pass (rt_postconditions rt) a (rg_contract tool) x ?s1 = (Inr True, s2)"
    by auto
  have "run_handler L rt a x tool (attempt_of rt s) held t0 = succeed L rt a (attempt_of rt s) held v s2"
    using v s2
    by (simp add: run_handler_def bindM_def[of "tryM _"] call_handler_run tryM_def Let_def
        check_output_def check_postconditions_def bindM_run)
  moreover have "\<exists>e. succeed L rt a (attempt_of rt s) held v s2 = (Inl e, s2\<lparr>tick := Suc (tick s2)\<rparr>)"
    using v(3) no[of "\<lparr>er_execution_id = at_execution_id (attempt_of rt s),
        er_transaction_id = at_transaction_id (attempt_of rt s), er_intent_id = ai_intent_id a,
        er_succeeded = True, er_started_at = at_started_at (attempt_of rt s),
        er_completed_at = rt_clock rt (tick s2), er_output = v, er_error = None,
        er_postcondition_verified = Some True\<rparr>"]
    by (auto simp: succeed_def json_or_raise_def validate_against_schema_None dest: conforms_json)
  moreover have "records s2 = records t0" using keepsD[OF checks_records s2] by simp
  ultimately show ?thesis using run c by auto
qed

definition untyped_contract :: tool_contract where
  "untyped_contract = (sample_contract LOW)\<lparr>tc_output_schema :=
     \<lparr>ts_name = ''out'', ts_document = [(PyStr ''title'', PyStr ''Receipt'')]\<rparr>\<rparr>"

definition pair_handler :: "unit handler" where
  "pair_handler args e = (Returned (PyTuple [PyInt 1, PyInt 2]), e)"

definition untyped_runtime :: "unit runtime" where
  "untyped_runtime = SingleActionRuntime int
     \<lparr>registrations = [(''refund'', \<lparr>rg_contract = untyped_contract, rg_handler = pair_handler\<rparr>)]\<rparr>
     [] None None None [] [\<lambda>a c x e. (Returned True, e)] None"

lemma untyped_calls: "calls (snd (execute sample_rt_libs untyped_runtime (sample_action (Some ''k'')) []
    (sample_state ()))) = [HandlerCall ''refund'' [(PyStr ''amount'', PyInt 5)]]"
  by code_simp

theorem unserializable_output_strands_key_witness:
  "\<exists>e t q. execute sample_rt_libs untyped_runtime (sample_action (Some ''k'')) [] (sample_state ()) =
     (Inl e, t) \<and> records t ''k'' = Some q \<and> ir_status q = IN_PROGRESS"
proof (rule unserializable_output_strands_key[OF sample_rt_libs_documented])
  let ?tool = "\<lparr>rg_contract = untyped_contract, rg_handler = pair_handler\<rparr>"
  show "rt_idempotency untyped_runtime = InMemoryIdempotencyBackend int"
    by (simp add: untyped_runtime_def SingleActionRuntime_def)
  show "checks_hold (rt_postconditions untyped_runtime) (sample_action (Some ''k'')) (rg_contract ?tool) []
      (snd (rg_handler ?tool (ai_arguments (sample_action (Some ''k''))) e))" for e
    by (simp add: untyped_runtime_def SingleActionRuntime_def)
  show "ai_idempotency_key (sample_action (Some ''k'')) = Some ''k''" by (rule sample_key)
  show "get_tool (rt_registry untyped_runtime) (ai_tool_name (sample_action (Some ''k''))) = Inr ?tool"
    by (simp add: untyped_runtime_def SingleActionRuntime_def get_tool_def sample_action_def)
  show "calls (snd (execute sample_rt_libs untyped_runtime (sample_action (Some ''k'')) [] (sample_state ())))
      \<noteq> calls (sample_state ())"
    by (simp add: untyped_calls) (simp add: sample_state_def)
  show "\<exists>v. fst (rg_handler ?tool (ai_arguments (sample_action (Some ''k''))) e) = Returned v \<and> \<not> json_shape v \<and>
      validate_against_schema sample_rt_libs v (ts_document (tc_output_schema (rg_contract ?tool))) = None" for e
    by (simp add: pair_handler_def untyped_contract_def validate_against_schema_def dict_get_def
        validate_value.simps[of _ "PyTuple _"] json_or_raise_def)
qed

end
