(* ===== verification/Runtime_Audit.thy ===== *)
theory Runtime_Audit
  imports Runtime_Completion
begin

text \<open>
  The audit trail of an execution, and that an action that deserves to run does run.
\<close>

section \<open>The trail\<close>

lemma execute_trail:
  assumes "execute L rt a x s = (r, t)" and "ledger_inv (events s)"
  shows "\<exists>new. events t = events s @ new \<and> map le_sequence_number (events t) = [1..<length (events t) + 1] \<and>
    (\<forall>e \<in> set new. le_correlation_id e = ai_intent_id a)"
  using alongD[OF execute_audit assms(1)] assms(2)
  by (auto simp: audit_extends_def dest: ledger_inv_sequence)

text \<open>
  The ledger is append-only and ordered under the runtime: an execution, whether it
  returns or raises, keeps every earlier event in place, leaves the sequence numbers
  \<open>1, 2, 3, ...\<close> without gaps, and correlates every event it adds to its own intent.
\<close>

theorem audit_trail:
  assumes "execute L rt a x s = (r, t)" and "ledger_inv (events s)"
  shows "\<exists>new. events t = events s @ new \<and> map le_sequence_number (events t) = [1..<length (events t) + 1] \<and>
    (\<forall>e \<in> set new. le_correlation_id e = ai_intent_id a)"
  using assms by (rule execute_trail)

theorem audit_trail_witness:
  "\<exists>t. sample_execute (sample_state ()) = (Inr sample_result, t) \<and>
     map le_sequence_number (events t) = [1..<length (events t) + 1] \<and>
     (\<forall>e \<in> set (events t). le_correlation_id e = 40)"
proof (rule sample_first)
  fix t
  assume run: "sample_execute (sample_state ()) = (Inr sample_result, t)"
  have inv: "ledger_inv (events (sample_state ()))" by (simp add: ledger_inv_def sample_state_def)
  from audit_trail[OF run[unfolded sample_execute_def] inv] run show ?thesis
    by (simp add: sample_state_def sample_action_def)
qed

section \<open>No call without its events\<close>

definition runtime_event :: "action_intent \<Rightarrow> string \<Rightarrow> uuid option \<Rightarrow> ledger_event \<Rightarrow> bool" where
  "runtime_event a ty tid e \<longleftrightarrow> le_event_type e = ty \<and> le_correlation_id e = ai_intent_id a \<and>
     le_intent_id e = Some (ai_intent_id a) \<and> le_transaction_id e = tid"

lemma append_event_recorded:
  assumes run: "append_event L rt a ty tid ds s = (Inr True, t)"
    and mem: "rt_ledger rt = InMemoryLedger clk" and ty: "DomainName L ty = Some ty"
  shows "\<exists>e. events t = events s @ [e] \<and> runtime_event a ty tid e"
proof -
  let ?rq = "\<lparr>rq_correlation_id = ai_intent_id a, rq_event_type = ty, rq_intent_id = Some (ai_intent_id a),
      rq_transaction_id = tid, rq_actor_id = None, rq_details = ds\<rparr>"
  from run have ok: "\<exists>e. fst (in_memory_append L clk ?rq s) = Inr e"
    and t: "t = snd (in_memory_append L clk ?rq s)"
    by (auto simp: append_event_def ledger_append_def mem bindM_cases tryM_def split: prod.splits sum.splits)
  show ?thesis
  proof (cases rule: in_memory_append_cases[of L clk ?rq s])
    case (stored ev)
    with t ty show ?thesis by (auto simp: runtime_event_def)
  next
    case (rejected e)
    with ok show ?thesis by simp
  qed
qed

lemma runtime_event_names:
  assumes "pydantic_documented L"
  shows "DomainName L ''action_received'' = Some ''action_received''"
    "DomainName L ''contract_validated'' = Some ''contract_validated''"
    "DomainName L ''policy_evaluated'' = Some ''policy_evaluated''"
    "DomainName L ''execution_started'' = Some ''execution_started''"
  by (rule DomainName_plain[OF assms];
      simp add: domain_name_form_def lower_alpha_def decimal_digit_def)+

text \<open>
  No handler call without its audit events. When the runtime has an in-memory ledger and
  the handler was called, the ledger holds, after the events it held before, an
  \<^verbatim>\<open>action_received\<close> event of the intent and, later, an \<^verbatim>\<open>execution_started\<close> event of the
  intent and of the transaction of this attempt.
\<close>

theorem calls_are_audited:
  fixes s :: "('e, 'y) idem_world_scheme"
  assumes "pydantic_documented L" and "rt_ledger rt = InMemoryLedger clk"
    and "calls (snd (execute L rt a x s)) \<noteq> calls s"
  shows "\<exists>received mid started rest.
    events (snd (execute L rt a x s)) = events s @ received # mid @ started # rest \<and>
    runtime_event a ''action_received'' None received \<and>
    runtime_event a ''execution_started'' (Some (at_transaction_id (attempt_of rt s))) started"
proof -
  from assms(3) obtain tool held t where c: "cleared L rt a x s tool held t"
    and run: "execute L rt a x s = run_handler L rt a x tool (attempt_of rt s) held t"
    by (rule cleared_reaches)
  from c obtain s1 d s3 s5 s6 s7 where
    1: "received_event L rt a (opened s) = (Inr True, s1)"
    and 2: "evaluate L (rt_policy_engine rt) a (Some (rg_contract tool)) x
          (snd (validated_event L rt a tool s1)) = (Inr d, s3)"
    and 3: "permitted rt a (rg_contract tool) d x (snd (evaluated_event L rt a d s3)) s5"
    and 4: "holds_key L rt a (rg_contract tool) s5 held s6"
    and 5: "checks_pass (rt_preconditions rt) a (rg_contract tool) x s6 = (Inr True, s7)"
    and 6: "append_event L rt a ''execution_started''
          (Some (at_transaction_id (attempt_of rt s))) None s7 = (Inr True, t)"
    unfolding cleared_def by blast
  let ?R = "audit_extends (ai_intent_id a) :: ('e, 'y) idem_world_scheme \<Rightarrow> _"
  have "?R s1 s3"
    using audit.trans[OF along_snd[OF append_event_audit] alongD[OF keeps_audit[OF beyond_events[OF keeps_evaluate]] 2]] .
  moreover have "?R s3 s5"
  proof -
    have "?R s3 (snd (evaluated_event L rt a d s3))" by (rule along_snd[OF append_event_audit])
    then show ?thesis
      using 3 by (auto simp: permitted_def intro: audit.trans alongD[OF is_approved_audit] split: if_splits)
  qed
  moreover have "?R s5 s6"
    using 4 by (auto simp: holds_key_def audit.refl dest: alongD[OF keeps_audit_world(3)] split: option.splits)
  moreover have "?R s6 s7" by (rule alongD[OF keeps_audit[OF checks_events] 5])
  ultimately have "?R s1 s7" by (blast intro: audit.trans)
  then obtain mid where mid: "events s7 = events s1 @ mid" by (auto simp: audit_extends_def)
  obtain e1 where e1: "events s1 = events s @ [e1]" "runtime_event a ''action_received'' None e1"
    using append_event_recorded[OF 1 assms(2) runtime_event_names(1)[OF assms(1)]] by auto
  obtain e2 where e2: "events t = events s7 @ [e2]"
      "runtime_event a ''execution_started'' (Some (at_transaction_id (attempt_of rt s))) e2"
    using append_event_recorded[OF 6 assms(2) runtime_event_names(4)[OF assms(1)]] by auto
  obtain rest where "events (snd (execute L rt a x s)) = events t @ rest"
    using along_snd[OF run_handler_audit[of a L rt x tool "attempt_of rt s" held], of t]
    unfolding run by (auto simp: audit_extends_def)
  with e1 e2 mid have "events (snd (execute L rt a x s)) = events s @ e1 # mid @ e2 # rest" by simp
  with e1 e2 show ?thesis by blast
qed

theorem calls_are_audited_witness:
  "\<exists>t received mid started rest. sample_execute (sample_state ()) = (Inr sample_result, t) \<and>
     events t = received # mid @ started # rest \<and> le_event_type received = ''action_received'' \<and>
     le_event_type started = ''execution_started'' \<and> le_transaction_id started = Some 1"
proof (rule sample_first)
  fix t
  assume run: "sample_execute (sample_state ()) = (Inr sample_result, t)"
    and c: "calls t = [HandlerCall ''refund'' [(PyStr ''amount'', PyInt 5)]]"
  from run have run': "execute sample_rt_libs (sample_runtime LOW [] echo_amount)
      (sample_action (Some ''k'')) [] (sample_state ()) = (Inr sample_result, t)"
    by (simp add: sample_execute_def)
  have "calls (snd (execute sample_rt_libs (sample_runtime LOW [] echo_amount)
      (sample_action (Some ''k'')) [] (sample_state ()))) \<noteq> calls (sample_state ())"
    using run' c by (simp add: sample_state_def)
  from calls_are_audited[OF sample_rt_libs_documented sample_runtime_parts(2) this] run run'
  show ?thesis by (auto simp: runtime_event_def attempt_of_def sample_state_def)
qed

section \<open>Actions that deserve to run\<close>

lemma append_event_ok:
  assumes "rt_ledger rt = InMemoryLedger clk" and "DomainName L ty = Some ty"
    and "JsonObject L (case ds of None \<Rightarrow> [] | Some d \<Rightarrow> d)"
  shows "\<exists>t. append_event L rt a ty tid ds s = (Inr True, t)"
proof -
  let ?rq = "\<lparr>rq_correlation_id = ai_intent_id a, rq_event_type = ty, rq_intent_id = Some (ai_intent_id a),
      rq_transaction_id = tid, rq_actor_id = None, rq_details = ds\<rparr>"
  have "\<exists>e t. ledger_append L (rt_ledger rt) ?rq s = (Inr e, t)"
    using in_memory_append_ok[of L ?rq clk s] assms by (simp add: ledger_append_def)
  then obtain e t where "ledger_append L (rt_ledger rt) ?rq s = (Inr e, t)" by blast
  then show ?thesis by (simp add: append_event_def bindM_def tryM_def)
qed

lemma text_details: "pydantic_documented L \<Longrightarrow> JsonObject L [(PyStr n, PyStr v)]"
  by (simp add: JsonObject_def json_documented(1))

lemma checks_all_pass:
  assumes "\<And>f e. f \<in> set cs \<Longrightarrow> fst (f a c x e) = Returned True"
  shows "\<exists>t. checks_pass cs a c x s = (Inr True, t)"
  using assms
proof (induction cs arbitrary: s)
  case (Cons f cs)
  have "fst (f a c x (ext s)) = Returned True" by (rule Cons.prems) simp
  then obtain u where "tryM (call_user (f a c x)) s = (Inr (Some True), u)"
    by (cases "f a c x (ext s)") (auto simp: tryM_def call_user_def)
  with Cons.IH[of u] Cons.prems show ?case by (auto simp: bindM_run)
qed simp

lemma claim_fresh:
  assumes doc: "pydantic_documented L" and "rt_idempotency rt = InMemoryIdempotencyBackend clk"
    and "ShortText L k = Some k" and "records s k = None"
  shows "\<exists>cl t. claim L (rt_idempotency rt) k s = (Inr cl, t) \<and> ic_acquired cl"
  using assms json_documented(1)[OF doc, of PyNone]
  by (simp add: claim_def in_memory_claim_new Let_def IdempotencyRecord_IN_PROGRESS)

lemma action_runs:
  fixes s :: "('e, 'y) idem_world_scheme"
  assumes doc: "pydantic_documented L"
    and led: "rt_ledger rt = InMemoryLedger lclk"
    and mem: "rt_idempotency rt = InMemoryIdempotencyBackend clk"
    and tool: "get_tool (rt_registry rt) (ai_tool_name a) = Inr tool"
    and m: "action_matches_contract a (rg_contract tool)"
    and args: "conforms (PyDict (ai_arguments a)) (ts_document (tc_input_schema (rg_contract tool)))"
    and pol: "\<And>w :: ('e, 'y) idem_world_scheme. \<exists>d w'. evaluate L (rt_policy_engine rt) a
      (Some (rg_contract tool)) x w = (Inr d, w') \<and> pd_decision_type d \<in> {ALLOW, ALLOW_WITH_CONSTRAINTS}"
    and key: "ai_idempotency_key a = Some k" "ShortText L k = Some k" "records s k = None"
    and pre: "\<And>f e. f \<in> set (rt_preconditions rt) \<Longrightarrow> fst (f a (rg_contract tool) x e) = Returned True"
  shows "calls (snd (execute L rt a x s)) = calls s @ [HandlerCall (ai_tool_name a) (ai_arguments a)]"
proof -
  note names = runtime_event_names[OF doc]
  obtain s1 where 1: "received_event L rt a (opened s) = (Inr True, s1)"
    using append_event_ok[OF led names(1), of "Some [(PyStr ''tool_name'', PyStr (ai_tool_name a))]"]
      text_details[OF doc] by fastforce
  obtain d s3 where 2: "evaluate L (rt_policy_engine rt) a (Some (rg_contract tool)) x
      (snd (validated_event L rt a tool s1)) = (Inr d, s3)"
    and d: "pd_decision_type d \<in> {ALLOW, ALLOW_WITH_CONSTRAINTS}" using pol by blast
  let ?s5 = "snd (evaluated_event L rt a d s3)"
  have 3: "permitted rt a (rg_contract tool) d x ?s5 ?s5" using d by (auto simp: permitted_def)
  have "records s1 = records s" using keepsD[OF append_event_records 1] by simp
  moreover have "records s3 = records s1"
    using keepsD[OF evaluate_records 2] by (simp add: keeps_snd[OF append_event_records])
  ultimately have "records ?s5 k = None"
    using key(3) by (simp add: keeps_snd[OF append_event_records])
  then obtain cl s6 where 4: "holds_key L rt a (rg_contract tool) ?s5 (Some cl) s6"
    using claim_fresh[OF doc mem key(2), of ?s5] key(1) by (auto simp: holds_key_def)
  obtain s7 where 5: "checks_pass (rt_preconditions rt) a (rg_contract tool) x s6 = (Inr True, s7)"
    using checks_all_pass[of "rt_preconditions rt" a "rg_contract tool" x s6] pre by blast
  obtain t where 6: "append_event L rt a ''execution_started''
      (Some (at_transaction_id (attempt_of rt s))) None s7 = (Inr True, t)"
    using append_event_ok[OF led names(4), of None] by fastforce
  have "cleared L rt a x s tool (Some cl) t"
    unfolding cleared_def using 1 tool m args 2 3 4 5 6 by (auto simp: validate_against_schema_None)
  then show ?thesis by (auto simp: execute_calls)
qed

text \<open>
  C28: An action that deserves to run does run. With an in-memory ledger and idempotency
  store, if the tool is registered, the intent matches its contract, the arguments conform,
  the engine allows the action in whatever state it is asked, the key (required or not) is
  fresh, and every precondition returns true, then the handler is called, once, with the
  arguments of the intent.
\<close>

theorem allowed_action_runs:
  fixes s :: "('e, 'y) idem_world_scheme"
  assumes doc: "pydantic_documented L"
    and led: "rt_ledger rt = InMemoryLedger lclk"
    and mem: "rt_idempotency rt = InMemoryIdempotencyBackend clk"
    and tool: "get_tool (rt_registry rt) (ai_tool_name a) = Inr tool"
    and m: "action_matches_contract a (rg_contract tool)"
    and args: "conforms (PyDict (ai_arguments a)) (ts_document (tc_input_schema (rg_contract tool)))"
    and pol: "\<And>w :: ('e, 'y) idem_world_scheme. \<exists>d w'. evaluate L (rt_policy_engine rt) a
      (Some (rg_contract tool)) x w = (Inr d, w') \<and> pd_decision_type d \<in> {ALLOW, ALLOW_WITH_CONSTRAINTS}"
    and key: "ai_idempotency_key a = Some k" "ShortText L k = Some k" "records s k = None"
    and pre: "\<And>f e. f \<in> set (rt_preconditions rt) \<Longrightarrow> fst (f a (rg_contract tool) x e) = Returned True"
  shows "calls (snd (execute L rt a x s)) = calls s @ [HandlerCall (ai_tool_name a) (ai_arguments a)]"
  using assms by (rule action_runs)

lemma no_policies_allow:
  fixes w :: "('e, 'y) world_scheme"
  assumes "pydantic_documented L" and "action_matches_contract a c" and "tc_risk_level c < HIGH"
  shows "\<exists>d w'. evaluate L [] a (Some c) x w = (Inr d, w') \<and> pd_decision_type d \<in> {ALLOW, ALLOW_WITH_CONSTRAINTS}"
proof -
  have "returns_instances L ([] :: 'e policy list)" by (simp add: returns_instances_def)
  moreover have "required_strictness a c [] = 0"
    using assms(3) by (simp add: required_strictness_def answered_all_def not_le)
  ultimately obtain d where d: "fst (evaluate L [] a (Some c) x w) = Inr d"
    and "strictness (pd_decision_type d) = 0"
    using engine_outcome[OF assms(1) _ assms(2), of "[]" x w] by (auto split: sum.splits)
  then have "pd_decision_type d \<in> {ALLOW, ALLOW_WITH_CONSTRAINTS}"
    by (cases "pd_decision_type d") simp_all
  with d show ?thesis by (metis prod.collapse)
qed

theorem allowed_action_runs_witness:
  "calls (snd (execute sample_rt_libs (sample_runtime MEDIUM [] echo_amount) (sample_action (Some ''k'')) []
     (sample_state ()))) = [HandlerCall ''refund'' [(PyStr ''amount'', PyInt 5)]]"
proof -
  let ?tool = "\<lparr>rg_contract = sample_contract MEDIUM, rg_handler = echo_amount\<rparr>"
  have m: "action_matches_contract (sample_action (Some ''k'')) (sample_contract MEDIUM)"
    by (simp add: action_matches_contract_def sample_action_def sample_contract_def)
  have "calls (snd (execute sample_rt_libs (sample_runtime MEDIUM [] echo_amount) (sample_action (Some ''k'')) []
     (sample_state ()))) = calls (sample_state ()) @ [HandlerCall (ai_tool_name (sample_action (Some ''k'')))
     (ai_arguments (sample_action (Some ''k'')))]"
  proof (rule allowed_action_runs[OF sample_rt_libs_documented sample_runtime_parts(2,1),
        where tool = ?tool and k = "''k''"])
    show "get_tool (rt_registry (sample_runtime MEDIUM [] echo_amount))
        (ai_tool_name (sample_action (Some ''k''))) = Inr ?tool"
      by (simp add: sample_tool)
    show "action_matches_contract (sample_action (Some ''k'')) (rg_contract ?tool)" using m by simp
    have "validate_against_schema sample_rt_libs (PyDict (ai_arguments (sample_action (Some ''k''))))
        (ts_document (tc_input_schema (rg_contract ?tool))) = None"
      by (simp add: sample_action_def sample_contract_def validate_against_schema_def dict_get_def
          validate_value.simps[of _ "PyDict _"] json_or_raise_def)
    then show "conforms (PyDict (ai_arguments (sample_action (Some ''k''))))
        (ts_document (tc_input_schema (rg_contract ?tool)))"
      by (simp add: validate_against_schema_None)
    show "\<exists>d w'. evaluate sample_rt_libs (rt_policy_engine (sample_runtime MEDIUM [] echo_amount))
        (sample_action (Some ''k'')) (Some (rg_contract ?tool)) [] w = (Inr d, w') \<and>
        pd_decision_type d \<in> {ALLOW, ALLOW_WITH_CONSTRAINTS}" for w :: "unit idem_world"
      using no_policies_allow[OF sample_rt_libs_documented m, of "[]" w]
      by (simp add: sample_contract_def risk_less_rank)
  qed (simp_all add: sample_key sample_short sample_state_def)
  then show ?thesis by (simp add: sample_action_def sample_state_def)
qed

section \<open>Actions that have run\<close>

lemma allowed_reaches_key:
  fixes s :: "('e, 'y) idem_world_scheme"
  assumes doc: "pydantic_documented L" and led: "rt_ledger rt = InMemoryLedger lclk"
    and tool: "get_tool (rt_registry rt) (ai_tool_name a) = Inr tool"
    and m: "action_matches_contract a (rg_contract tool)"
    and args: "conforms (PyDict (ai_arguments a)) (ts_document (tc_input_schema (rg_contract tool)))"
    and pol: "\<And>w :: ('e, 'y) idem_world_scheme. \<exists>d w'. evaluate L (rt_policy_engine rt) a
      (Some (rg_contract tool)) x w = (Inr d, w') \<and> pd_decision_type d \<in> {ALLOW, ALLOW_WITH_CONSTRAINTS}"
  shows "\<exists>u. execute L rt a x s = reserve_key L rt a x tool (attempt_of rt s) u \<and>
    calls u = calls s \<and> records u = records s"
proof -
  let ?att = "attempt_of rt s"
  note names = runtime_event_names[OF doc]
  obtain s1 where 1: "received_event L rt a (opened s) = (Inr True, s1)"
    using append_event_ok[OF led names(1), of "Some [(PyStr ''tool_name'', PyStr (ai_tool_name a))]"]
      text_details[OF doc] by fastforce
  obtain d s3 where 2: "evaluate L (rt_policy_engine rt) a (Some (rg_contract tool)) x
      (snd (validated_event L rt a tool s1)) = (Inr d, s3)"
    and d: "pd_decision_type d \<in> {ALLOW, ALLOW_WITH_CONSTRAINTS}" using pol by blast
  let ?u = "snd (evaluated_event L rt a d s3)"
  have "validate_against_schema L (PyDict (ai_arguments a))
      (ts_document (tc_input_schema (rg_contract tool))) = None"
    using args by (simp add: validate_against_schema_None)
  then have "execute L rt a x s = check_policy L rt a x tool ?att s1"
    using 1 tool m by (simp add: execute_eq bindM_run resolve_def check_contract_def)
  also have "\<dots> = check_approval L rt a x tool ?att d ?u"
    by (rule check_policy_eq[OF 2])
  also have "\<dots> = reserve_key L rt a x tool ?att ?u"
    using d by (auto simp: check_approval_def)
  finally have run: "execute L rt a x s = reserve_key L rt a x tool ?att ?u" .
  have keep: "keeps calls (append_event L rt a ty tid ds)"
    "keeps calls (evaluate L (rt_policy_engine rt) a (Some (rg_contract tool)) x)" for ty tid ds
    by (intro keeps_intros beyond_calls[OF keeps_evaluate])+
  then have "calls s1 = calls s" "calls s3 = calls s1"
    using keepsD[OF keep(1) 1] keepsD[OF keep(2) 2] by (simp_all add: keeps_snd[OF keep(1)])
  moreover have "records s1 = records s" "records s3 = records s1"
    using keepsD[OF append_event_records 1] keepsD[OF evaluate_records 2]
    by (simp_all add: keeps_snd[OF append_event_records])
  ultimately show ?thesis
    using run by (intro exI[of _ ?u]) (simp add: keeps_snd[OF append_event_records] keeps_snd[OF keep(1)])
qed

lemma recorded_key_returned:
  fixes s :: "('e, 'y) idem_world_scheme"
  assumes "pydantic_documented L" and "rt_ledger rt = InMemoryLedger lclk"
    and mem: "rt_idempotency rt = InMemoryIdempotencyBackend clk"
    and "get_tool (rt_registry rt) (ai_tool_name a) = Inr tool"
    and "action_matches_contract a (rg_contract tool)"
    and "conforms (PyDict (ai_arguments a)) (ts_document (tc_input_schema (rg_contract tool)))"
    and "\<And>w :: ('e, 'y) idem_world_scheme. \<exists>d w'. evaluate L (rt_policy_engine rt) a
      (Some (rg_contract tool)) x w = (Inr d, w') \<and> pd_decision_type d \<in> {ALLOW, ALLOW_WITH_CONSTRAINTS}"
    and key: "ai_idempotency_key a = Some k" "records s k = Some q" "ir_status q = COMPLETED"
      "ir_result q \<noteq> PyNone" "decode_execution_result L (ir_result q) = Inr r"
  shows "\<exists>t. execute L rt a x s = (Inr r, t) \<and> calls t = calls s \<and> records t = records s"
proof -
  obtain u where u: "execute L rt a x s = reserve_key L rt a x tool (attempt_of rt s) u"
    "calls u = calls s" "records u = records s"
    using allowed_reaches_key[OF assms(1,2,4-7)] by blast
  have "claim L (rt_idempotency rt) k u = (Inr \<lparr>ic_record = q, ic_acquired = False\<rparr>, u)"
    using u(3) key(2) by (simp add: mem claim_def in_memory_claim_def)
  with u(1) key(1,3-5) have "execute L rt a x s = (Inr r, snd (append_event L rt a
      ''idempotency_replayed'' None (Some [(PyStr ''status'', PyStr ''completed'')]) u))"
    by (simp add: reserve_key_def bindM_run replay_def)
  moreover have keep: "keeps calls (append_event L rt a ty tid ds)" for ty tid ds by (intro keeps_intros)
  ultimately show ?thesis
    using u(2,3) by (simp add: keeps_snd[OF append_event_records] keeps_snd[OF keep])
qed

text \<open>
  A repeated action is answered. With an in-memory ledger and idempotency store, if an
  action that deserves to run carries a key under which a result is recorded, then \<^verbatim>\<open>execute\<close>
  returns this result and no handler is called.
\<close>

theorem recorded_result_returned:
  fixes s :: "('e, 'y) idem_world_scheme"
  assumes "pydantic_documented L" and "rt_ledger rt = InMemoryLedger lclk"
    and mem: "rt_idempotency rt = InMemoryIdempotencyBackend clk"
    and "get_tool (rt_registry rt) (ai_tool_name a) = Inr tool"
    and "action_matches_contract a (rg_contract tool)"
    and "conforms (PyDict (ai_arguments a)) (ts_document (tc_input_schema (rg_contract tool)))"
    and "\<And>w :: ('e, 'y) idem_world_scheme. \<exists>d w'. evaluate L (rt_policy_engine rt) a
      (Some (rg_contract tool)) x w = (Inr d, w') \<and> pd_decision_type d \<in> {ALLOW, ALLOW_WITH_CONSTRAINTS}"
    and key: "ai_idempotency_key a = Some k" "records s k = Some q" "ir_status q = COMPLETED"
      "ir_result q \<noteq> PyNone" "decode_execution_result L (ir_result q) = Inr r"
  shows "\<exists>t. execute L rt a x s = (Inr r, t) \<and> calls t = calls s \<and> records t = records s"
  using assms by (rule recorded_key_returned)

theorem recorded_result_returned_witness:
  "\<exists>t u. sample_execute (sample_state ()) = (Inr sample_result, t) \<and>
     sample_execute t = (Inr sample_result, u) \<and> calls u = calls t"
proof (rule sample_first)
  fix t
  assume run: "sample_execute (sample_state ()) = (Inr sample_result, t)"
    and c: "calls t = [HandlerCall ''refund'' [(PyStr ''amount'', PyInt 5)]]"
  note run' = run[unfolded sample_execute_def]
  let ?a = "sample_action (Some ''k'')"
  let ?tool = "\<lparr>rg_contract = sample_contract LOW, rg_handler = echo_amount\<rparr>"
  have m: "action_matches_contract ?a (sample_contract LOW)"
    by (simp add: action_matches_contract_def sample_action_def sample_contract_def)
  have "calls t \<noteq> calls (sample_state ())" using c by (simp add: sample_state_def)
  then obtain q where q: "records t ''k'' = Some q" "ir_status q = COMPLETED"
    "ir_result q = model_dump sample_rt_libs sample_result"
    using run_completes_key[OF run' _ sample_key sample_short sample_runtime_parts(1)] by blast
  have dec: "decode_execution_result sample_rt_libs (ir_result q) = Inr sample_result" "ir_result q \<noteq> PyNone"
    by (simp_all add: q(3) decode_execution_result_def sample_rt_libs_def sample_round_trip)
      (simp_all add: sample_dump_def sample_result_def dump_detail_def dump_flag_def)
  have "validate_against_schema sample_rt_libs (PyDict (ai_arguments ?a))
      (ts_document (tc_input_schema (rg_contract ?tool))) = None"
    by (simp add: sample_action_def sample_contract_def validate_against_schema_def dict_get_def
        validate_value.simps[of _ "PyDict _"] json_or_raise_def)
  then have conf: "conforms (PyDict (ai_arguments ?a)) (ts_document (tc_input_schema (rg_contract ?tool)))"
    by (simp add: validate_against_schema_None)
  have pol: "\<exists>d w'. evaluate sample_rt_libs (rt_policy_engine (sample_runtime LOW [] echo_amount)) ?a
      (Some (rg_contract ?tool)) [] w = (Inr d, w') \<and> pd_decision_type d \<in> {ALLOW, ALLOW_WITH_CONSTRAINTS}"
    for w :: "unit idem_world"
    using no_policies_allow[OF sample_rt_libs_documented m, of "[]" w]
    by (simp add: sample_contract_def risk_less_rank)
  have "get_tool (rt_registry (sample_runtime LOW [] echo_amount)) (ai_tool_name ?a) = Inr ?tool"
    by (simp add: sample_tool)
  from recorded_result_returned[OF sample_rt_libs_documented sample_runtime_parts(2,1) this _ conf pol
      sample_key q(1,2) dec(2,1)] m
  obtain u where "sample_execute t = (Inr sample_result, u)" "calls u = calls t"
    by (auto simp: sample_execute_def)
  with run show ?thesis by blast
qed

text \<open>
  C33: A changed intent under a used key is not a conflict. When a run of one action has
  completed its key and another action, with any other tool, arguments and intent, deserves
  to run and carries the same key, then \<^verbatim>\<open>execute\<close> does not run it and answers with the result
  of the first one, which bears the intent of the first action.
\<close>

theorem changed_intent_replayed:
  fixes s :: "('e, 'y) idem_world_scheme"
  assumes "serializer_documented L" and "rt_idempotency rt = InMemoryIdempotencyBackend clk"
    and "execute L rt a x s = (Inr r, t)" and "calls t \<noteq> calls s" and "model_dump L r \<noteq> PyNone"
    and "ai_idempotency_key a = Some k" and "ShortText L k = Some k"
    and "pydantic_documented L" and "rt_ledger rt' = InMemoryLedger lclk"
    and "rt_idempotency rt' = InMemoryIdempotencyBackend clk'"
    and "get_tool (rt_registry rt') (ai_tool_name a') = Inr tool"
    and "action_matches_contract a' (rg_contract tool)"
    and "conforms (PyDict (ai_arguments a')) (ts_document (tc_input_schema (rg_contract tool)))"
    and "\<And>w :: ('e, 'y) idem_world_scheme. \<exists>d w'. evaluate L (rt_policy_engine rt') a'
      (Some (rg_contract tool)) x' w = (Inr d, w') \<and> pd_decision_type d \<in> {ALLOW, ALLOW_WITH_CONSTRAINTS}"
    and "ai_idempotency_key a' = Some k"
  shows "\<exists>u. execute L rt' a' x' t = (Inr r, u) \<and> calls u = calls t \<and> er_intent_id r = ai_intent_id a"
proof -
  from assms(3,4) have "calls (snd (execute L rt a x s)) \<noteq> calls s" by simp
  then obtain tool0 held t0 where "execute L rt a x s = run_handler L rt a x tool0 (attempt_of rt s) held t0"
    by (rule cleared_reaches)
  then have ran: "run_handler L rt a x tool0 (attempt_of rt s) held t0 = (Inr r, t)" using assms(3) by simp
  have intent: "er_intent_id r = ai_intent_id a" by (rule resultsD[OF run_handler_intent ran])
  have "storable L r" by (rule resultsD[OF run_handler_storable ran])
  with assms(1) have "decode_execution_result L (model_dump L r) = Inr r"
    by (simp add: serializer_documented_def)
  moreover from run_completes_key[OF assms(3,4,6,7,2)] obtain q where
    q: "records t k = Some q" "ir_status q = COMPLETED" "ir_result q = model_dump L r" by blast
  ultimately have "ir_result q \<noteq> PyNone" "decode_execution_result L (ir_result q) = Inr r"
    using assms(5) by simp_all
  from recorded_key_returned[OF assms(8-15) q(1,2) this] intent show ?thesis by blast
qed

text \<open>A refund of 7 answered with the refund of 5.\<close>

definition other_action :: action_intent where
  "other_action = (sample_action (Some ''k''))\<lparr>ai_intent_id := 41, ai_arguments := [(PyStr ''amount'', PyInt 7)]\<rparr>"

theorem changed_intent_replayed_witness:
  "\<exists>t u. sample_execute (sample_state ()) = (Inr sample_result, t) \<and>
     execute sample_rt_libs (sample_runtime LOW [] echo_amount) other_action [] t = (Inr sample_result, u) \<and>
     calls u = calls t \<and> er_intent_id sample_result = 40 \<and> ai_intent_id other_action = 41"
proof (rule sample_first)
  fix t
  assume run: "sample_execute (sample_state ()) = (Inr sample_result, t)"
    and c: "calls t = [HandlerCall ''refund'' [(PyStr ''amount'', PyInt 5)]]"
  let ?rt = "sample_runtime LOW [] echo_amount :: unit runtime"
  let ?tool = "\<lparr>rg_contract = sample_contract LOW, rg_handler = echo_amount\<rparr>"
  have m: "action_matches_contract other_action (sample_contract LOW)"
    by (simp add: action_matches_contract_def other_action_def sample_action_def sample_contract_def)
  have ran: "calls t \<noteq> calls (sample_state ())" using c by (simp add: sample_state_def)
  have dump: "model_dump sample_rt_libs sample_result \<noteq> PyNone"
    by (simp add: sample_rt_libs_def sample_dump_def)
  have "validate_against_schema sample_rt_libs (PyDict (ai_arguments other_action))
      (ts_document (tc_input_schema (rg_contract ?tool))) = None"
    by (simp add: other_action_def sample_action_def sample_contract_def validate_against_schema_def dict_get_def
        validate_value.simps[of _ "PyDict _"] json_or_raise_def)
  then have conf: "conforms (PyDict (ai_arguments other_action)) (ts_document (tc_input_schema (rg_contract ?tool)))"
    by (simp add: validate_against_schema_None)
  have pol: "\<exists>d w'. evaluate sample_rt_libs (rt_policy_engine ?rt) other_action
      (Some (rg_contract ?tool)) [] w = (Inr d, w') \<and> pd_decision_type d \<in> {ALLOW, ALLOW_WITH_CONSTRAINTS}"
    for w :: "unit idem_world"
    using no_policies_allow[OF sample_rt_libs_documented m, of "[]" w]
    by (simp add: sample_contract_def risk_less_rank)
  have tool: "get_tool (rt_registry ?rt) (ai_tool_name other_action) = Inr ?tool"
    using sample_tool[of LOW echo_amount "Some ''k''"] by (simp add: other_action_def)
  have key: "ai_idempotency_key other_action = Some ''k''" by (simp add: other_action_def sample_action_def)
  have "\<exists>u. execute sample_rt_libs ?rt other_action [] t = (Inr sample_result, u) \<and> calls u = calls t \<and>
      er_intent_id sample_result = ai_intent_id (sample_action (Some ''k''))"
    using changed_intent_replayed[OF sample_serializer_documented sample_runtime_parts(1)
        run[unfolded sample_execute_def] ran dump sample_key sample_short sample_rt_libs_documented
        sample_runtime_parts(2,1) tool _ conf pol key] m by simp
  with run show ?thesis by (auto simp: other_action_def sample_action_def)
qed

end
