(* ===== verification/Audit_Trail.thy ===== *)
theory Audit_Trail
  imports Runtime_Audit
begin

text \<open>
  What the audit ledger says of an execution. The control flow of \<open>execute\<close> is a finite set
  of paths, and each path leaves its own sequence of events: this theory lists the paths with
  the outcome each of them ends in, and shows that every result the runtime returns comes
  with exactly the events of one of them.
\<close>

section \<open>The stories of an execution\<close>

text \<open>
  A mark is what an event shows of its place in the execution: its type and the transaction
  it belongs to. A story is the marks of one path, with the result the path ends in.
\<close>

type_synonym mark = "string \<times> uuid option"

datatype ending = Succeeds | FailsAfterCall string | FailsBeforeCall string | Busy | Replays

definition fails :: "string \<Rightarrow> execution_result \<Rightarrow> bool" where
  "fails code r \<longleftrightarrow> \<not> er_succeeded r \<and>
     (case er_error r of Some d \<Rightarrow> fd_code d = code | None \<Rightarrow> False)"

text \<open>The result is the one that the call of the handler, made from this start, deserves.\<close>

definition reported ::
  "'z rt_libs_scheme \<Rightarrow> 'e runtime \<Rightarrow> action_intent \<Rightarrow> json_object \<Rightarrow> ('e, 'y) idem_world_scheme \<Rightarrow>
   execution_result \<Rightarrow> bool" where
  "reported L rt a x s r \<longleftrightarrow> (\<exists>tool held u. cleared L rt a x s tool held u \<and>
     handler_outcome L rt a x (rg_contract tool) (rg_handler tool (ai_arguments a) (ext u)) r)"

text \<open>The record that the store holds under the key of an action.\<close>

definition key_record ::
  "(string \<Rightarrow> idempotency_record option) \<Rightarrow> action_intent \<Rightarrow> (idempotency_record \<Rightarrow> bool) \<Rightarrow> bool" where
  "key_record m a P \<longleftrightarrow> (\<exists>k q. ai_idempotency_key a = Some k \<and> m k = Some q \<and> P q)"

definition answered :: "'z rt_libs_scheme \<Rightarrow> execution_result \<Rightarrow> idempotency_record \<Rightarrow> bool" where
  "answered L r q \<longleftrightarrow> ir_status q = COMPLETED \<and> decode_execution_result L (ir_result q) = Inr r"

definition unanswered :: "idempotency_record \<Rightarrow> bool" where
  "unanswered q \<longleftrightarrow> ir_status q = IN_PROGRESS \<or> ir_result q = PyNone"

fun ends_with ::
  "'z rt_libs_scheme \<Rightarrow> 'e runtime \<Rightarrow> action_intent \<Rightarrow> json_object \<Rightarrow> ('e, 'y) idem_world_scheme \<Rightarrow>
   ending \<Rightarrow> execution_result \<Rightarrow> call list \<Rightarrow> bool" where
  "ends_with L rt a x s Succeeds r cs \<longleftrightarrow> er_succeeded r \<and> er_error r = None \<and> reported L rt a x s r \<and>
     cs = [HandlerCall (ai_tool_name a) (ai_arguments a)]"
| "ends_with L rt a x s (FailsAfterCall code) r cs \<longleftrightarrow> fails code r \<and> reported L rt a x s r \<and>
     cs = [HandlerCall (ai_tool_name a) (ai_arguments a)]"
| "ends_with L rt a x s (FailsBeforeCall code) r cs \<longleftrightarrow> fails code r \<and> cs = []"
| "ends_with L rt a x s Busy r cs \<longleftrightarrow>
     fails ''idempotency_in_progress'' r \<and> key_record (records s) a unanswered \<and> cs = []"
| "ends_with L rt a x s Replays r cs \<longleftrightarrow> key_record (records s) a (answered L r) \<and> cs = []"

definition handler_stories :: "uuid \<Rightarrow> (mark list \<times> ending) list" where
  "handler_stories tid =
     [([(''execution_failed'', Some tid)], FailsAfterCall ''tool_execution_failed''),
      ([(''output_validation_failed'', Some tid)], FailsAfterCall ''output_validation_failed''),
      ([(''postcondition_failed'', Some tid)], FailsAfterCall ''postcondition_failed''),
      ([(''execution_succeeded'', Some tid)], Succeeds)]"

definition key_stories :: "uuid \<Rightarrow> (mark list \<times> ending) list" where
  "key_stories tid =
     [([(''idempotency_key_missing'', None)], FailsBeforeCall ''idempotency_key_missing''),
      ([(''idempotency_replayed'', None)], Busy),
      ([(''idempotency_replayed'', None)], Replays),
      ([(''precondition_failed'', None)], FailsBeforeCall ''precondition_failed'')] @
     map (apfst (Cons (''execution_started'', Some tid))) (handler_stories tid)"

definition policy_stories :: "uuid \<Rightarrow> (mark list \<times> ending) list" where
  "policy_stories tid =
     [([], FailsBeforeCall ''policy_denied''),
      ([(''approval_required'', None)], FailsBeforeCall ''approval_required'')] @ key_stories tid"

definition stories :: "uuid \<Rightarrow> (mark list \<times> ending) list" where
  "stories tid = map (apfst (Cons (''action_received'', None)))
     ([([(''tool_unknown'', None)], FailsBeforeCall ''unknown_tool''),
       ([(''contract_mismatch'', None)], FailsBeforeCall ''contract_mismatch''),
       ([(''input_validation_failed'', None)], FailsBeforeCall ''input_validation_failed'')] @
      map (apfst (append [(''contract_validated'', None), (''policy_evaluated'', None)]))
        (policy_stories tid))"

section \<open>Actions that leave a story\<close>

text \<open>
  \<open>leaves a R Q m\<close>: when \<open>m\<close> starts with the records \<open>R\<close>, or with any records if \<open>R\<close> is
  \<open>None\<close>, and returns a result, then the marks of the events and the calls it added satisfy
  \<open>Q\<close> together with the result.
\<close>

definition marked :: "action_intent \<Rightarrow> mark list \<Rightarrow> ledger_event list \<Rightarrow> bool" where
  "marked a ms es \<longleftrightarrow> list_all2 (\<lambda>m. runtime_event a (fst m) (snd m)) ms es"

type_synonym key_store = "string \<Rightarrow> idempotency_record option"

definition holding :: "key_store option \<Rightarrow> ('e, 'y) idem_world_scheme \<Rightarrow> bool" where
  "holding R s \<longleftrightarrow> (case R of None \<Rightarrow> True | Some m \<Rightarrow> records s = m)"

definition left ::
  "action_intent \<Rightarrow> (mark list \<Rightarrow> call list \<Rightarrow> bool) \<Rightarrow> ('e, 'y) idem_world_scheme \<Rightarrow>
   ('e, 'y) idem_world_scheme \<Rightarrow> bool" where
  "left a P s t \<longleftrightarrow> (\<exists>ms new cs. events t = events s @ new \<and> calls t = calls s @ cs \<and>
     marked a ms new \<and> P ms cs)"

definition leaves ::
  "action_intent \<Rightarrow> key_store option \<Rightarrow> (mark list \<Rightarrow> call list \<Rightarrow> 'a \<Rightarrow> bool) \<Rightarrow>
   (('e, 'y) idem_world_scheme, 'a) action \<Rightarrow> bool" where
  "leaves a R Q m \<longleftrightarrow> (\<forall>s r t. holding R s \<longrightarrow> m s = (Inr r, t) \<longrightarrow> left a (\<lambda>ms cs. Q ms cs r) s t)"

lemma leftI:
  "events t = events s @ new \<Longrightarrow> calls t = calls s @ cs \<Longrightarrow> marked a ms new \<Longrightarrow> P ms cs \<Longrightarrow> left a P s t"
  by (auto simp: left_def)

lemma left_nothing: "events t = events s \<Longrightarrow> calls t = calls s \<Longrightarrow> P [] [] \<Longrightarrow> left a P s t"
  by (rule leftI[of _ _ "[]" "[]" _ "[]"]) (simp_all add: marked_def)

lemma left_from: "left a P u t \<Longrightarrow> events u = events s \<Longrightarrow> calls u = calls s \<Longrightarrow> left a P s t"
  by (simp add: left_def)

lemma leavesI:
  "(\<And>s r t. holding R s \<Longrightarrow> m s = (Inr r, t) \<Longrightarrow> left a (\<lambda>ms cs. Q ms cs r) s t) \<Longrightarrow> leaves a R Q m"
  by (simp add: leaves_def)

lemma leavesD: "leaves a R Q m \<Longrightarrow> holding R s \<Longrightarrow> m s = (Inr r, t) \<Longrightarrow> left a (\<lambda>ms cs. Q ms cs r) s t"
  unfolding leaves_def by blast

lemma holding_any [simp]: "holding None s"
  by (simp add: holding_def)

lemma holding_keeps: "holding R s \<Longrightarrow> keeps records m \<Longrightarrow> m s = (r, t) \<Longrightarrow> holding R t"
  by (auto simp: holding_def dest: keepsD split: option.splits)

lemma leaves_mono: "leaves a R Q m \<Longrightarrow> (\<And>ms cs r. Q ms cs r \<Longrightarrow> Q' ms cs r) \<Longrightarrow> leaves a R Q' m"
  unfolding leaves_def left_def by blast

lemma leaves_any: "leaves a None Q m \<Longrightarrow> leaves a R Q m"
  unfolding leaves_def by simp

lemma leaves_quiet:
  assumes "keeps beyond m" and "results P m" and "\<And>r. P r \<Longrightarrow> Q [] [] r"
  shows "leaves a R Q m"
proof (rule leavesI)
  fix s r t
  assume run: "m s = (Inr r, t)"
  show "left a (\<lambda>ms cs. Q ms cs r) s t"
    using assms(3)[OF resultsD[OF assms(2) run]] run
    by (intro left_nothing keepsD[OF beyond_events[OF assms(1)]] keepsD[OF beyond_calls[OF assms(1)]])
qed

lemma leaves_retM: "Q [] [] r \<Longrightarrow> leaves a R Q (retM r)"
  by (rule leaves_quiet[where P = "\<lambda>x. x = r"]) (auto simp: keeps_def results_def)

lemma leaves_knowing:
  assumes "keeps beyond m" and "results P m" and "\<And>x. P x \<Longrightarrow> leaves a R Q (k x)"
  shows "leaves a R Q (bindM m k)"
proof (rule leavesI)
  fix s r t
  assume h: "holding R s" and "bindM m k s = (Inr r, t)"
  from this(2) obtain x u where m: "m s = (Inr x, u)" and k: "k x u = (Inr r, t)" by (rule bindM_Inr_elim)
  have "left a (\<lambda>ms cs. Q ms cs r) u t"
    by (rule leavesD[OF assms(3)[OF resultsD[OF assms(2) m]]
          holding_keeps[OF h beyond_records[OF assms(1)] m] k])
  then show "left a (\<lambda>ms cs. Q ms cs r) s t"
    by (rule left_from[OF _ keepsD[OF beyond_events[OF assms(1)] m] keepsD[OF beyond_calls[OF assms(1)] m]])
qed

lemma leaves_silent: "keeps beyond m \<Longrightarrow> (\<And>x. leaves a R Q (k x)) \<Longrightarrow> leaves a R Q (bindM m k)"
  by (rule leaves_knowing[where P = "\<lambda>_. True"]) (simp_all add: results_def)

text \<open>A step on the store: what follows starts from records that are not the first ones.\<close>

lemma leaves_store:
  assumes "keeps events m" and "keeps calls m" and "\<And>x. leaves a None Q (k x)"
  shows "leaves a R Q (bindM m k)"
proof (rule leavesI)
  fix s r t
  assume "bindM m k s = (Inr r, t)"
  then obtain x u where m: "m s = (Inr x, u)" and k: "k x u = (Inr r, t)" by (rule bindM_Inr_elim)
  from leavesD[OF assms(3) _ k] keepsD[OF assms(1) m] keepsD[OF assms(2) m]
  show "left a (\<lambda>ms cs. Q ms cs r) s t" by (simp add: left_from)
qed

lemma leaves_claim:
  assumes mem: "rt_idempotency rt = InMemoryIdempotencyBackend clk"
    and old: "\<And>c. \<not> ic_acquired c \<Longrightarrow> m k = Some (ic_record c) \<Longrightarrow> leaves a None Q (h c)"
    and new: "\<And>c. ic_acquired c \<Longrightarrow> leaves a None Q (h c)"
  shows "leaves a (Some m) Q (bindM (claim L (rt_idempotency rt) k) h)"
proof (rule leavesI)
  fix s r t
  assume R: "holding (Some m) s" and "bindM (claim L (rt_idempotency rt) k) h s = (Inr r, t)"
  from this(2) obtain c u where c: "claim L (rt_idempotency rt) k s = (Inr c, u)" and h: "h c u = (Inr r, t)"
    by (rule bindM_Inr_elim)
  have "leaves a None Q (h c)"
  proof (cases "ic_acquired c")
    case False
    with c R have "m k = Some (ic_record c)"
      by (cases "m k") (auto simp: holding_def claim_def mem in_memory_claim_new in_memory_claim_old Let_def
          split: sum.splits)
    with False show ?thesis by (rule old)
  qed (rule new)
  from leavesD[OF this _ h] keepsD[OF keeps_idempotency(1) c] keepsD[OF idempotency_keeps_events(1) c]
  show "left a (\<lambda>ms cs. Q ms cs r) s t" by (simp add: left_from)
qed

lemma leaves_mark:
  fixes L :: "'z rt_libs_scheme"
  assumes led: "rt_ledger rt = InMemoryLedger clk" and ty: "DomainName L ty = Some ty"
    and ds: "JsonObject L (case ds of None \<Rightarrow> [] | Some d \<Rightarrow> d)"
    and k: "leaves a R (\<lambda>ms. Q ((ty, tid) # ms)) (k True)"
  shows "leaves a R Q (bindM (append_event L rt a ty tid ds) k)"
proof (rule leavesI)
  fix s r t
  assume h: "holding R s" and run: "bindM (append_event L rt a ty tid ds) k s = (Inr r, t)"
  obtain u where m: "append_event L rt a ty tid ds s = (Inr True, u)"
    using append_event_ok[OF led ty ds] by blast
  obtain e where e: "events u = events s @ [e]" "runtime_event a ty tid e"
    using append_event_recorded[OF m led ty] by blast
  have calls: "calls u = calls s" using m by (rule keepsD[rotated]) (intro keeps_intros)
  from run m have "k True u = (Inr r, t)" by (simp add: bindM_run)
  with leavesD[OF k holding_keeps[OF h append_event_records m]]
  obtain ms new cs where "events t = events u @ new" "calls t = calls u @ cs" "marked a ms new"
    "Q ((ty, tid) # ms) cs r" unfolding left_def by blast
  with e calls show "left a (\<lambda>ms cs. Q ms cs r) s t"
    by (intro leftI[of _ _ "e # new" cs _ "(ty, tid) # ms"]) (simp_all add: marked_def)
qed

lemma leaves_call:
  assumes "\<And>y. leaves a R (\<lambda>ms cs. Q ms (HandlerCall (ai_tool_name a) (ai_arguments a) # cs)) (k y)"
  shows "leaves a R Q (bindM (tryM (call_handler tool a)) k)"
proof (rule leavesI)
  fix s r t
  assume h: "holding R s" and "bindM (tryM (call_handler tool a)) k s = (Inr r, t)"
  from this(2) obtain y u where m: "tryM (call_handler tool a) s = (Inr y, u)" and k: "k y u = (Inr r, t)"
    by (rule bindM_Inr_elim)
  have calls: "calls u = calls s @ [HandlerCall (ai_tool_name a) (ai_arguments a)]"
    using m by (auto simp: tryM_def call_handler_run Let_def split: outcome.splits)
  from leavesD[OF assms holding_keeps[OF h keeps_tryM[OF call_handler_records] m] k]
  obtain ms new cs where "events t = events u @ new" "calls t = calls u @ cs" "marked a ms new"
    "Q ms (HandlerCall (ai_tool_name a) (ai_arguments a) # cs) r" unfolding left_def by blast
  with calls keepsD[OF keeps_tryM[OF call_handler_events] m] show "left a (\<lambda>ms cs. Q ms cs r) s t"
    by (intro leftI[of _ _ new "HandlerCall (ai_tool_name a) (ai_arguments a) # cs" _ ms]) simp_all
qed

lemma leaves_if:
  "(c \<Longrightarrow> leaves a R Q m) \<Longrightarrow> (\<not> c \<Longrightarrow> leaves a R Q n) \<Longrightarrow> leaves a R Q (if c then m else n)"
  by simp

lemma leaves_case_option:
  "(x = None \<Longrightarrow> leaves a R Q m) \<Longrightarrow> (\<And>y. x = Some y \<Longrightarrow> leaves a R Q (n y)) \<Longrightarrow>
   leaves a R Q (case x of None \<Rightarrow> m | Some y \<Rightarrow> n y)"
  by (cases x) simp_all

lemma leaves_case_sum:
  "(\<And>y. x = Inl y \<Longrightarrow> leaves a R Q (m y)) \<Longrightarrow> (\<And>z. x = Inr z \<Longrightarrow> leaves a R Q (n z)) \<Longrightarrow>
   leaves a R Q (case x of Inl y \<Rightarrow> m y | Inr z \<Rightarrow> n z)"
  by (cases x) simp_all

lemma story_types:
  "list_all2 (\<lambda>(ty, tid). runtime_event a ty tid) ms es \<Longrightarrow> map le_event_type es = map fst ms"
  by (induction ms es rule: list_all2_induct) (auto simp: runtime_event_def)

text \<open>
  What the stages themselves know of the ending they come to: the code, whether the handler
  was called, and the record that a replay or a refusal was read from. \<open>m\<close> is the store at
  the start.
\<close>

fun comes_to ::
  "'z rt_libs_scheme \<Rightarrow> key_store \<Rightarrow> action_intent \<Rightarrow> ending \<Rightarrow> call list \<Rightarrow> execution_result \<Rightarrow> bool" where
  "comes_to L m a Succeeds cs r \<longleftrightarrow> er_succeeded r \<and> er_error r = None \<and> cs \<noteq> []"
| "comes_to L m a (FailsAfterCall code) cs r \<longleftrightarrow> fails code r \<and> cs \<noteq> []"
| "comes_to L m a (FailsBeforeCall code) cs r \<longleftrightarrow> fails code r \<and> cs = []"
| "comes_to L m a Busy cs r \<longleftrightarrow> fails ''idempotency_in_progress'' r \<and> key_record m a unanswered \<and> cs = []"
| "comes_to L m a Replays cs r \<longleftrightarrow> key_record m a (answered L r) \<and> cs = []"

definition tells ::
  "'z rt_libs_scheme \<Rightarrow> key_store \<Rightarrow> action_intent \<Rightarrow> (mark list \<times> ending) list \<Rightarrow> mark list \<Rightarrow>
   call list \<Rightarrow> execution_result \<Rightarrow> bool" where
  "tells L m a ss ms cs r \<longleftrightarrow> (\<exists>e. (ms, e) \<in> set ss \<and> comes_to L m a e cs r)"

lemma tells_append: "tells L m a (xs @ ys) ms cs r \<longleftrightarrow> tells L m a xs ms cs r \<or> tells L m a ys ms cs r"
  by (auto simp: tells_def)

lemma tells_Cons:
  "tells L m a ((ms', e) # ss) ms cs r \<longleftrightarrow> (ms = ms' \<and> comes_to L m a e cs r) \<or> tells L m a ss ms cs r"
  by (auto simp: tells_def)

lemma tells_Nil [simp]: "\<not> tells L m a [] ms cs r"
  by (simp add: tells_def)

lemma tells_after: "tells L m a ss ms cs r \<Longrightarrow> tells L m a (map (apfst (Cons n)) ss) (n # ms) cs r"
  by (force simp: tells_def)

section \<open>The stages\<close>

text \<open>The names of the events and of the failures are short plain texts.\<close>

lemma trail_names:
  assumes "pydantic_documented L"
  shows "list_all (\<lambda>ty. DomainName L ty = Some ty)
    [''action_received'', ''tool_unknown'', ''contract_mismatch'', ''input_validation_failed'',
     ''contract_validated'', ''policy_evaluated'', ''approval_required'', ''idempotency_key_missing'',
     ''idempotency_replayed'', ''precondition_failed'', ''execution_started'', ''execution_failed'',
     ''output_validation_failed'', ''postcondition_failed'', ''execution_succeeded'']"
  by (simp only: list.pred_inject simp_thms; intro conjI; rule DomainName_plain[OF assms];
      simp add: domain_name_form_def lower_alpha_def decimal_digit_def)

lemma failure_codes:
  assumes "pydantic_documented L"
  shows "list_all (\<lambda>c. ShortText L c = Some c)
    [''unknown_tool'', ''contract_mismatch'', ''input_validation_failed'', ''policy_denied'',
     ''approval_required'', ''idempotency_key_missing'', ''idempotency_in_progress'',
     ''precondition_failed'', ''tool_execution_failed'', ''output_validation_failed'',
     ''postcondition_failed'']"
  by (simp only: list.pred_inject simp_thms; intro conjI; rule ShortText_plain[OF assms];
      simp add: white_space_def)

lemma failure_fails_with:
  "ShortText L code = Some code \<Longrightarrow> results (fails code) (failure L rt a att code msg out pv)"
  by (rule resultsI) (auto simp: fails_def dest: failure_Inr)

lemma stages_beyond:
  "keeps beyond (failure L rt a att code msg out pv)" "keeps beyond (checks_pass cs a c x)"
  "keeps beyond (tryM (is_approved ch a c d x))" "keeps beyond (liftM z)" "keeps beyond (read_clock clk)"
proof -
  show "keeps beyond (failure L rt a att code msg out pv)"
    unfolding failure_def by (intro keeps_intros)
  show "keeps beyond (checks_pass cs a c x)" by (induction cs) (auto intro!: keeps_intros)
  show "keeps beyond (tryM (is_approved ch a c d x))"
    by (auto simp: is_approved_def intro!: keeps_intros split: approval_checker.split)
qed (intro keeps_intros)+

lemma leaves_failure:
  assumes "ShortText L code = Some code" and "\<And>r. fails code r \<Longrightarrow> Q [] [] r"
  shows "leaves a R Q (failure L rt a' att code msg out pv)"
  by (rule leaves_quiet[OF stages_beyond(1) failure_fails_with[OF assms(1)]]) (rule assms(2))

lemma leaves_failure_then:
  assumes "ShortText L code = Some code" and "\<And>r. fails code r \<Longrightarrow> leaves a R Q (k r)"
  shows "leaves a R Q (bindM (failure L rt a' att code msg out pv) k)"
  by (rule leaves_knowing[OF stages_beyond(1) failure_fails_with[OF assms(1)]]) (rule assms(2))

lemma leaves_complete: "Q [] [] r \<Longrightarrow> leaves a R Q (bindM (complete_claim L rt held r) (\<lambda>_. retM r))"
  by (intro leaves_store complete_claim_events leaves_retM) (intro keeps_intros)

lemma succeed_result:
  "results (\<lambda>r. er_succeeded r \<and> er_error r = None)
    (liftM (ExecutionResult L
       \<lparr>er_execution_id = i, er_transaction_id = j, er_intent_id = k, er_succeeded = True,
        er_started_at = b, er_completed_at = c, er_output = out, er_error = None,
        er_postcondition_verified = pv\<rparr>))"
  by (auto simp: results_def ExecutionResult_iff)

lemma plain_details:
  assumes "pydantic_documented L"
  shows "JsonObject L []" and "JsonObject L [(PyStr n, PyStr v)]"
    and "JsonObject L [(PyStr n, PyStr v), (PyStr n', PyStr v')]"
  using assms by (simp_all add: JsonObject_def json_documented(1))

lemmas leaves_quietly = leaves_silent[OF stages_beyond(2)] leaves_silent[OF stages_beyond(3)]
  leaves_silent[OF keeps_evaluate] leaves_call leaves_complete leaves_if leaves_case_option

lemmas tells_unfold = tells_Cons tells_append

text \<open>After the call: \<open>n\<close> is the call that was made.\<close>

lemma leaves_succeed:
  assumes doc: "pydantic_documented L" and led: "rt_ledger rt = InMemoryLedger clk"
  shows "leaves a R (\<lambda>ms cs. tells L m a (handler_stories (at_transaction_id att)) ms (n # cs))
    (succeed L rt a att held out)"
  unfolding succeed_def using trail_names[OF doc]
  by (intro leaves_silent[OF stages_beyond(5)] leaves_silent[OF stages_beyond(4)]
      leaves_knowing[OF stages_beyond(4) succeed_result] leaves_mark[OF led] leaves_complete)
    (auto simp: plain_details[OF doc] handler_stories_def tells_unfold)

lemma leaves_handler:
  assumes doc: "pydantic_documented L" and led: "rt_ledger rt = InMemoryLedger clk"
  shows "leaves a R (tells L m a (handler_stories (at_transaction_id att))) (run_handler L rt a x tool att held)"
  unfolding run_handler_def check_output_def check_postconditions_def
  using trail_names[OF doc] failure_codes[OF doc]
  by (intro leaves_quietly leaves_failure_then leaves_mark[OF led] leaves_succeed[OF doc led])
    (auto simp: plain_details[OF doc] handler_stories_def tells_unfold)

lemma leaves_preconditions:
  assumes doc: "pydantic_documented L" and led: "rt_ledger rt = InMemoryLedger clk"
  shows "leaves a R (tells L m a (key_stories (at_transaction_id att))) (check_preconditions L rt a x tool att held)"
  unfolding check_preconditions_def start_execution_def
  using trail_names[OF doc] failure_codes[OF doc]
  by (intro leaves_quietly leaves_failure_then leaves_mark[OF led]
      leaves_mono[OF leaves_handler[where m = m, OF doc led]])
    (auto simp: plain_details[OF doc] key_stories_def tells_unfold tells_after)

text \<open>A replay, of the record that the store held at the start under the key of the action.\<close>

lemma leaves_replay:
  assumes doc: "pydantic_documented L" and led: "rt_ledger rt = InMemoryLedger clk"
    and k: "ai_idempotency_key a = Some k" "m k = Some rc"
  shows "leaves a R (tells L m a (key_stories tid)) (replay L rt a att rc)"
proof -
  have d: "results (\<lambda>r. decode_execution_result L (ir_result rc) = Inr r)
      (liftM (decode_execution_result L (ir_result rc)))" by (auto simp: results_def)
  have busy: "key_record m a unanswered" if "\<not> (ir_status rc = COMPLETED \<and> ir_result rc \<noteq> PyNone)"
    using k that by (cases "ir_status rc") (auto simp: key_record_def unanswered_def)
  have old: "key_record m a (answered L r)"
    if "ir_status rc = COMPLETED" "decode_execution_result L (ir_result rc) = Inr r" for r
    using k that by (auto simp: key_record_def answered_def)
  show ?thesis
    unfolding replay_def using trail_names[OF doc] failure_codes[OF doc]
    by (intro leaves_mark[OF led] leaves_if leaves_failure leaves_quiet[OF stages_beyond(4) d])
      (auto simp: plain_details[OF doc] key_stories_def tells_unfold busy old)
qed

lemma leaves_reserve:
  assumes doc: "pydantic_documented L" and led: "rt_ledger rt = InMemoryLedger clk"
    and mem: "rt_idempotency rt = InMemoryIdempotencyBackend clk'"
  shows "leaves a (Some m) (tells L m a (key_stories (at_transaction_id att))) (reserve_key L rt a x tool att)"
proof -
  note pre = leaves_preconditions[OF doc led]
  have claimed: "leaves a (Some m) (tells L m a (key_stories (at_transaction_id att)))
      (bindM (claim L (rt_idempotency rt) k) (\<lambda>c. if \<not> ic_acquired c then replay L rt a att (ic_record c)
         else check_preconditions L rt a x tool att (Some c)))"
    if "ai_idempotency_key a = Some k" for k
    by (rule leaves_claim[OF mem]) (simp_all add: pre leaves_replay[OF doc led that])
  show ?thesis
    unfolding reserve_key_def using trail_names[OF doc] failure_codes[OF doc]
    by (intro leaves_mark[OF led] leaves_if leaves_case_option leaves_failure claimed pre)
      (auto simp: plain_details[OF doc] key_stories_def tells_unfold)
qed

lemma leaves_approval:
  assumes doc: "pydantic_documented L" and led: "rt_ledger rt = InMemoryLedger clk"
    and mem: "rt_idempotency rt = InMemoryIdempotencyBackend clk'"
  shows "leaves a (Some m) (tells L m a (policy_stories (at_transaction_id att))) (check_approval L rt a x tool att d)"
  unfolding check_approval_def using trail_names[OF doc] failure_codes[OF doc]
  by (intro leaves_quietly leaves_mark[OF led] leaves_failure leaves_mono[OF leaves_reserve[OF doc led mem]])
    (auto simp: plain_details[OF doc] policy_stories_def tells_unfold)

lemma tells_stories:
  "tells L m a (stories tid) ((''action_received'', None) # ms) cs r \<longleftrightarrow>
   tells L m a [([(''tool_unknown'', None)], FailsBeforeCall ''unknown_tool''),
     ([(''contract_mismatch'', None)], FailsBeforeCall ''contract_mismatch''),
     ([(''input_validation_failed'', None)], FailsBeforeCall ''input_validation_failed'')] ms cs r \<or>
   (\<exists>rest. ms = (''contract_validated'', None) # (''policy_evaluated'', None) # rest \<and>
     tells L m a (policy_stories tid) rest cs r)"
  by (force simp: stories_def tells_def)

lemma leaves_contract:
  assumes doc: "pydantic_documented L" and led: "rt_ledger rt = InMemoryLedger clk"
    and mem: "rt_idempotency rt = InMemoryIdempotencyBackend clk'"
  shows "leaves a (Some m)
    (\<lambda>ms. tells L m a (stories (at_transaction_id att)) ((''action_received'', None) # ms))
    (check_contract L rt a x tool att)"
  unfolding check_contract_def check_policy_def
  using trail_names[OF doc] failure_codes[OF doc]
  by (intro leaves_quietly leaves_mark[OF led] leaves_failure leaves_mono[OF leaves_approval[OF doc led mem]])
    (auto simp: plain_details[OF doc] tells_stories tells_unfold)

lemma leaves_resolve:
  assumes doc: "pydantic_documented L" and led: "rt_ledger rt = InMemoryLedger clk"
    and mem: "rt_idempotency rt = InMemoryIdempotencyBackend clk'"
  shows "leaves a (Some m) (tells L m a (stories (at_transaction_id att)))
    (bindM (received_event L rt a) (resolve L rt a x att))"
  unfolding resolve_def
  using trail_names[OF doc] failure_codes[OF doc]
  by (intro leaves_quietly leaves_mark[OF led] leaves_failure leaves_case_sum leaves_contract[OF doc led mem])
    (auto simp: plain_details[OF doc] tells_stories tells_unfold)

section \<open>Every result comes with its story\<close>

text \<open>A result that comes with a call of the handler is the one this call deserves.\<close>

lemma called_reported:
  assumes "pydantic_documented L" and "execute L rt a x s = (Inr r, t)" and "calls t \<noteq> calls s"
  shows "reported L rt a x s r" and "calls t = calls s @ [HandlerCall (ai_tool_name a) (ai_arguments a)]"
proof -
  from assms(2,3) have "calls (snd (execute L rt a x s)) \<noteq> calls s" by simp
  then obtain tool held u where cl: "cleared L rt a x s tool held u" and u: "calls u = calls s"
    and "execute L rt a x s = run_handler L rt a x tool (attempt_of rt s) held u"
    by (rule cleared_reaches)
  then have run: "run_handler L rt a x tool (attempt_of rt s) held u = (Inr r, t)" using assms(2) by simp
  from run_handler_exact(2)[OF run plain_codes[OF assms(1)]] cl show "reported L rt a x s r"
    unfolding reported_def by blast
  show "calls t = calls s @ [HandlerCall (ai_tool_name a) (ai_arguments a)]"
    using run_handler_calls[of L rt a x tool "attempt_of rt s" held u] run u by simp
qed

text \<open>
  C14: The audit ledger tells how each execution went. With the in-memory ledger and the
  in-memory store, whenever \<open>execute\<close> returns a result the events it added are exactly those
  of one of the listed paths, in order, each correlated to the intent and those of the
  handler's stage to the transaction of the attempt; and result and calls are those the path
  ends in. After the events of the handler's stage the handler has been called once, and the
  result is the success or the failure, with the code that goes with the last event, that
  this call deserves by what the handler did and by the verdict of the postconditions in the
  world it left. After \<^verbatim>\<open>idempotency_replayed\<close> nothing was called, and the result is decoded
  from the completed record that the store held under the key of this action, or refuses
  because that record has no result. In every other path nothing was called and the result is
  the failure that goes with the last event. In particular no \<^verbatim>\<open>ledger_error\<close> is returned.
\<close>

theorem outcome_audited:
  fixes s :: "('e, 'y) idem_world_scheme"
  assumes "pydantic_documented L" and "rt_ledger rt = InMemoryLedger clk"
    and "rt_idempotency rt = InMemoryIdempotencyBackend clk'"
    and "execute L rt a x s = (Inr r, t)"
  shows "\<exists>story e new cs. (story, e) \<in> set (stories (at_transaction_id (attempt_of rt s))) \<and>
    events t = events s @ new \<and> calls t = calls s @ cs \<and> ends_with L rt a x s e r cs \<and>
    list_all2 (\<lambda>(ty, tid). runtime_event a ty tid) story new"
proof -
  have run: "bindM (received_event L rt a) (resolve L rt a x (attempt_of rt s)) (opened s) = (Inr r, t)"
    using assms(4) by (simp add: execute_eq)
  have "holding (Some (records s)) (opened s)" by (simp add: holding_def)
  from leavesD[OF leaves_resolve[OF assms(1-3)] this run] obtain story e new cs
    where new: "events t = events s @ new" "calls t = calls s @ cs" "marked a story new"
      "(story, e) \<in> set (stories (at_transaction_id (attempt_of rt s)))" "comes_to L (records s) a e cs r"
    unfolding left_def tells_def by auto
  have "ends_with L rt a x s e r cs"
    using called_reported[OF assms(1,4)] new(2,5) by (cases e) auto
  with new show ?thesis by (auto simp: marked_def split_def)
qed

theorem outcome_audited_witness:
  "\<exists>t story e cs. sample_execute (sample_state ()) = (Inr sample_result, t) \<and> (story, e) \<in> set (stories 1) \<and>
     ends_with sample_rt_libs (sample_runtime LOW [] echo_amount) (sample_action (Some ''k'')) []
       (sample_state ()) e sample_result cs \<and>
     map le_event_type (events t) = map fst story"
proof (rule sample_first)
  fix t
  assume run: "sample_execute (sample_state ()) = (Inr sample_result, t)"
  from outcome_audited[OF sample_rt_libs_documented sample_runtime_parts(2,1) run[unfolded sample_execute_def]] run
  show ?thesis by (fastforce simp: attempt_of_def sample_state_def dest: story_types)
qed

end
