(* ===== verification/Transactions.thy ===== *)
theory Transactions
  imports Contracts
begin

text \<open>
  Transaction snapshots (\<^verbatim>\<open>transactions/models.py\<close>): the table of legal transitions, the
  validator of a snapshot, and \<open>transition\<close>, the method that returns the next snapshot. The
  sequence of the snapshots of one transaction, newest first, is the inductive predicate
  \<open>lifecycle\<close>.
\<close>

section \<open>The code\<close>

fun LEGAL_TRANSACTION_TRANSITIONS :: "transaction_status \<Rightarrow> transaction_status list" where
  "LEGAL_TRANSACTION_TRANSITIONS PROPOSED = [VALIDATING, REJECTED]"
| "LEGAL_TRANSACTION_TRANSITIONS VALIDATING = [AWAITING_APPROVAL, APPROVED, REJECTED, FAILED]"
| "LEGAL_TRANSACTION_TRANSITIONS AWAITING_APPROVAL = [APPROVED, REJECTED, FAILED]"
| "LEGAL_TRANSACTION_TRANSITIONS APPROVED = [EXECUTING, REJECTED, FAILED]"
| "LEGAL_TRANSACTION_TRANSITIONS EXECUTING = [COMMITTED, FAILED, COMPENSATING]"
| "LEGAL_TRANSACTION_TRANSITIONS COMPENSATING = [COMPENSATED, PARTIALLY_COMPENSATED, FAILED]"
| "LEGAL_TRANSACTION_TRANSITIONS COMMITTED = []"
| "LEGAL_TRANSACTION_TRANSITIONS REJECTED = []"
| "LEGAL_TRANSACTION_TRANSITIONS FAILED = []"
| "LEGAL_TRANSACTION_TRANSITIONS COMPENSATED = []"
| "LEGAL_TRANSACTION_TRANSITIONS PARTIALLY_COMPENSATED = []"

definition terminal_statuses :: "transaction_status list" where
  "terminal_statuses = [COMMITTED, REJECTED, FAILED, COMPENSATED, PARTIALLY_COMPENSATED]"

definition reason_required :: "transaction_status list" where
  "reason_required = [REJECTED, FAILED, PARTIALLY_COMPENSATED]"

record transaction =
  tr_transaction_id :: uuid
  tr_status :: transaction_status
  tr_intents :: "action_intent list"
  tr_created_at :: time
  tr_updated_at :: time
  tr_approval_request_ids :: "uuid list"
  tr_status_reason :: "string option"
  tr_completed_at :: "time option"

definition validate_state :: "transaction \<Rightarrow> transaction result" where
  "validate_state t =
     (if tr_intents t = [] then Inl (ValidationError ''transaction must contain at least one intent'')
      else if \<not> distinct (map ai_intent_id (tr_intents t)) then
        Inl (ValidationError ''transaction intent identifiers must be unique'')
      else if \<not> distinct (tr_approval_request_ids t) then
        Inl (ValidationError ''approval request identifiers must be unique'')
      else if tr_updated_at t < tr_created_at t then
        Inl (ValidationError ''updated_at must not precede created_at'')
      else if tr_status t = AWAITING_APPROVAL \<and> tr_approval_request_ids t = [] then
        Inl (ValidationError ''awaiting approval requires an approval request'')
      else if tr_status t \<in> set reason_required \<and> tr_status_reason t = None then
        Inl (ValidationError ''terminal failure status requires a reason'')
      else if tr_status t \<in> set terminal_statuses then
        (case tr_completed_at t of
           None \<Rightarrow> Inl (ValidationError ''terminal transaction requires completed_at'')
         | Some c \<Rightarrow>
             if c < tr_updated_at t then
               Inl (ValidationError ''completed_at must not precede updated_at'')
             else Inr t)
      else if tr_completed_at t \<noteq> None then
        Inl (ValidationError ''non-terminal transaction cannot have completed_at'')
      else Inr t)"

definition Transaction :: "'z libs_scheme \<Rightarrow> transaction \<Rightarrow> transaction result" where
  "Transaction L t =
     bindR (optional_text (LongText L) ''status_reason'' (tr_status_reason t)) (\<lambda>reason.
     validate_state (t\<lparr>tr_status_reason := reason\<rparr>))"

definition transition ::
  "'z libs_scheme \<Rightarrow> transaction \<Rightarrow> transaction_status \<Rightarrow> time option \<Rightarrow> uuid list option \<Rightarrow>
   string option \<Rightarrow> time option \<Rightarrow> (('e, 'y) world_scheme, transaction) action" where
  "transition L self status updated_at approval_request_ids status_reason completed_at =
     (if status \<notin> set (LEGAL_TRANSACTION_TRANSITIONS (tr_status self)) then
        raiseM (IllegalTransactionTransitionError (tr_status self) status)
      else
        bindM (case updated_at of Some u \<Rightarrow> retM u | None \<Rightarrow> now_utc) (\<lambda>next_updated_at.
        let next_completed_at =
          (if status \<in> set terminal_statuses \<and> completed_at = None then Some next_updated_at
           else completed_at)
        in liftM (Transaction L
          \<lparr>tr_transaction_id = tr_transaction_id self, tr_status = status,
           tr_intents = tr_intents self, tr_created_at = tr_created_at self,
           tr_updated_at = next_updated_at,
           tr_approval_request_ids = (case approval_request_ids of
             None \<Rightarrow> tr_approval_request_ids self | Some ids \<Rightarrow> ids),
           tr_status_reason = status_reason, tr_completed_at = next_completed_at\<rparr>)))"

section \<open>Snapshots\<close>

definition valid_snapshot :: "transaction \<Rightarrow> bool" where
  "valid_snapshot t \<longleftrightarrow> tr_intents t \<noteq> [] \<and> distinct (map ai_intent_id (tr_intents t)) \<and>
     distinct (tr_approval_request_ids t) \<and> tr_created_at t \<le> tr_updated_at t \<and>
     (tr_status t = AWAITING_APPROVAL \<longrightarrow> tr_approval_request_ids t \<noteq> []) \<and>
     (tr_status t \<in> set reason_required \<longrightarrow> tr_status_reason t \<noteq> None) \<and>
     (if tr_status t \<in> set terminal_statuses
      then \<exists>c. tr_completed_at t = Some c \<and> tr_updated_at t \<le> c else tr_completed_at t = None)"

lemma validate_state_Inr: "validate_state t = Inr t' \<longleftrightarrow> t' = t \<and> valid_snapshot t"
proof (cases "tr_status t \<in> set terminal_statuses")
  case True
  then show ?thesis
    by (cases "tr_completed_at t") (auto simp: validate_state_def valid_snapshot_def not_less)
next
  case False
  then show ?thesis by (auto simp: validate_state_def valid_snapshot_def not_less)
qed

lemma Transaction_Inr:
  "Transaction L t = Inr t' \<longleftrightarrow>
     (\<exists>r. optional_text (LongText L) ''status_reason'' (tr_status_reason t) = Inr r \<and>
        t' = t\<lparr>tr_status_reason := r\<rparr> \<and> valid_snapshot t')"
  by (auto simp: Transaction_def bindR_Inr_iff validate_state_Inr)

lemma terminal_no_transition: "LEGAL_TRANSACTION_TRANSITIONS st = [] \<longleftrightarrow> st \<in> set terminal_statuses"
  by (cases st) (simp_all add: terminal_statuses_def)

lemma transition_Inr:
  assumes "transition L t st u ids rs c w = (Inr t', w')"
  shows "st \<in> set (LEGAL_TRANSACTION_TRANSITIONS (tr_status t))" "tr_status t' = st"
    "tr_transaction_id t' = tr_transaction_id t" "tr_intents t' = tr_intents t"
    "tr_created_at t' = tr_created_at t" "valid_snapshot t'"
  using assms
  by (auto simp: transition_def Transaction_Inr Let_def split: if_splits elim!: bindM_Inr_elim)

text \<open>
  C31: A transition that returns is one the table allows, the new snapshot has the requested
  status, belongs to the same transaction with the same intents, and satisfies every rule of
  a snapshot: unique intents, timestamps in order, an approval request while awaiting
  approval, a reason for the failure statuses, a completion time exactly when terminal.
\<close>

theorem transition_sound:
  assumes "transition L t st u ids rs c w = (Inr t', w')"
  shows "st \<in> set (LEGAL_TRANSACTION_TRANSITIONS (tr_status t)) \<and> tr_status t' = st \<and>
    tr_transaction_id t' = tr_transaction_id t \<and> tr_intents t' = tr_intents t \<and>
    tr_created_at t' = tr_created_at t \<and> valid_snapshot t'"
  using transition_Inr[OF assms] by simp

definition sample_transaction :: transaction where
  "sample_transaction = \<lparr>tr_transaction_id = 1, tr_status = APPROVED, tr_intents = [sample_action None],
     tr_created_at = 0, tr_updated_at = 2, tr_approval_request_ids = [], tr_status_reason = None,
     tr_completed_at = None\<rparr>"

theorem transition_sound_witness:
  "\<exists>t'. transition sample_libs sample_transaction EXECUTING (Some 3) None None None sample_world =
     (Inr t', sample_world) \<and> tr_status t' = EXECUTING \<and> valid_snapshot t'"
proof -
  have "\<exists>t'. transition sample_libs sample_transaction EXECUTING (Some 3) None None None sample_world =
      (Inr t', sample_world)"
    by (simp add: transition_def sample_transaction_def Transaction_def optional_text_def
        validate_state_def terminal_statuses_def reason_required_def)
  then obtain t' where t': "transition sample_libs sample_transaction EXECUTING (Some 3) None None None
      sample_world = (Inr t', sample_world)" by blast
  with transition_sound[OF t'] show ?thesis by blast
qed

definition coherent_transition ::
  "transaction \<Rightarrow> transaction_status \<Rightarrow> time \<Rightarrow> uuid list option \<Rightarrow> string option \<Rightarrow> time option \<Rightarrow> bool" where
  "coherent_transition t st u ids rs c \<longleftrightarrow>
     (let ids' = (case ids of None \<Rightarrow> tr_approval_request_ids t | Some i \<Rightarrow> i) in
      distinct ids' \<and> tr_created_at t \<le> u \<and> (st = AWAITING_APPROVAL \<longrightarrow> ids' \<noteq> []) \<and>
      (st \<in> set reason_required \<longrightarrow> rs \<noteq> None) \<and>
      (if st \<in> set terminal_statuses then \<forall>n. c = Some n \<longrightarrow> u \<le> n else c = None))"

text \<open>
  A transition the table does not allow raises \<^verbatim>\<open>IllegalTransactionTransitionError\<close> with
  the two statuses and reads no clock; one the table allows is never refused for that
  reason, and returns whenever the data it is given are coherent.
\<close>

theorem transition_exact:
  assumes "valid_snapshot t" and "\<And>r. rs = Some r \<Longrightarrow> LongText L r \<noteq> None"
  shows "if st \<notin> set (LEGAL_TRANSACTION_TRANSITIONS (tr_status t))
    then transition L t st (Some u) ids rs c w = (Inl (IllegalTransactionTransitionError (tr_status t) st), w)
    else (\<exists>t'. fst (transition L t st (Some u) ids rs c w) = Inr t') \<longleftrightarrow> coherent_transition t st u ids rs c"
proof (cases "st \<in> set (LEGAL_TRANSACTION_TRANSITIONS (tr_status t))")
  case False
  then show ?thesis by (simp add: transition_def)
next
  case True
  let ?nc = "if st \<in> set terminal_statuses \<and> c = None then Some u else c"
  let ?ids = "case ids of None \<Rightarrow> tr_approval_request_ids t | Some i \<Rightarrow> i"
  let ?raw = "\<lparr>tr_transaction_id = tr_transaction_id t, tr_status = st, tr_intents = tr_intents t,
     tr_created_at = tr_created_at t, tr_updated_at = u, tr_approval_request_ids = ?ids,
     tr_status_reason = rs, tr_completed_at = ?nc\<rparr>"
  have run: "fst (transition L t st (Some u) ids rs c w) = Transaction L ?raw"
    using True by (simp add: transition_def Let_def)
  obtain r where r: "optional_text (LongText L) ''status_reason'' rs = Inr r" "r = None \<longleftrightarrow> rs = None"
    using assms(2) by (cases rs) (auto simp: optional_text_def)
  have base: "tr_intents t \<noteq> []" "distinct (map ai_intent_id (tr_intents t))"
    using assms(1) by (simp_all add: valid_snapshot_def)
  have "(\<exists>t'. Transaction L ?raw = Inr t') \<longleftrightarrow> valid_snapshot (?raw\<lparr>tr_status_reason := r\<rparr>)"
    using r(1) by (auto simp: Transaction_Inr)
  also have "\<dots> \<longleftrightarrow> coherent_transition t st u ids rs c"
    using r(2) base by (cases c) (auto simp: valid_snapshot_def coherent_transition_def Let_def)
  finally show ?thesis using True run by simp
qed

theorem transition_exact_witness:
  "transition sample_libs sample_transaction COMMITTED (Some 3) None None None sample_world =
     (Inl (IllegalTransactionTransitionError APPROVED COMMITTED), sample_world) \<and>
   (\<exists>t'. fst (transition sample_libs sample_transaction REJECTED (Some 3) None (Some ''no'') None
      sample_world) = Inr t')"
proof -
  have v: "valid_snapshot sample_transaction"
    by (simp add: valid_snapshot_def sample_transaction_def terminal_statuses_def reason_required_def)
  have reason: "LongText sample_libs ''no'' \<noteq> None"
    using LongText_plain[OF sample_libs_documented, of "''no''"] by (simp add: white_space_def)
  show ?thesis
    using transition_exact[OF v, of None sample_libs COMMITTED 3 None None sample_world]
      transition_exact[OF v, of "Some ''no''" sample_libs REJECTED 3 None None sample_world] reason
    by (simp add: sample_transaction_def coherent_transition_def reason_required_def terminal_statuses_def)
qed

section \<open>The life of a transaction\<close>

text \<open>One call of \<^verbatim>\<open>transition\<close> that returns, and the snapshots it produces, newest first.\<close>

inductive transitions_to :: "'z libs_scheme \<Rightarrow> transaction \<Rightarrow> transaction \<Rightarrow> bool" for L where
  call: "transition L t st u ids rs c (w :: unit world) = (Inr t', w') \<Longrightarrow> transitions_to L t t'"

inductive lifecycle :: "'z libs_scheme \<Rightarrow> transaction list \<Rightarrow> bool" for L where
  start: "lifecycle L [t]"
| step: "lifecycle L (t # ts) \<Longrightarrow> transitions_to L t t' \<Longrightarrow> lifecycle L (t' # t # ts)"

inductive_cases lifecycle_ConsE: "lifecycle L (t # ts)"

lemma transitions_to_legal:
  "transitions_to L t t' \<Longrightarrow> tr_status t' \<in> set (LEGAL_TRANSACTION_TRANSITIONS (tr_status t))"
  by (erule transitions_to.cases) (use transition_Inr(1,2) in blast)

text \<open>What a snapshot's status says about the statuses before it.\<close>

fun prerequisites :: "transaction_status \<Rightarrow> transaction_status list" where
  "prerequisites PROPOSED = []"
| "prerequisites VALIDATING = [PROPOSED]"
| "prerequisites AWAITING_APPROVAL = [VALIDATING]"
| "prerequisites APPROVED = [VALIDATING]"
| "prerequisites EXECUTING = [VALIDATING, APPROVED]"
| "prerequisites COMPENSATING = [VALIDATING, APPROVED, EXECUTING]"
| "prerequisites COMMITTED = [VALIDATING, APPROVED, EXECUTING]"
| "prerequisites COMPENSATED = [VALIDATING, APPROVED, EXECUTING, COMPENSATING]"
| "prerequisites PARTIALLY_COMPENSATED = [VALIDATING, APPROVED, EXECUTING, COMPENSATING]"
| "prerequisites _ = []"

fun lifecycle_rank :: "transaction_status \<Rightarrow> nat" where
  "lifecycle_rank PROPOSED = 0"
| "lifecycle_rank VALIDATING = 1"
| "lifecycle_rank AWAITING_APPROVAL = 2"
| "lifecycle_rank APPROVED = 3"
| "lifecycle_rank EXECUTING = 4"
| "lifecycle_rank COMPENSATING = 5"
| "lifecycle_rank _ = 6"

lemma legal_prerequisites:
  "st' \<in> set (LEGAL_TRANSACTION_TRANSITIONS st) \<Longrightarrow> set (prerequisites st') \<subseteq> insert st (set (prerequisites st))"
  by (cases st) auto

lemma legal_stage: "st' \<in> set (LEGAL_TRANSACTION_TRANSITIONS st) \<Longrightarrow> lifecycle_rank st < lifecycle_rank st'"
  by (cases st) auto

lemma lifecycle_history:
  assumes "lifecycle L ts" and "tr_status (last ts) = PROPOSED"
  shows "set (prerequisites (tr_status (hd ts))) \<subseteq> tr_status ` set ts"
    and "sorted_wrt (\<lambda>a b. lifecycle_rank (tr_status b) < lifecycle_rank (tr_status a)) ts"
  using assms
proof (induction rule: lifecycle.induct)
  case (step t ts t')
  have legal: "tr_status t' \<in> set (LEGAL_TRANSACTION_TRANSITIONS (tr_status t))"
    using step.hyps(2) by (rule transitions_to_legal)
  {
    case 1
    with step.IH(1) legal_prerequisites[OF legal] show ?case by auto
  next
    case 2
    with step.IH(2) legal_stage[OF legal] show ?case by fastforce
  }
qed auto

lemma sorted_stage_length:
  "sorted_wrt (\<lambda>a b. lifecycle_rank (tr_status b) < lifecycle_rank (tr_status a)) ts \<Longrightarrow> ts \<noteq> [] \<Longrightarrow>
   length ts \<le> Suc (lifecycle_rank (tr_status (hd ts)))"
proof (induction ts)
  case (Cons t ts)
  then show ?case by (cases ts) auto
qed simp

lemma stage_le: "lifecycle_rank st \<le> 6"
  by (cases st) simp_all

text \<open>
  C27: The life of a transaction that starts as PROPOSED: it has at most six transitions and
  never returns to a status, a COMMITTED transaction was validated, approved and executing
  before, nothing executes without approval, and only an executing transaction is compensated.
\<close>

theorem lifecycle_order:
  assumes "lifecycle L ts" and "tr_status (last ts) = PROPOSED"
  shows "length ts \<le> 7 \<and> distinct (map tr_status ts) \<and>
    (case tr_status (hd ts) of
       COMMITTED \<Rightarrow> {VALIDATING, APPROVED, EXECUTING} \<subseteq> tr_status ` set ts
     | EXECUTING \<Rightarrow> {VALIDATING, APPROVED} \<subseteq> tr_status ` set ts
     | COMPENSATED \<Rightarrow> {APPROVED, EXECUTING, COMPENSATING} \<subseteq> tr_status ` set ts
     | PARTIALLY_COMPENSATED \<Rightarrow> {APPROVED, EXECUTING, COMPENSATING} \<subseteq> tr_status ` set ts
     | _ \<Rightarrow> True)"
proof -
  have ne: "ts \<noteq> []" using assms(1) by (cases rule: lifecycle.cases) auto
  note h = lifecycle_history[OF assms]
  have "length ts \<le> 7"
    using sorted_stage_length[OF h(2) ne] stage_le[of "tr_status (hd ts)"] by simp
  moreover have "distinct (map tr_status ts)"
    using h(2) by (induction ts) auto
  moreover have "case tr_status (hd ts) of
       COMMITTED \<Rightarrow> {VALIDATING, APPROVED, EXECUTING} \<subseteq> tr_status ` set ts
     | EXECUTING \<Rightarrow> {VALIDATING, APPROVED} \<subseteq> tr_status ` set ts
     | COMPENSATED \<Rightarrow> {APPROVED, EXECUTING, COMPENSATING} \<subseteq> tr_status ` set ts
     | PARTIALLY_COMPENSATED \<Rightarrow> {APPROVED, EXECUTING, COMPENSATING} \<subseteq> tr_status ` set ts
     | _ \<Rightarrow> True"
    using h(1) by (cases "tr_status (hd ts)") auto
  ultimately show ?thesis by blast
qed

definition sample_at :: "transaction_status \<Rightarrow> time \<Rightarrow> time option \<Rightarrow> transaction" where
  "sample_at st u c = sample_transaction\<lparr>tr_status := st, tr_updated_at := u, tr_completed_at := c\<rparr>"

lemma sample_step:
  assumes "st' \<in> set (LEGAL_TRANSACTION_TRANSITIONS st)" and "st' \<in> {VALIDATING, APPROVED, EXECUTING}"
    and "0 \<le> u'"
  shows "transitions_to sample_libs (sample_at st u c) (sample_at st' u' None)"
proof (rule transitions_to.call)
  show "transition sample_libs (sample_at st u c) st' (Some u') None None None sample_world =
      (Inr (sample_at st' u' None), sample_world)"
    using assms by (auto simp: transition_def sample_at_def sample_transaction_def Transaction_def
        optional_text_def validate_state_def terminal_statuses_def reason_required_def)
qed

lemma sample_commit: "transitions_to sample_libs (sample_at EXECUTING u c) (sample_at COMMITTED 9 (Some 9))"
proof (rule transitions_to.call)
  show "transition sample_libs (sample_at EXECUTING u c) COMMITTED (Some 9) None None None sample_world =
      (Inr (sample_at COMMITTED 9 (Some 9)), sample_world)"
    by (simp add: transition_def sample_at_def sample_transaction_def Transaction_def
        optional_text_def validate_state_def terminal_statuses_def reason_required_def)
qed

theorem lifecycle_order_witness:
  "\<exists>ts. lifecycle sample_libs ts \<and> tr_status (hd ts) = COMMITTED \<and> tr_status (last ts) = PROPOSED \<and>
     {VALIDATING, APPROVED, EXECUTING} \<subseteq> tr_status ` set ts"
proof -
  let ?ts = "[sample_at COMMITTED 9 (Some 9), sample_at EXECUTING 4 None, sample_at APPROVED 3 None,
    sample_at VALIDATING 2 None, sample_at PROPOSED 1 None]"
  have l: "lifecycle sample_libs ?ts"
    by (intro lifecycle.intros sample_commit sample_step) simp_all
  have "tr_status (last ?ts) = PROPOSED" by (simp add: sample_at_def)
  from lifecycle_order[OF l this] this l show ?thesis
    by (intro exI[of _ ?ts]) (simp add: sample_at_def)
qed

end
