(* ===== verification/Compensation.thy ===== *)
theory Compensation
  imports Audit_Ledger Execution_Models
begin

text \<open>
  Compensation of completed effects (\<^verbatim>\<open>compensation/models.py\<close>,
  \<^verbatim>\<open>compensation/coordinator.py\<close>): the result of one attempt, and the coordinator that
  attempts the compensators of a run in reverse execution order and summarizes the outcome.
  The calls of compensators are recorded in \<open>calls\<close> with the execution they undo.
\<close>

section \<open>Models\<close>

record compensation_result =
  cr_compensation_id :: uuid
  cr_execution_id :: uuid
  cr_transaction_id :: uuid
  cr_intent_id :: uuid
  cr_succeeded :: bool
  cr_started_at :: time
  cr_completed_at :: time
  cr_output :: pyval
  cr_error :: "failure_detail option"

definition CompensationResult :: "'z libs_scheme \<Rightarrow> compensation_result \<Rightarrow> compensation_result result" where
  "CompensationResult L r =
     bindR (require (json_value L (cr_output r)) (ValidationError ''output'')) (\<lambda>_.
     if cr_completed_at r < cr_started_at r then
       Inl (ValidationError ''completed_at must not precede started_at'')
     else if cr_succeeded r \<and> cr_error r \<noteq> None then
       Inl (ValidationError ''successful compensation cannot contain an error'')
     else if \<not> cr_succeeded r \<and> cr_error r = None then
       Inl (ValidationError ''failed compensation requires an error'')
     else Inr r)"

datatype compensation_summary_status =
  NOT_REQUIRED | COMPENSATED | PARTIALLY_COMPENSATED | FAILED

fun summary_status_value :: "compensation_summary_status \<Rightarrow> string" where
  "summary_status_value NOT_REQUIRED = ''not_required''"
| "summary_status_value COMPENSATED = ''compensated''"
| "summary_status_value PARTIALLY_COMPENSATED = ''partially_compensated''"
| "summary_status_value FAILED = ''failed''"

definition COMPENSATABLE_EFFECTS :: "effect_type list" where
  "COMPENSATABLE_EFFECTS = [REVERSIBLE, COMPENSATABLE, STAGEABLE]"

type_synonym 'e compensator = "execution_result \<Rightarrow> ('e, pyval) callback"

record 'e compensation_plan =
  cp_execution :: execution_result
  cp_effect_type :: effect_type
  cp_compensator :: "'e compensator option"

record compensation_summary =
  cs_status :: compensation_summary_status
  cs_results :: "compensation_result list"
  cs_uncompensated_executions :: "execution_result list"

section \<open>The coordinator\<close>

definition compensation_event ::
  "'z libs_scheme \<Rightarrow> 'e ledger option \<Rightarrow> string \<Rightarrow> execution_result \<Rightarrow> json_object option \<Rightarrow>
   (('e, 'y) ledger_world_scheme, unit) action" where
  "compensation_event L ledger event_type execution details =
     (case ledger of
        None \<Rightarrow> retM ()
      | Some l \<Rightarrow>
          bindM (ledger_append L l
            \<lparr>rq_correlation_id = er_transaction_id execution, rq_event_type = event_type,
             rq_intent_id = Some (er_intent_id execution),
             rq_transaction_id = Some (er_transaction_id execution), rq_actor_id = None,
             rq_details = details\<rparr>) (\<lambda>_. retM ()))"

definition call_compensator ::
  "'e compensator \<Rightarrow> execution_result \<Rightarrow> (('e, 'y) world_scheme, pyval) action" where
  "call_compensator f execution =
     bindM (note_call (CompensatorCall (er_execution_id execution))) (\<lambda>_. call_user (f execution))"

definition attempt_compensation ::
  "'z libs_scheme \<Rightarrow> 'e ledger option \<Rightarrow> execution_result \<Rightarrow> 'e compensator \<Rightarrow>
   (('e, 'y) ledger_world_scheme, compensation_result) action" where
  "attempt_compensation L ledger execution compensator =
     bindM now_utc (\<lambda>started_at.
     bindM (compensation_event L ledger ''compensation.attempted'' execution None) (\<lambda>_.
     bindM (tryM (call_compensator compensator execution)) (\<lambda>out.
     bindM uuid4 (\<lambda>compensation_id.
     bindM now_utc (\<lambda>completed_at.
     bindM (case out of
         None \<Rightarrow>
           bindM (liftM (FailureDetail L \<lparr>fd_code = ''compensation_failed'',
             fd_message = ''Compensator raised an exception.''\<rparr>)) (\<lambda>error.
           liftM (CompensationResult L
             \<lparr>cr_compensation_id = compensation_id, cr_execution_id = er_execution_id execution,
              cr_transaction_id = er_transaction_id execution, cr_intent_id = er_intent_id execution,
              cr_succeeded = False, cr_started_at = started_at, cr_completed_at = completed_at,
              cr_output = PyNone, cr_error = Some error\<rparr>))
       | Some output \<Rightarrow>
           liftM (CompensationResult L
             \<lparr>cr_compensation_id = compensation_id, cr_execution_id = er_execution_id execution,
              cr_transaction_id = er_transaction_id execution, cr_intent_id = er_intent_id execution,
              cr_succeeded = True, cr_started_at = started_at, cr_completed_at = completed_at,
              cr_output = output, cr_error = None\<rparr>)) (\<lambda>result.
     bindM (compensation_event L ledger
       (if cr_succeeded result then ''compensation.succeeded'' else ''compensation.failed'') execution
       (Some [(PyStr ''compensation_id'', PyStr (uuid_str (cr_compensation_id result)))])) (\<lambda>_.
     retM result)))))))"

text \<open>\<^verbatim>\<open>for plan in reversed(ordered_plans)\<close>, with the two lists it builds.\<close>

fun compensate_loop ::
  "'z libs_scheme \<Rightarrow> 'e ledger option \<Rightarrow> 'e compensation_plan list \<Rightarrow> compensation_result list \<Rightarrow>
   execution_result list \<Rightarrow>
   (('e, 'y) ledger_world_scheme, compensation_result list \<times> execution_result list) action" where
  "compensate_loop L ledger [] done uncompensated = retM (done, uncompensated)"
| "compensate_loop L ledger (plan # plans) done uncompensated =
     (let execution = cp_execution plan in
      if \<not> er_succeeded execution then compensate_loop L ledger plans done uncompensated
      else if cp_effect_type plan = READ_ONLY then
        bindM (compensation_event L ledger ''compensation.skipped_read_only'' execution None) (\<lambda>_.
        compensate_loop L ledger plans done uncompensated)
      else if cp_effect_type plan = IRREVERSIBLE then
        bindM (compensation_event L ledger ''compensation.irreversible'' execution None) (\<lambda>_.
        compensate_loop L ledger plans done (uncompensated @ [execution]))
      else if cp_effect_type plan \<notin> set COMPENSATABLE_EFFECTS then
        bindM (compensation_event L ledger ''compensation.skipped_uncompensatable'' execution None) (\<lambda>_.
        compensate_loop L ledger plans done uncompensated)
      else case cp_compensator plan of
        None \<Rightarrow>
          bindM (compensation_event L ledger ''compensation.missing_compensator'' execution None) (\<lambda>_.
          compensate_loop L ledger plans done (uncompensated @ [execution]))
      | Some f \<Rightarrow>
          bindM (attempt_compensation L ledger execution f) (\<lambda>result.
          compensate_loop L ledger plans (done @ [result]) uncompensated))"

definition summarize_status ::
  "compensation_result list \<Rightarrow> execution_result list \<Rightarrow> compensation_summary_status" where
  "summarize_status results uncompensated =
     (if results = [] \<and> uncompensated = [] then NOT_REQUIRED
      else if uncompensated \<noteq> [] then
        (if results \<noteq> [] \<and> list_ex cr_succeeded results then PARTIALLY_COMPENSATED else FAILED)
      else if list_all cr_succeeded results then COMPENSATED
      else if list_ex cr_succeeded results then PARTIALLY_COMPENSATED
      else FAILED)"

text \<open>\<^verbatim>\<open>if failed_execution is not None: self._append_event(...)\<close>\<close>

definition run_event ::
  "'z libs_scheme \<Rightarrow> 'e ledger option \<Rightarrow> string \<Rightarrow> execution_result option \<Rightarrow>
   (execution_result \<Rightarrow> json_object) \<Rightarrow> (('e, 'y) ledger_world_scheme, unit) action" where
  "run_event L ledger event_type failed_execution details =
     (case failed_execution of
        None \<Rightarrow> retM ()
      | Some failed \<Rightarrow> compensation_event L ledger event_type failed (Some (details failed)))"

definition compensate ::
  "'z libs_scheme \<Rightarrow> 'e ledger option \<Rightarrow> 'e compensation_plan list \<Rightarrow> execution_result option \<Rightarrow>
   (('e, 'y) ledger_world_scheme, compensation_summary) action" where
  "compensate L ledger plans failed_execution =
     bindM (run_event L ledger ''compensation.started'' failed_execution (\<lambda>failed.
       [(PyStr ''failed_execution_id'', PyStr (uuid_str (er_execution_id failed)))])) (\<lambda>_.
     bindM (compensate_loop L ledger (rev plans) [] []) (\<lambda>(results, uncompensated).
     let status = summarize_status results uncompensated in
     bindM (run_event L ledger ''compensation.completed'' failed_execution (\<lambda>_.
       [(PyStr ''status'', PyStr (summary_status_value status))])) (\<lambda>_.
     retM \<lparr>cs_status = status, cs_results = results, cs_uncompensated_executions = uncompensated\<rparr>)))"

end
