(* ===== verification/Compensation_Correctness.thy ===== *)
theory Compensation_Correctness
  imports Compensation
begin

text \<open>
  The coordinator attempts the compensators of exactly the plans that have an effect to undo,
  once each and in reverse order; its summary accounts for every plan; a compensator that
  raises does not keep the others from being attempted.
\<close>

definition eligible :: "'e compensation_plan \<Rightarrow> bool" where
  "eligible p \<longleftrightarrow> er_succeeded (cp_execution p) \<and> cp_effect_type p \<in> {REVERSIBLE, COMPENSATABLE, STAGEABLE} \<and>
     cp_compensator p \<noteq> None"

definition beyond_undo :: "'e compensation_plan \<Rightarrow> bool" where
  "beyond_undo p \<longleftrightarrow> er_succeeded (cp_execution p) \<and>
     (cp_effect_type p = IRREVERSIBLE \<or>
      cp_effect_type p \<in> {REVERSIBLE, COMPENSATABLE, STAGEABLE} \<and> cp_compensator p = None)"

definition undo_call :: "'e compensation_plan \<Rightarrow> call" where
  "undo_call p = CompensatorCall (er_execution_id (cp_execution p))"

lemma keeps_compensation_event [keeps_intros]: "keeps calls (compensation_event L ledger ty ex ds)"
  unfolding compensation_event_def by (intro keeps_intros)

lemma CompensationResult_Inr:
  "CompensationResult L r = Inr q \<longleftrightarrow> q = r \<and> json_value L (cr_output r) \<and>
     cr_started_at r \<le> cr_completed_at r \<and> (cr_succeeded r \<longleftrightarrow> cr_error r = None)"
  by (auto simp: CompensationResult_def bindR_Inr_iff)

section \<open>One attempt\<close>

definition attempt_of_execution :: "execution_result \<Rightarrow> compensation_result \<Rightarrow> bool" where
  "attempt_of_execution ex r \<longleftrightarrow> cr_execution_id r = er_execution_id ex \<and>
     cr_transaction_id r = er_transaction_id ex \<and> cr_intent_id r = er_intent_id ex \<and>
     cr_started_at r \<le> cr_completed_at r \<and> (cr_succeeded r \<longleftrightarrow> cr_error r = None)"

lemma call_compensator_calls:
  "calls (snd (call_compensator f ex s)) = calls s @ [CompensatorCall (er_execution_id ex)]"
  by (simp add: call_compensator_def keeps_snd keeps_calls)

lemma announced_call:
  assumes "compensation_event L ledger ty ex ds s = (Inr u, s1)" and "\<And>x. keeps calls (k x)"
  shows "calls (snd (bindM (compensation_event L ledger ty ex ds)
    (\<lambda>_. bindM (tryM (call_compensator f ex)) k) s)) = calls s @ [CompensatorCall (er_execution_id ex)]"
  using assms keepsD[OF keeps_compensation_event assms(1)]
  by (simp add: bindM_run keeps_then call_compensator_calls)

lemma attempt_calls:
  "calls (snd (attempt_compensation L ledger ex f s)) = calls s @
     (if \<exists>u. fst (compensation_event L ledger ''compensation.attempted'' ex None
          (s\<lparr>tick := Suc (tick s)\<rparr>)) = Inr u then [CompensatorCall (er_execution_id ex)] else [])"
proof -
  let ?ev = "compensation_event L ledger ''compensation.attempted'' ex None"
  obtain r s1 where ev: "?ev (s\<lparr>tick := Suc (tick s)\<rparr>) = (r, s1)" by fastforce
  have c1: "calls s1 = calls s" using keepsD[OF keeps_compensation_event ev] by simp
  show ?thesis
  proof (cases r)
    case (Inl e)
    with ev c1 show ?thesis by (simp add: attempt_compensation_def bindM_run)
  next
    case (Inr u)
    have "calls (snd (attempt_compensation L ledger ex f s)) =
        calls (s\<lparr>tick := Suc (tick s)\<rparr>) @ [CompensatorCall (er_execution_id ex)]"
      unfolding attempt_compensation_def
      by (subst now_utc_total, rule announced_call[OF ev[unfolded Inr]]) (intro keeps_intros)
    with ev Inr show ?thesis by simp
  qed
qed

lemma attempt_Inr:
  assumes "attempt_compensation L ledger ex f s = (Inr r, t)"
  shows "attempt_of_execution ex r" and "calls t = calls s @ [CompensatorCall (er_execution_id ex)]"
proof -
  show "attempt_of_execution ex r"
    using assms
    by (auto simp: attempt_compensation_def attempt_of_execution_def CompensationResult_Inr
        elim!: bindM_Inr_elim split: option.splits)
  from assms have "\<exists>u. fst (compensation_event L ledger ''compensation.attempted'' ex None
      (s\<lparr>tick := Suc (tick s)\<rparr>)) = Inr u"
    by (auto simp: attempt_compensation_def elim!: bindM_Inr_elim)
  with attempt_calls[of L ledger ex f s] assms
  show "calls t = calls s @ [CompensatorCall (er_execution_id ex)]" by simp
qed

section \<open>The whole run\<close>

lemma loop_eligible:
  assumes "eligible p" and "cp_compensator p = Some f"
  shows "compensate_loop L ledger (p # ps) d u =
    bindM (attempt_compensation L ledger (cp_execution p) f) (\<lambda>r. compensate_loop L ledger ps (d @ [r]) u)"
  using assms by (auto simp: eligible_def COMPENSATABLE_EFFECTS_def Let_def)

lemma loop_other:
  assumes "\<not> eligible p"
  obtains m :: "(('e, 'y) ledger_world_scheme, unit) action"
  where "keeps calls m" and "compensate_loop L ledger (p # ps) d u =
    bindM m (\<lambda>_. compensate_loop L ledger ps d (u @ (if beyond_undo p then [cp_execution p] else [])))"
proof -
  have skip: "compensate_loop L ledger ps d u = bindM (retM ()) (\<lambda>_. compensate_loop L ledger ps d u)"
    by simp
  consider "\<not> er_succeeded (cp_execution p)"
    | "er_succeeded (cp_execution p)" "cp_effect_type p = READ_ONLY"
    | "er_succeeded (cp_execution p)" "cp_effect_type p = IRREVERSIBLE"
    | "er_succeeded (cp_execution p)" "cp_effect_type p = IDEMPOTENT"
    | "er_succeeded (cp_execution p)" "cp_effect_type p \<in> {REVERSIBLE, COMPENSATABLE, STAGEABLE}"
      "cp_compensator p = None"
    using assms by (cases "cp_effect_type p") (auto simp: eligible_def)
  then show thesis
  proof cases
    case 1
    then show ?thesis
      by (intro that[of "retM ()"]) (simp_all add: Let_def beyond_undo_def keeps_basic)
  qed (rule that, rule keeps_compensation_event, force simp: Let_def beyond_undo_def COMPENSATABLE_EFFECTS_def)+
qed

text \<open>What a run of the loop returns and calls.\<close>

lemma loop_returns:
  fixes s :: "('e, 'y) ledger_world_scheme"
  assumes "compensate_loop L ledger ps d u s = (Inr (d', u'), t)"
  shows "\<exists>rs. d' = d @ rs \<and>
    list_all2 attempt_of_execution (map cp_execution (filter eligible ps)) rs \<and>
    u' = u @ map cp_execution (filter beyond_undo ps) \<and>
    calls t = calls s @ map undo_call (filter eligible ps)"
  using assms
proof (induction ps arbitrary: d u s)
  case (Cons p ps)
  show ?case
  proof (cases "eligible p")
    case True
    then obtain f where f: "cp_compensator p = Some f" by (auto simp: eligible_def)
    have nb: "\<not> beyond_undo p" using True by (auto simp: eligible_def beyond_undo_def)
    from Cons.prems[unfolded loop_eligible[OF True f]] obtain r s1
      where a: "attempt_compensation L ledger (cp_execution p) f s = (Inr r, s1)"
      and l: "compensate_loop L ledger ps (d @ [r]) u s1 = (Inr (d', u'), t)" by (rule bindM_Inr_elim)
    from Cons.IH[OF l] attempt_Inr[OF a] True nb show ?thesis by (auto simp: undo_call_def)
  next
    case False
    then obtain m :: "(('e, 'y) ledger_world_scheme, unit) action" where m: "keeps calls m" and eq: "compensate_loop L ledger (p # ps) d u =
        bindM m (\<lambda>_. compensate_loop L ledger ps d (u @ (if beyond_undo p then [cp_execution p] else [])))"
      by (rule loop_other)
    from Cons.prems[unfolded eq] obtain v s1 where v: "m s = (Inr v, s1)"
      and l: "compensate_loop L ledger ps d (u @ (if beyond_undo p then [cp_execution p] else [])) s1 =
        (Inr (d', u'), t)" by (rule bindM_Inr_elim)
    from Cons.IH[OF l] keepsD[OF m v] False show ?thesis by auto
  qed
qed simp

lemma loop_calls_prefix:
  fixes s :: "('e, 'y) ledger_world_scheme"
  shows "\<exists>n. calls (snd (compensate_loop L ledger ps d u s)) = calls s @ take n (map undo_call (filter eligible ps))"
proof (induction ps arbitrary: d u s)
  case (Cons p ps)
  show ?case
  proof (cases "eligible p")
    case True
    then obtain f where f: "cp_compensator p = Some f" by (auto simp: eligible_def)
    obtain r s1 where a: "attempt_compensation L ledger (cp_execution p) f s = (r, s1)" by fastforce
    show ?thesis
    proof (cases r)
      case (Inl e)
      have "snd (compensate_loop L ledger (p # ps) d u s) = s1"
        using a Inl unfolding loop_eligible[OF True f] by (simp add: bindM_run)
      moreover have "\<exists>n. calls s1 = calls s @ take n (map undo_call (filter eligible (p # ps)))"
        using attempt_calls[of L ledger "cp_execution p" f s] a True
        by (auto simp: undo_call_def intro: exI[of _ 0] exI[of _ 1] split: if_splits)
      ultimately show ?thesis by simp
    next
      case (Inr q)
      have "snd (compensate_loop L ledger (p # ps) d u s) =
          snd (compensate_loop L ledger ps (d @ [q]) u s1)"
        using a Inr unfolding loop_eligible[OF True f] by (simp add: bindM_run)
      moreover obtain n where "calls (snd (compensate_loop L ledger ps (d @ [q]) u s1)) =
          calls s1 @ take n (map undo_call (filter eligible ps))" using Cons.IH by blast
      moreover have "calls s1 = calls s @ [undo_call p]"
        using attempt_Inr(2)[OF a[unfolded Inr]] by (simp add: undo_call_def)
      ultimately show ?thesis using True by (intro exI[of _ "Suc n"]) simp
    qed
  next
    case False
    then obtain m :: "(('e, 'y) ledger_world_scheme, unit) action" where m: "keeps calls m" and eq: "compensate_loop L ledger (p # ps) d u =
        bindM m (\<lambda>_. compensate_loop L ledger ps d (u @ (if beyond_undo p then [cp_execution p] else [])))"
      by (rule loop_other)
    obtain r s1 where v: "m s = (r, s1)" by fastforce
    have c: "calls s1 = calls s" using keepsD[OF m v] by simp
    show ?thesis
    proof (cases r)
      case (Inl e)
      with v eq c show ?thesis by (intro exI[of _ 0]) (simp add: bindM_run)
    next
      case (Inr q)
      with v eq c False Cons.IH[of d "u @ (if beyond_undo p then [cp_execution p] else [])" s1]
      show ?thesis by (simp add: bindM_run)
    qed
  qed
qed simp

lemma keeps_run_event [keeps_intros]: "keeps calls (run_event L ledger ty failed ds)"
  unfolding run_event_def by (intro keeps_intros)

lemma compensate_returns:
  assumes "compensate L ledger plans failed s = (Inr sm, t)"
  shows "list_all2 attempt_of_execution (map cp_execution (filter eligible (rev plans))) (cs_results sm)"
    and "cs_uncompensated_executions sm = map cp_execution (filter beyond_undo (rev plans))"
    and "cs_status sm = summarize_status (cs_results sm) (cs_uncompensated_executions sm)"
    and "calls t = calls s @ map undo_call (filter eligible (rev plans))"
proof -
  from assms obtain x s1 rs us s2 z where
    1: "run_event L ledger ''compensation.started'' failed (\<lambda>failed.
       [(PyStr ''failed_execution_id'', PyStr (uuid_str (er_execution_id failed)))]) s = (Inr x, s1)"
    and 2: "compensate_loop L ledger (rev plans) [] [] s1 = (Inr (rs, us), s2)"
    and 3: "run_event L ledger ''compensation.completed'' failed (\<lambda>_.
       [(PyStr ''status'', PyStr (summary_status_value (summarize_status rs us)))]) s2 = (Inr z, t)"
    and sm: "sm = \<lparr>cs_status = summarize_status rs us, cs_results = rs, cs_uncompensated_executions = us\<rparr>"
    unfolding compensate_def by (auto simp: Let_def elim!: bindM_Inr_elim)
  from keepsD[OF keeps_run_event 1] keepsD[OF keeps_run_event 3] loop_returns[OF 2] sm
  show "list_all2 attempt_of_execution (map cp_execution (filter eligible (rev plans))) (cs_results sm)"
    "cs_uncompensated_executions sm = map cp_execution (filter beyond_undo (rev plans))"
    "cs_status sm = summarize_status (cs_results sm) (cs_uncompensated_executions sm)"
    "calls t = calls s @ map undo_call (filter eligible (rev plans))" by auto
qed

lemma compensate_calls:
  "\<exists>n. calls (snd (compensate L ledger plans failed s)) =
    calls s @ take n (map undo_call (filter eligible (rev plans)))"
proof -
  let ?start = "run_event L ledger ''compensation.started'' failed (\<lambda>failed.
       [(PyStr ''failed_execution_id'', PyStr (uuid_str (er_execution_id failed)))])"
  obtain r s1 where 1: "?start s = (r, s1)" by fastforce
  from keepsD[OF keeps_run_event 1] have c1: "calls s1 = calls s" .
  show ?thesis
  proof (cases r)
    case (Inl e)
    with 1 c1 show ?thesis by (intro exI[of _ 0]) (simp add: compensate_def bindM_run)
  next
    case (Inr x)
    have "calls (snd (compensate L ledger plans failed s)) =
        calls (snd (compensate_loop L ledger (rev plans) [] [] s1))"
      unfolding compensate_def bindM_run(2)[of ?start s x s1, OF 1[unfolded Inr]]
      by (rule keeps_then) (auto simp: Let_def intro!: keeps_intros split: prod.split)
    with loop_calls_prefix[of L ledger "rev plans" "[]" "[]" s1] c1 show ?thesis by simp
  qed
qed

text \<open>
  C25: Reverse order, at most once. The coordinator calls the compensators of the plans whose
  execution succeeded with a compensatable effect and that have a compensator, and of no
  others, once each and in reverse order of the plans: all of them when it returns a
  summary, and an initial part of that sequence in every case.
\<close>

theorem compensators_reverse_order:
  "case compensate L ledger plans failed s of (r, t) \<Rightarrow>
     (\<exists>n. calls t = calls s @ take n (rev (map undo_call (filter eligible plans)))) \<and>
     (case r of Inl _ \<Rightarrow> True | Inr _ \<Rightarrow> calls t = calls s @ rev (map undo_call (filter eligible plans)))"
proof -
  obtain r t where run: "compensate L ledger plans failed s = (r, t)" by fastforce
  have "\<exists>n. calls t = calls s @ take n (rev (map undo_call (filter eligible plans)))"
    using compensate_calls[of L ledger plans failed s] run by (simp add: rev_filter rev_map)
  moreover have "case r of Inl _ \<Rightarrow> True | Inr _ \<Rightarrow> calls t = calls s @ rev (map undo_call (filter eligible plans))"
    using compensate_returns(4)[of L ledger plans failed s _ t] run
    by (cases r) (simp_all add: rev_filter rev_map)
  ultimately show ?thesis using run by simp
qed

text \<open>
  C26: The summary accounts for every effect. Its results are one coherent result per
  attempted execution, in the order of the attempts; the uncompensated executions are
  exactly the successful irreversible ones and the compensatable ones without a compensator;
  and the status says what they amount to: NOT_REQUIRED if there was nothing to undo,
  COMPENSATED if everything was undone, FAILED if nothing was, PARTIALLY_COMPENSATED else.
\<close>

theorem compensation_summary_exact:
  assumes "compensate L ledger plans failed s = (Inr sm, t)"
  shows "list_all2 attempt_of_execution (map cp_execution (filter eligible (rev plans))) (cs_results sm) \<and>
    cs_uncompensated_executions sm = map cp_execution (filter beyond_undo (rev plans)) \<and>
    (let undone = \<exists>r \<in> set (cs_results sm). cr_succeeded r;
         left = (\<exists>r \<in> set (cs_results sm). \<not> cr_succeeded r) \<or> (\<exists>p \<in> set plans. beyond_undo p)
     in cs_status sm = (if undone then (if left then PARTIALLY_COMPENSATED else COMPENSATED)
                        else (if left then FAILED else NOT_REQUIRED)))"
proof -
  note r = compensate_returns[OF assms]
  have "cs_uncompensated_executions sm = [] \<longleftrightarrow> \<not> (\<exists>p \<in> set plans. beyond_undo p)"
    by (auto simp: r(2) filter_empty_conv)
  with r(1,2,3) show ?thesis
    by (cases "cs_results sm") (auto simp: summarize_status_def list_ex_iff list_all_iff Let_def)
qed

section \<open>Best effort\<close>

definition answers_json :: "'z libs_scheme \<Rightarrow> 'e compensation_plan \<Rightarrow> bool" where
  "answers_json L p \<longleftrightarrow> (\<forall>f e v. cp_compensator p = Some f \<longrightarrow>
     fst (f (cp_execution p) e) = Returned v \<longrightarrow> json_value L v)"

lemma failure_texts:
  assumes "pydantic_documented L"
  shows "ShortText L ''compensation_failed'' = Some ''compensation_failed''"
    "LongText L ''Compensator raised an exception.'' = Some ''Compensator raised an exception.''"
  by (rule ShortText_plain[OF assms] LongText_plain[OF assms]; simp add: white_space_def)+

lemma attempt_without_ledger:
  assumes doc: "pydantic_documented L" and "mono (utc_now s)"
    and "\<And>v. fst (f ex (ext s)) = Returned v \<Longrightarrow> json_value L v"
  shows "\<exists>r t. attempt_compensation L None ex f s = (Inr r, t) \<and> utc_now t = utc_now s \<and>
    (cr_succeeded r \<longleftrightarrow> fst (f ex (ext s)) \<noteq> Raised)"
proof -
  obtain o1 e1 where f: "f ex (ext s) = (o1, e1)" by fastforce
  have "utc_now s (tick s) \<le> utc_now s (Suc (tick s))" using assms(2) by (simp add: monoD)
  with f assms(3) show ?thesis
    using json_documented(1)[OF doc, of PyNone] failure_texts[OF doc]
    by (cases o1)
      (auto simp: attempt_compensation_def compensation_event_def call_compensator_def call_user_def
        tryM_def bindM_def[of "tryM _"] FailureDetail_def CompensationResult_def)
qed

lemma loop_without_ledger:
  assumes doc: "pydantic_documented L" and "mono (utc_now s)" and "\<forall>p \<in> set ps. answers_json L p"
  shows "\<exists>d' u' t. compensate_loop L None ps d u s = (Inr (d', u'), t)"
  using assms(2,3)
proof (induction ps arbitrary: d u s)
  case (Cons p ps)
  show ?case
  proof (cases "eligible p")
    case True
    then obtain f where f: "cp_compensator p = Some f" by (auto simp: eligible_def)
    have "json_value L v" if "fst (f (cp_execution p) (ext s)) = Returned v" for v
      using Cons.prems(2) f that by (auto simp: answers_json_def)
    from attempt_without_ledger[OF doc Cons.prems(1) this] obtain r t where
      "attempt_compensation L None (cp_execution p) f s = (Inr r, t)" "utc_now t = utc_now s" by blast
    with Cons.IH[of t "d @ [r]" u] Cons.prems show ?thesis
      unfolding loop_eligible[OF True f] by (simp add: bindM_run)
  next
    case False
    have "compensate_loop L None (p # ps) d u s =
        compensate_loop L None ps d (u @ (if beyond_undo p then [cp_execution p] else [])) s"
      using False by (cases "cp_effect_type p"; cases "cp_compensator p")
        (auto simp: eligible_def beyond_undo_def compensation_event_def COMPENSATABLE_EFFECTS_def Let_def)
    with Cons.IH[of s] Cons.prems show ?thesis by simp
  qed
qed simp

lemma run_event_None: "run_event L None ty failed ds = retM ()"
  by (cases failed) (simp_all add: run_event_def compensation_event_def)

lemma compensate_without_ledger:
  assumes "pydantic_documented L" and "mono (utc_now s)" and "\<forall>p \<in> set plans. answers_json L p"
  shows "\<exists>sm t. compensate L None plans failed s = (Inr sm, t)"
proof -
  obtain d u t where "compensate_loop L None (rev plans) [] [] s = (Inr (d, u), t)"
    using loop_without_ledger[OF assms(1,2), of "rev plans"] assms(3) by fastforce
  then show ?thesis by (simp add: compensate_def run_event_None bindM_run Let_def)
qed

text \<open>
  Best effort. Without a ledger, with a clock that does not run backwards and
  compensators that raise or return JSON values, the coordinator always returns a summary
  and has called every eligible compensator, however many of them raised.
\<close>

theorem compensation_best_effort:
  assumes "pydantic_documented L" and "mono (utc_now s)" and "\<forall>p \<in> set plans. answers_json L p"
  shows "\<exists>sm t. compensate L None plans failed s = (Inr sm, t) \<and>
    calls t = calls s @ rev (map undo_call (filter eligible plans)) \<and>
    length (cs_results sm) = length (filter eligible plans)"
proof -
  obtain sm t where run: "compensate L None plans failed s = (Inr sm, t)"
    using compensate_without_ledger[OF assms] by blast
  from compensate_returns(1,4)[OF run] run show ?thesis
    by (intro exI[of _ sm] exI[of _ t]) (auto simp: rev_filter rev_map dest: list_all2_lengthD simp flip: rev_filter)
qed

section \<open>Concrete plans, for the witnesses\<close>

definition sample_done :: "uuid \<Rightarrow> execution_result" where
  "sample_done i = \<lparr>er_execution_id = i, er_transaction_id = 1, er_intent_id = 2, er_succeeded = True,
     er_started_at = 0, er_completed_at = 1, er_output = PyNone, er_error = None,
     er_postcondition_verified = Some True\<rparr>"

definition undo_ok :: "unit compensator" where
  "undo_ok ex e = (Returned (PyBool True), e)"

definition undo_raises :: "unit compensator" where
  "undo_raises ex e = (Raised, e)"

definition undo_pair :: "unit compensator" where
  "undo_pair ex e = (Returned (PyTuple []), e)"

definition sample_plans :: "unit compensation_plan list" where
  "sample_plans =
     [\<lparr>cp_execution = sample_done 10, cp_effect_type = IRREVERSIBLE, cp_compensator = None\<rparr>,
      \<lparr>cp_execution = sample_done 11, cp_effect_type = REVERSIBLE, cp_compensator = Some undo_ok\<rparr>,
      \<lparr>cp_execution = sample_done 12, cp_effect_type = READ_ONLY, cp_compensator = None\<rparr>,
      \<lparr>cp_execution = sample_done 13, cp_effect_type = COMPENSATABLE, cp_compensator = Some undo_raises\<rparr>]"

definition sample_ledger_world :: "unit ledger_world" where
  "sample_ledger_world = \<lparr>tick = 0, uuid_source = of_nat, drawn = 0, utc_now = int, calls = [],
     ext = (), events = []\<rparr>"

lemma sample_plans_json: "\<forall>p \<in> set sample_plans. answers_json sample_libs p"
  using json_documented(1)[OF sample_libs_documented, of "PyBool True"]
  by (simp add: sample_plans_def answers_json_def undo_ok_def undo_raises_def)

lemma sample_utc: "mono (utc_now sample_ledger_world)"
  by (simp add: sample_ledger_world_def mono_def)

theorem compensation_summary_exact_witness:
  "\<exists>sm t. compensate sample_libs None sample_plans None sample_ledger_world = (Inr sm, t) \<and>
     cs_uncompensated_executions sm = [sample_done 10] \<and> length (cs_results sm) = 2"
proof -
  obtain sm t where run: "compensate sample_libs None sample_plans None sample_ledger_world = (Inr sm, t)"
    using compensate_without_ledger[OF sample_libs_documented sample_utc sample_plans_json] by blast
  from compensation_summary_exact[OF run] run show ?thesis
    by (auto simp: sample_plans_def eligible_def beyond_undo_def sample_done_def dest: list_all2_lengthD)
qed

theorem compensation_best_effort_witness:
  "\<exists>sm t. compensate sample_libs None sample_plans None sample_ledger_world = (Inr sm, t) \<and>
     calls t = [CompensatorCall 13, CompensatorCall 11]"
  using compensation_best_effort[OF sample_libs_documented sample_utc sample_plans_json, of None]
  by (auto simp: sample_plans_def eligible_def undo_call_def sample_done_def sample_ledger_world_def)

text \<open>
  C38: The best effort has a gap: a compensator that returns a value that is not a JSON value
  (a tuple, say) makes the coordinator raise after the call, no summary is returned, and the
  compensators of the earlier executions are not called.
\<close>

theorem compensation_aborted:
  assumes "pydantic_documented L" and "eligible p" and "cp_compensator p = Some f"
    and "\<And>e. \<exists>v. fst (f (cp_execution p) e) = Returned v \<and> \<not> json_shape v"
  shows "\<exists>e t. compensate L None (plans @ [p]) failed s = (Inl e, t) \<and> calls t = calls s @ [undo_call p]"
proof -
  obtain v where v: "fst (f (cp_execution p) (ext s)) = Returned v" "\<not> json_shape v" using assms(4) by blast
  then have nj: "\<not> json_value L v" using json_documented(2)[OF assms(1)] by blast
  obtain e1 where f: "f (cp_execution p) (ext s) = (Returned v, e1)" using v by (metis prod.collapse)
  have "\<exists>e t. attempt_compensation L None (cp_execution p) f s = (Inl e, t)"
    using nj f by (auto simp: attempt_compensation_def compensation_event_def call_compensator_def
        call_user_def tryM_def bindM_def[of "tryM _"] CompensationResult_def require_def)
  then obtain e t where a: "attempt_compensation L None (cp_execution p) f s = (Inl e, t)" by blast
  have "calls t = calls s @ [undo_call p]"
    using attempt_calls[of L None "cp_execution p" f s] a
    by (simp add: undo_call_def compensation_event_def)
  moreover have "compensate L None (plans @ [p]) failed s = (Inl e, t)"
    using a by (simp add: compensate_def bindM_run run_event_None loop_eligible[OF assms(2,3)] del: compensate_loop.simps)
  ultimately show ?thesis by blast
qed

theorem compensation_aborted_witness:
  "\<exists>e t. compensate sample_libs None (sample_plans @
      [\<lparr>cp_execution = sample_done 14, cp_effect_type = REVERSIBLE, cp_compensator = Some undo_pair\<rparr>]) None
      sample_ledger_world = (Inl e, t) \<and> calls t = [CompensatorCall 14]"
  using compensation_aborted[OF sample_libs_documented,
      of "\<lparr>cp_execution = sample_done 14, cp_effect_type = REVERSIBLE, cp_compensator = Some undo_pair\<rparr>"
        undo_pair sample_plans None sample_ledger_world]
  by (simp add: eligible_def undo_pair_def undo_call_def sample_done_def sample_ledger_world_def)

end
