(* ===== verification/Outbox.thy ===== *)
theory Outbox
  imports Audit_Ledger Execution_Models
begin

text \<open>
  The effect outbox (\<^verbatim>\<open>outbox/models.py\<close>, \<^verbatim>\<open>outbox/backend.py\<close>): operations that are staged
  with their handler and released, at most once, after commit. The two dictionaries of the
  in-memory backend are fields of the state, the operations in insertion order. \<^verbatim>\<open>stage\<close>,
  \<^verbatim>\<open>release\<close> and \<^verbatim>\<open>list_operations\<close> hold the backend's lock from start to end, the call of the
  handler included, and are atomic steps; \<^verbatim>\<open>release_all\<close> is a sequence of such steps, here without
  interruption and in Outbox_Threads interleaved. The calls of staged handlers are recorded in \<open>calls\<close> with the
  identifier of their operation.
\<close>

section \<open>Models\<close>

datatype outbox_status = STAGED | RELEASED | FAILED

fun outbox_status_value :: "outbox_status \<Rightarrow> string" where
  "outbox_status_value STAGED = ''staged''"
| "outbox_status_value RELEASED = ''released''"
| "outbox_status_value FAILED = ''failed''"

record outbox_operation =
  op_operation_id :: uuid
  op_transaction_id :: uuid
  op_operation_name :: string
  op_arguments :: json_object
  op_status :: outbox_status
  op_staged_at :: time
  op_released_at :: "time option"
  op_output :: pyval
  op_error :: "failure_detail option"

definition validate_status_fields :: "outbox_operation \<Rightarrow> outbox_operation result" where
  "validate_status_fields p =
     bindR (case op_status p of
         STAGED \<Rightarrow>
           if op_released_at p \<noteq> None \<or> op_output p \<noteq> PyNone then
             Inl (ValidationError ''staged outbox operations cannot contain release data'')
           else require (op_error p = None)
             (ValidationError ''staged outbox operations cannot contain an error'')
       | RELEASED \<Rightarrow>
           if op_released_at p = None then
             Inl (ValidationError ''released outbox operations require released_at'')
           else require (op_error p = None)
             (ValidationError ''released outbox operations cannot contain an error'')
       | FAILED \<Rightarrow>
           if op_released_at p = None then
             Inl (ValidationError ''failed outbox operations require released_at'')
           else require (op_error p \<noteq> None)
             (ValidationError ''failed outbox operations require an error'')) (\<lambda>_.
     if (case op_released_at p of None \<Rightarrow> False | Some r \<Rightarrow> r < op_staged_at p) then
       Inl (ValidationError ''released_at must not precede staged_at'')
     else Inr p)"

definition OutboxOperation :: "'z libs_scheme \<Rightarrow> outbox_operation \<Rightarrow> outbox_operation result" where
  "OutboxOperation L p =
     bindR (text_field (DomainName L) ''operation_name'' (op_operation_name p)) (\<lambda>name.
     bindR (require (JsonObject L (op_arguments p)) (ValidationError ''arguments'')) (\<lambda>_.
     bindR (require (json_value L (op_output p)) (ValidationError ''output'')) (\<lambda>_.
     validate_status_fields (p\<lparr>op_operation_name := name\<rparr>))))"

record outbox_release_summary =
  rs_transaction_id :: uuid
  rs_released :: "outbox_operation list"
  rs_failed :: "outbox_operation list"

definition summary_succeeded :: "outbox_release_summary \<Rightarrow> bool" where
  "summary_succeeded r \<longleftrightarrow> rs_failed r = []"

section \<open>The backend\<close>

record 'e outbox =
  ob_clock :: clock
  ob_ledger :: "'e ledger option"

definition InMemoryOutboxBackend :: "clock \<Rightarrow> clock option \<Rightarrow> 'e ledger option \<Rightarrow> 'e outbox" where
  "InMemoryOutboxBackend utc clk ledger =
     \<lparr>ob_clock = (case clk of None \<Rightarrow> utc | Some c \<Rightarrow> c), ob_ledger = ledger\<rparr>"

record 'e outbox_world = "'e ledger_world" +
  operations :: "(uuid \<times> outbox_operation) list"
  staged_handlers :: "uuid \<Rightarrow> 'e handler option"

definition outbox_event ::
  "'z libs_scheme \<Rightarrow> 'e outbox \<Rightarrow> string \<Rightarrow> outbox_operation \<Rightarrow> (('e, 'y) outbox_world_scheme, unit) action" where
  "outbox_event L ob event_type operation =
     (case ob_ledger ob of
        None \<Rightarrow> retM ()
      | Some l \<Rightarrow>
          bindM (ledger_append L l
            \<lparr>rq_correlation_id = op_transaction_id operation, rq_event_type = event_type,
             rq_intent_id = None, rq_transaction_id = Some (op_transaction_id operation),
             rq_actor_id = None,
             rq_details = Some
               [(PyStr ''operation_id'', PyStr (uuid_str (op_operation_id operation))),
                (PyStr ''operation_name'', PyStr (op_operation_name operation)),
                (PyStr ''status'', PyStr (outbox_status_value (op_status operation)))]\<rparr>) (\<lambda>_. retM ()))"

definition stage ::
  "'z libs_scheme \<Rightarrow> 'e outbox \<Rightarrow> uuid \<Rightarrow> string \<Rightarrow> json_object \<Rightarrow> 'e handler option \<Rightarrow>
   (('e, 'y) outbox_world_scheme, outbox_operation) action" where
  "stage L ob transaction_id operation_name arguments handler =
     (case handler of
        None \<Rightarrow> raiseM (TypeErr ''handler must be callable'')
      | Some h \<Rightarrow>
          bindM uuid4 (\<lambda>operation_id.
          bindM (read_clock (ob_clock ob)) (\<lambda>staged_at.
          bindM (liftM (OutboxOperation L
            \<lparr>op_operation_id = operation_id, op_transaction_id = transaction_id,
             op_operation_name = operation_name, op_arguments = arguments, op_status = STAGED,
             op_staged_at = staged_at, op_released_at = None, op_output = PyNone,
             op_error = None\<rparr>)) (\<lambda>operation.
          bindM (modifyM (\<lambda>s. s\<lparr>operations := dict_set (op_operation_id operation) operation (operations s),
            staged_handlers := (staged_handlers s)(op_operation_id operation \<mapsto> h)\<rparr>)) (\<lambda>_.
          bindM (outbox_event L ob ''outbox.staged'' operation) (\<lambda>_.
          retM operation))))))"

definition call_staged ::
  "'e handler \<Rightarrow> outbox_operation \<Rightarrow> (('e, 'y) world_scheme, pyval) action" where
  "call_staged handler operation =
     bindM (note_call (ReleaseCall (op_operation_id operation))) (\<lambda>_.
     call_user (handler (op_arguments operation)))"

definition release_staged ::
  "'z libs_scheme \<Rightarrow> 'e outbox \<Rightarrow> uuid \<Rightarrow> outbox_operation \<Rightarrow> 'e handler \<Rightarrow>
   (('e, 'y) outbox_world_scheme, outbox_operation) action" where
  "release_staged L ob operation_id operation handler =
     bindM (tryM (call_staged handler operation)) (\<lambda>out.
     bindM (read_clock (ob_clock ob)) (\<lambda>released_at.
     bindM (case out of
         None \<Rightarrow>
           bindM (liftM (FailureDetail L \<lparr>fd_code = ''outbox_release_failed'',
             fd_message = ''Staged operation handler raised an exception.''\<rparr>)) (\<lambda>error.
           liftM (OutboxOperation L
             \<lparr>op_operation_id = op_operation_id operation,
              op_transaction_id = op_transaction_id operation,
              op_operation_name = op_operation_name operation,
              op_arguments = op_arguments operation, op_status = FAILED,
              op_staged_at = op_staged_at operation, op_released_at = Some released_at,
              op_output = PyNone, op_error = Some error\<rparr>))
       | Some output \<Rightarrow>
           liftM (OutboxOperation L
             \<lparr>op_operation_id = op_operation_id operation,
              op_transaction_id = op_transaction_id operation,
              op_operation_name = op_operation_name operation,
              op_arguments = op_arguments operation, op_status = RELEASED,
              op_staged_at = op_staged_at operation, op_released_at = Some released_at,
              op_output = output, op_error = None\<rparr>)) (\<lambda>released.
     bindM (modifyM (\<lambda>s. s\<lparr>operations := dict_set operation_id released (operations s)\<rparr>)) (\<lambda>_.
     bindM (outbox_event L ob (if op_status released = RELEASED then ''outbox.released''
       else ''outbox.release_failed'') released) (\<lambda>_.
     retM released)))))"

definition release ::
  "'z libs_scheme \<Rightarrow> 'e outbox \<Rightarrow> uuid \<Rightarrow> (('e, 'y) outbox_world_scheme, outbox_operation) action" where
  "release L ob operation_id =
     bindM (getM (\<lambda>s. map_of (operations s) operation_id)) (\<lambda>found.
     case found of
       None \<Rightarrow> raiseM (UnknownOutboxOperationError operation_id)
     | Some operation \<Rightarrow>
         if op_status operation \<noteq> STAGED then retM operation
         else
           bindM (getM (\<lambda>s. staged_handlers s operation_id)) (\<lambda>h.
           case h of
             None \<Rightarrow> raiseM (KeyErr (uuid_str operation_id))
           | Some handler \<Rightarrow> release_staged L ob operation_id operation handler))"

definition list_operations ::
  "('e, 'y) outbox_world_scheme \<Rightarrow> uuid option \<Rightarrow> outbox_operation list" where
  "list_operations s transaction_id =
     (case transaction_id of
        None \<Rightarrow> map snd (operations s)
      | Some t \<Rightarrow> filter (\<lambda>p. op_transaction_id p = t) (map snd (operations s)))"

fun release_loop ::
  "'z libs_scheme \<Rightarrow> 'e outbox \<Rightarrow> outbox_operation list \<Rightarrow> outbox_operation list \<Rightarrow> outbox_operation list \<Rightarrow>
   (('e, 'y) outbox_world_scheme, outbox_operation list \<times> outbox_operation list) action" where
  "release_loop L ob [] released failed = retM (released, failed)"
| "release_loop L ob (operation # rest) released failed =
     bindM (release L ob (op_operation_id operation)) (\<lambda>result.
     if op_status result = RELEASED then release_loop L ob rest (released @ [result]) failed
     else release_loop L ob rest released (failed @ [result]))"

definition release_all ::
  "'z libs_scheme \<Rightarrow> 'e outbox \<Rightarrow> uuid \<Rightarrow> (('e, 'y) outbox_world_scheme, outbox_release_summary) action" where
  "release_all L ob transaction_id =
     bindM (getM (\<lambda>s. filter (\<lambda>p. op_status p = STAGED) (list_operations s (Some transaction_id)))) (\<lambda>staged.
     bindM (release_loop L ob staged [] []) (\<lambda>(released, failed).
     retM \<lparr>rs_transaction_id = transaction_id, rs_released = released, rs_failed = failed\<rparr>))"

end
