(* ===== verification/Outbox_Correctness.thy ===== *)
theory Outbox_Correctness
  imports Outbox
begin

text \<open>
  The outbox releases an operation at most once: when \<open>release\<close> has returned a result for an
  operation, every later release returns that result and calls no handler. Staging calls no
  handler, and \<open>release_all\<close> calls the handlers of the staged operations of its transaction
  in the order in which they were staged.
\<close>

section \<open>What the methods leave alone\<close>

lemma keeps_outbox_event [keeps_intros]: "keeps calls (outbox_event L ob ty p)"
  unfolding outbox_event_def by (intro keeps_intros)

lemma outside_operations:
  fixes m :: "(('e, 'y) outbox_world_scheme, 'a) action"
  assumes "keeps outside m"
  shows "keeps operations m" and "keeps staged_handlers m"
proof -
  have *: "ledger_world.more (snd (m s)) = ledger_world.more s" for s
    using assms by (simp add: keeps_def outside_def)
  show "keeps operations m" "keeps staged_handlers m"
    unfolding keeps_def
    by (rule allI, use * in \<open>metis outbox_world.surjective outbox_world.select_convs ledger_world.select_convs\<close>)+
qed

lemma outbox_event_outside [keeps_intros]: "keeps outside (outbox_event L ob ty p)"
  unfolding outbox_event_def by (intro keeps_intros)

lemmas outbox_event_operations = outside_operations[OF outbox_event_outside]

lemma call_staged_calls:
  "calls (snd (call_staged h p s)) = calls s @ [ReleaseCall (op_operation_id p)]"
  by (simp add: call_staged_def keeps_snd keeps_calls)

lemma call_staged_outside [keeps_intros]: "keeps outside (call_staged h p)"
  unfolding call_staged_def by (intro keeps_intros)

section \<open>Operations\<close>

definition coherent_operation :: "outbox_operation \<Rightarrow> bool" where
  "coherent_operation p \<longleftrightarrow> (case op_status p of
       STAGED \<Rightarrow> op_released_at p = None \<and> op_output p = PyNone \<and> op_error p = None
     | RELEASED \<Rightarrow> op_released_at p \<noteq> None \<and> op_error p = None
     | FAILED \<Rightarrow> op_released_at p \<noteq> None \<and> op_error p \<noteq> None) \<and>
     (\<forall>r. op_released_at p = Some r \<longrightarrow> op_staged_at p \<le> r)"

lemma validate_status_fields_Inr: "validate_status_fields p = Inr q \<longleftrightarrow> q = p \<and> coherent_operation p"
  by (cases "op_status p"; cases "op_released_at p")
    (auto simp: validate_status_fields_def coherent_operation_def bindR_Inr_iff not_less split: if_splits)

lemma OutboxOperation_Inr:
  "OutboxOperation L p = Inr q \<longleftrightarrow>
     (\<exists>n. DomainName L (op_operation_name p) = Some n \<and> q = p\<lparr>op_operation_name := n\<rparr>) \<and>
     JsonObject L (op_arguments p) \<and> json_value L (op_output p) \<and> coherent_operation q"
  by (auto simp: OutboxOperation_def bindR_Inr_iff validate_status_fields_Inr)

text \<open>A release that calls the handler: what it stores, if it stores anything.\<close>

lemma release_staged_calls:
  "calls (snd (release_staged L ob i p h s)) = calls s @ [ReleaseCall (op_operation_id p)]"
  unfolding release_staged_def
  by (subst keeps_then) (auto intro!: keeps_intros keeps_modifyM simp: call_staged_calls)

definition settles :: "outbox_operation \<Rightarrow> outbox_operation \<Rightarrow> bool" where
  "settles p q \<longleftrightarrow> op_operation_id q = op_operation_id p \<and> op_transaction_id q = op_transaction_id p \<and>
     op_arguments q = op_arguments p \<and> op_staged_at q = op_staged_at p \<and>
     op_status q \<noteq> STAGED \<and> coherent_operation q"

definition built_release ::
  "'z libs_scheme \<Rightarrow> 'e outbox \<Rightarrow> outbox_operation \<Rightarrow> pyval option \<Rightarrow>
   (('e, 'y) outbox_world_scheme, outbox_operation) action" where
  "built_release L ob p out = bindM (read_clock (ob_clock ob)) (\<lambda>released_at.
     case out of
         None \<Rightarrow>
           bindM (liftM (FailureDetail L \<lparr>fd_code = ''outbox_release_failed'',
             fd_message = ''Staged operation handler raised an exception.''\<rparr>)) (\<lambda>error.
           liftM (OutboxOperation L
             \<lparr>op_operation_id = op_operation_id p, op_transaction_id = op_transaction_id p,
              op_operation_name = op_operation_name p, op_arguments = op_arguments p, op_status = FAILED,
              op_staged_at = op_staged_at p, op_released_at = Some released_at,
              op_output = PyNone, op_error = Some error\<rparr>))
       | Some output \<Rightarrow>
           liftM (OutboxOperation L
             \<lparr>op_operation_id = op_operation_id p, op_transaction_id = op_transaction_id p,
              op_operation_name = op_operation_name p, op_arguments = op_arguments p, op_status = RELEASED,
              op_staged_at = op_staged_at p, op_released_at = Some released_at,
              op_output = output, op_error = None\<rparr>))"

lemma release_staged_eq:
  "release_staged L ob i p h = bindM (tryM (call_staged h p)) (\<lambda>out.
     bindM (built_release L ob p out) (\<lambda>released.
     bindM (modifyM (\<lambda>s. s\<lparr>operations := dict_set i released (operations s)\<rparr>)) (\<lambda>_.
     bindM (outbox_event L ob (if op_status released = RELEASED then ''outbox.released''
       else ''outbox.release_failed'') released) (\<lambda>_.
     retM released))))"
  by (auto simp: release_staged_def built_release_def bindM_def fun_eq_iff read_clock_def
      split: option.split prod.split sum.split)

lemma built_release_Inr: "built_release L ob p out s = (Inr q, t) \<Longrightarrow> settles p q"
  by (auto simp: built_release_def settles_def OutboxOperation_Inr elim!: bindM_Inr_elim
      split: option.splits)

lemma built_release_outside [keeps_intros]: "keeps outside (built_release L ob p out)"
  unfolding built_release_def by (intro keeps_intros)

lemma release_staged_cases:
  obtains (kept) e where "fst (release_staged L ob i p h s) = Inl e"
      "operations (snd (release_staged L ob i p h s)) = operations s"
  | (settled) q where "settles p q"
      "operations (snd (release_staged L ob i p h s)) = dict_set i q (operations s)"
      "\<And>r. fst (release_staged L ob i p h s) = Inr r \<Longrightarrow> r = q"
proof -
  obtain out s1 where 1: "tryM (call_staged h p) s = (Inr out, s1)"
    by (cases "call_staged h p s"; cases "fst (call_staged h p s)") (auto simp: tryM_def)
  have o1: "operations s1 = operations s"
    using keepsD[OF outside_operations(1)[OF keeps_tryM[OF call_staged_outside]] 1] .
  obtain r s2 where 2: "built_release L ob p out s1 = (r, s2)" by fastforce
  have o2: "operations s2 = operations s"
    using keepsD[OF outside_operations(1)[OF built_release_outside] 2] o1 by simp
  show thesis
  proof (cases r)
    case (Inl e)
    with 1 2 o2 show ?thesis by (intro kept[of e]) (simp_all add: release_staged_eq bindM_run)
  next
    case (Inr q)
    let ?ev = "outbox_event L ob (if op_status q = RELEASED then ''outbox.released''
       else ''outbox.release_failed'') q"
    let ?s3 = "s2\<lparr>operations := dict_set i q (operations s2)\<rparr>"
    obtain r3 s4 where 3: "?ev ?s3 = (r3, s4)" by fastforce
    have o3: "operations s4 = dict_set i q (operations s)"
      using keepsD[OF outbox_event_operations(1) 3] o2 by simp
    have run: "release_staged L ob i p h s = (case r3 of Inl e \<Rightarrow> Inl e | Inr _ \<Rightarrow> Inr q, s4)"
      using 1 2 3 Inr by (simp add: release_staged_eq bindM_run bindM_cases split: sum.split)
    show ?thesis
      by (rule settled[OF built_release_Inr[OF 2[unfolded Inr]]])
        (simp_all add: run o3 split: sum.splits)
  qed
qed

section \<open>The store of operations\<close>

text \<open>The entry of an operation after a release of \<open>i\<close>: as before, or settled.\<close>

lemma release_operations:
  obtains (same) "operations (snd (release L ob i s)) = operations s"
  | (settled) p q where "map_of (operations s) i = Some p" "op_status p = STAGED" "settles p q"
      "operations (snd (release L ob i s)) = dict_set i q (operations s)"
      "\<And>r. fst (release L ob i s) = Inr r \<Longrightarrow> r = q"
proof (cases "map_of (operations s) i")
  case None
  then show ?thesis by (intro same) (simp add: release_def)
next
  case (Some p)
  show ?thesis
  proof (cases "op_status p = STAGED \<and> staged_handlers s i \<noteq> None")
    case False
    with Some show ?thesis by (intro same) (auto simp: release_def)
  next
    case True
    then obtain h where h: "staged_handlers s i = Some h" and st: "op_status p = STAGED" by blast
    have run: "release L ob i s = release_staged L ob i p h s" using Some st h by (simp add: release_def)
    show ?thesis
      by (cases rule: release_staged_cases[of L ob i p h s])
        (use run Some st in \<open>auto intro: same settled\<close>)
  qed
qed

lemma release_calls:
  "calls (snd (release L ob i s)) = calls s @
     (case map_of (operations s) i of
        Some p \<Rightarrow> if op_status p = STAGED \<and> staged_handlers s i \<noteq> None
                  then [ReleaseCall (op_operation_id p)] else []
      | None \<Rightarrow> [])"
  by (auto simp: release_def release_staged_calls split: option.split)

definition settled_operation :: "('e, 'y) outbox_world_scheme \<Rightarrow> uuid \<Rightarrow> outbox_operation option" where
  "settled_operation s i = (case map_of (operations s) i of
     Some p \<Rightarrow> if op_status p = STAGED then None else Some p | None \<Rightarrow> None)"

lemma release_keeps_settled:
  assumes "settled_operation s k = Some p"
  shows "settled_operation (snd (release L ob i s)) k = Some p"
  by (cases rule: release_operations[of L ob i s])
    (use assms in \<open>auto simp: settled_operation_def split: option.splits if_splits\<close>)

definition outbox_inv :: "('e, 'y) outbox_world_scheme \<Rightarrow> bool" where
  "outbox_inv s \<longleftrightarrow> distinct (map fst (operations s)) \<and>
     (\<forall>(i, p) \<in> set (operations s). op_operation_id p = i \<and> coherent_operation p \<and>
        staged_handlers s i \<noteq> None)"

lemma release_staged_handlers: "keeps staged_handlers (release_staged L ob i p h)"
  unfolding release_staged_def
  by (intro keeps_intros outside_operations(2)[OF keeps_tryM[OF call_staged_outside]]
      outside_operations(2)[OF keeps_outside(2)] outbox_event_operations(2) keeps_modifyM) simp_all

lemma release_handlers: "staged_handlers (snd (release L ob i s)) = staged_handlers s"
  by (auto simp: release_def keeps_snd[OF release_staged_handlers] split: option.split)

lemma release_inv:
  assumes "outbox_inv s"
  shows "outbox_inv (snd (release L ob i s))"
proof -
  let ?t = "snd (release L ob i s)"
  have h: "staged_handlers ?t = staged_handlers s" by (rule release_handlers)
  show ?thesis
  proof (cases rule: release_operations[of L ob i s])
    case same
    with assms h show ?thesis by (simp add: outbox_inv_def)
  next
    case (settled p q)
    have pi: "(i, p) \<in> set (operations s)" using settled(1) by (rule map_of_SomeD)
    have d: "distinct (map fst (operations ?t))"
      using assms settled(4) by (simp add: outbox_inv_def distinct_dict_set)
    have new: "(k, x) \<in> set (operations s) \<or> k = i \<and> x = q" if "(k, x) \<in> set (operations ?t)" for k x
    proof -
      from that d have "map_of (operations ?t) k = Some x" by (simp add: map_of_is_SomeI)
      then show ?thesis unfolding settled(4) by (auto split: if_splits dest: map_of_SomeD)
    qed
    have "op_operation_id q = i" "coherent_operation q" "staged_handlers s i \<noteq> None"
      using settled(3) pi assms by (auto simp: settles_def outbox_inv_def)
    with d h new assms show ?thesis unfolding outbox_inv_def by fastforce
  qed
qed

lemma stage_calls: "calls (snd (stage L ob tx name args h s)) = calls s"
proof -
  have "keeps calls (stage L ob tx name args h)"
    unfolding stage_def by (intro keeps_intros keeps_modifyM) simp_all
  then show ?thesis by (rule keeps_snd)
qed

text \<open>
  Staging draws a new identifier: that \<^verbatim>\<open>uuid4\<close> does not draw one that is already in use
  is its documented behaviour, and the hypothesis \<open>fresh_id\<close> of what follows.
\<close>

definition fresh_id :: "('e, 'y) outbox_world_scheme \<Rightarrow> bool" where
  "fresh_id s \<longleftrightarrow> map_of (operations s) (uuid_source s (drawn s)) = None"

lemma stage_operations:
  assumes "fresh_id s"
  obtains (same) "operations (snd (stage L ob tx name args h s)) = operations s"
      "staged_handlers (snd (stage L ob tx name args h s)) = staged_handlers s"
  | (added) p f where "op_status p = STAGED" "op_operation_id p = uuid_source s (drawn s)"
      "op_transaction_id p = tx" "op_arguments p = args" "coherent_operation p" "h = Some f"
      "operations (snd (stage L ob tx name args h s)) = operations s @ [(uuid_source s (drawn s), p)]"
      "staged_handlers (snd (stage L ob tx name args h s)) =
         (staged_handlers s)(uuid_source s (drawn s) \<mapsto> f)"
      "\<And>r. fst (stage L ob tx name args h s) = Inr r \<Longrightarrow> r = p"
proof (cases h)
  case None
  then show ?thesis by (intro same) (simp_all add: stage_def)
next
  case (Some f)
  let ?i = "uuid_source s (drawn s)"
  let ?raw = "\<lparr>op_operation_id = ?i, op_transaction_id = tx, op_operation_name = name,
    op_arguments = args, op_status = STAGED, op_staged_at = ob_clock ob (tick s),
    op_released_at = None, op_output = PyNone, op_error = None\<rparr>"
  show ?thesis
  proof (cases "OutboxOperation L ?raw")
    case (Inl e)
    with Some show ?thesis by (intro same) (simp_all add: stage_def)
  next
    case (Inr p)
    then have p: "op_status p = STAGED" "op_operation_id p = ?i" "op_transaction_id p = tx"
      "op_arguments p = args" "coherent_operation p" by (auto simp: OutboxOperation_Inr)
    let ?s1 = "s\<lparr>drawn := Suc (drawn s), tick := Suc (tick s),
      operations := dict_set ?i p (operations s), staged_handlers := (staged_handlers s)(?i \<mapsto> f)\<rparr>"
    obtain r t where ev: "outbox_event L ob ''outbox.staged'' p ?s1 = (r, t)" by fastforce
    have run: "stage L ob tx name args h s = (case r of Inl e \<Rightarrow> Inl e | Inr _ \<Rightarrow> Inr p, t)"
      using Inr Some ev p(2) by (simp add: stage_def bindM_cases[of "outbox_event _ _ _ _"] split: sum.split)
    have t: "operations t = dict_set ?i p (operations s)" "staged_handlers t = (staged_handlers s)(?i \<mapsto> f)"
      using keepsD[OF outbox_event_operations(1) ev] keepsD[OF outbox_event_operations(2) ev] by simp_all
    have "operations t = operations s @ [(?i, p)]"
      using t(1) assms by (simp add: dict_set_fresh fresh_id_def)
    with p t(2) Some run show ?thesis
      by (intro added[of p f]) (simp_all split: sum.splits)
  qed
qed

lemma stage_inv:
  assumes "outbox_inv s" and "fresh_id s"
  shows "outbox_inv (snd (stage L ob tx name args h s))"
  using assms(2)
proof (cases rule: stage_operations[of s L ob tx name args h])
  case same
  with assms show ?thesis by (simp add: outbox_inv_def)
next
  case (added p f)
  have "uuid_source s (drawn s) \<notin> fst ` set (operations s)"
    using assms(2) by (simp add: fresh_id_def map_of_eq_None_iff)
  with added assms(1) show ?thesis unfolding outbox_inv_def by fastforce
qed

section \<open>Histories\<close>

datatype 'e outbox_op =
  Stage uuid string json_object "'e handler option"
| Release uuid

fun outbox_step ::
  "'z libs_scheme \<Rightarrow> 'e outbox \<Rightarrow> 'e outbox_op \<Rightarrow> ('e, 'y) outbox_world_scheme \<Rightarrow> ('e, 'y) outbox_world_scheme" where
  "outbox_step L ob (Stage tx name args h) s = snd (stage L ob tx name args h s)"
| "outbox_step L ob (Release i) s = snd (release L ob i s)"

fun allowed_step :: "'e outbox_op \<Rightarrow> ('e, 'y) outbox_world_scheme \<Rightarrow> bool" where
  "allowed_step (Stage _ _ _ _) s \<longleftrightarrow> fresh_id s"
| "allowed_step (Release _) s \<longleftrightarrow> True"

fun fresh_run :: "'z libs_scheme \<Rightarrow> 'e outbox \<Rightarrow> 'e outbox_op list \<Rightarrow> ('e, 'y) outbox_world_scheme \<Rightarrow> bool" where
  "fresh_run L ob [] s \<longleftrightarrow> True"
| "fresh_run L ob (p # ps) s \<longleftrightarrow> allowed_step p s \<and> fresh_run L ob ps (outbox_step L ob p s)"

definition fresh_step ::
  "'z libs_scheme \<Rightarrow> 'e outbox \<Rightarrow> 'e outbox_op \<Rightarrow> ('e, 'y) outbox_world_scheme \<Rightarrow> ('e, 'y) outbox_world_scheme" where
  "fresh_step L ob p s = (if allowed_step p s then outbox_step L ob p s else s)"

lemma fresh_run_fold: "fresh_run L ob ps s \<Longrightarrow> fold (fresh_step L ob) ps s = fold (outbox_step L ob) ps s"
  by (induction ps arbitrary: s) (simp_all add: fresh_step_def)

lemma stage_keeps_settled:
  assumes "fresh_id s" and "settled_operation s k = Some p"
  shows "settled_operation (snd (stage L ob tx name args h s)) k = Some p"
  using assms(1)
  by (cases rule: stage_operations[of s L ob tx name args h])
    (use assms in \<open>auto simp: settled_operation_def map_add_def split: option.splits\<close>)

interpretation settled_ops: stable_store settled_operation "fresh_step L ob"
proof
  fix s :: "('a, 'b) outbox_world_scheme" and p k v
  show "settled_operation (fresh_step L ob p s) k = Some v" if "settled_operation s k = Some v"
    using that by (cases p) (simp_all add: fresh_step_def stage_keeps_settled release_keeps_settled)
qed

interpretation outbox: guarded_store settled_operation "fresh_step L ob" outbox_inv
proof
  fix s :: "('a, 'b) outbox_world_scheme" and p k v
  show "outbox_inv (fresh_step L ob p s)" if "outbox_inv s"
    using that by (cases p) (simp_all add: fresh_step_def stage_inv release_inv)
  show "settled_operation (fresh_step L ob p s) k = Some v" if "settled_operation s k = Some v"
    using that by (rule settled_ops.find_step)
qed

lemma release_settled: "settled_operation s i = Some p \<Longrightarrow> release L ob i s = (Inr p, s)"
  by (auto simp: settled_operation_def release_def split: option.splits if_splits)

lemma release_settles:
  assumes "release L ob i s = (Inr p, t)"
  shows "settled_operation t i = Some p"
proof (cases "settled_operation s i")
  case (Some q)
  with assms show ?thesis by (simp add: release_settled)
next
  case None
  with assms obtain x h where x: "map_of (operations s) i = Some x" "op_status x = STAGED"
    "release L ob i s = release_staged L ob i x h s"
    by (auto simp: settled_operation_def release_def split: option.splits if_splits)
  show ?thesis
    by (cases rule: release_staged_cases[of L ob i x h s])
      (use assms x in \<open>auto simp: settled_operation_def settles_def\<close>)
qed

section \<open>A concrete outbox, for the witnesses\<close>

definition sample_outbox :: "unit outbox" where
  "sample_outbox = InMemoryOutboxBackend int None None"

definition sample_staged :: "uuid \<Rightarrow> outbox_operation" where
  "sample_staged i = \<lparr>op_operation_id = i, op_transaction_id = 1, op_operation_name = ''notify'',
     op_arguments = [], op_status = STAGED, op_staged_at = 0, op_released_at = None,
     op_output = PyNone, op_error = None\<rparr>"

definition sample_outbox_world :: "unit handler \<Rightarrow> unit outbox_world" where
  "sample_outbox_world h = \<lparr>tick = 1, uuid_source = of_nat, drawn = 9, utc_now = int, calls = [],
     ext = (), events = [], operations = [(5, sample_staged 5), (6, sample_staged 6)],
     staged_handlers = (\<lambda>_. Some h)\<rparr>"

definition handler_ok :: "unit handler" where
  "handler_ok args e = (Returned (PyStr ''sent''), e)"

definition handler_tuple :: "unit handler" where
  "handler_tuple args e = (Returned (PyTuple []), e)"

lemma sample_outbox_parts [simp]: "ob_ledger sample_outbox = None" "ob_clock sample_outbox = int"
  by (simp_all add: sample_outbox_def InMemoryOutboxBackend_def)

lemma sample_outbox_inv: "outbox_inv (sample_outbox_world h)"
  by (simp add: outbox_inv_def sample_outbox_world_def sample_staged_def coherent_operation_def)

lemma sample_notify: "DomainName sample_libs ''notify'' = Some ''notify''"
  by (rule DomainName_plain[OF sample_libs_documented])
    (simp_all add: domain_name_form_def lower_alpha_def)

lemma sample_json: "json_value sample_libs (PyStr v)" "json_value sample_libs PyNone"
  by (simp_all add: json_documented(1)[OF sample_libs_documented])

lemma sample_release:
  "release sample_libs sample_outbox i (sample_outbox_world handler_ok) =
    (if i = 5 \<or> i = 6 then
       (let q = (sample_staged i)\<lparr>op_status := RELEASED, op_released_at := Some 1, op_output := PyStr ''sent''\<rparr>;
            s = sample_outbox_world handler_ok
        in (Inr q, s\<lparr>calls := [ReleaseCall i], tick := 2, operations := dict_set i q (operations s)\<rparr>))
     else (Inl (UnknownOutboxOperationError i), sample_outbox_world handler_ok))"
  by (simp add: release_def sample_outbox_world_def release_staged_def call_staged_def call_user_def
      tryM_def bindM_def[of "tryM _"] handler_ok_def sample_staged_def OutboxOperation_def sample_notify
      sample_json validate_status_fields_def outbox_event_def Let_def)

text \<open>
  C21: Released at most once. When \<^verbatim>\<open>release\<close> has returned a result for an operation, then
  after any history of further staging and releasing of any operations a release of the same
  operation returns the same result and does nothing else: no handler is called.
\<close>

theorem release_idempotent:
  assumes "release L ob i s = (Inr p, t)" and "fresh_run L ob ps t"
  shows "release L ob i (fold (outbox_step L ob) ps t) = (Inr p, fold (outbox_step L ob) ps t)"
proof -
  have "settled_operation (fold (fresh_step L ob) ps t) i = Some p"
    by (rule settled_ops.find_run[OF release_settles[OF assms(1)]])
  then show ?thesis by (simp add: release_settled fresh_run_fold[OF assms(2)])
qed

theorem release_idempotent_witness:
  "\<exists>q t. release sample_libs sample_outbox 5 (sample_outbox_world handler_ok) = (Inr q, t) \<and>
     (let u = fold (outbox_step sample_libs sample_outbox) [Release 6, Release 5] t in
      release sample_libs sample_outbox 5 u = (Inr q, u))"
proof -
  obtain q t where r: "release sample_libs sample_outbox 5 (sample_outbox_world handler_ok) = (Inr q, t)"
    by (simp add: sample_release Let_def)
  have "fresh_run sample_libs sample_outbox [Release 6, Release 5] t" by simp
  from release_idempotent[OF r this] r show ?thesis by (simp add: Let_def)
qed

text \<open>
  Staging calls no handler; a release calls the handler of its operation exactly when the
  operation is staged, and once.
\<close>

theorem release_calls_handler:
  assumes "outbox_inv s"
  shows "calls (snd (stage L ob tx name args h s)) = calls s \<and>
    calls (snd (release L ob i s)) = calls s @
      (case map_of (operations s) i of
         Some p \<Rightarrow> if op_status p = STAGED then [ReleaseCall i] else [] | None \<Rightarrow> [])"
proof -
  have "op_operation_id p = i \<and> staged_handlers s i \<noteq> None" if "map_of (operations s) i = Some p" for p
    using assms map_of_SomeD[OF that] by (auto simp: outbox_inv_def)
  then show ?thesis by (auto simp: stage_calls release_calls split: option.split)
qed

theorem release_calls_handler_witness:
  "calls (snd (stage sample_libs sample_outbox 1 ''notify'' [] (Some handler_ok) (sample_outbox_world handler_ok))) = [] \<and>
   calls (snd (release sample_libs sample_outbox 5 (sample_outbox_world handler_ok))) = [ReleaseCall 5]"
  using release_calls_handler[OF sample_outbox_inv, of sample_libs sample_outbox 1 "''notify''" "[]"
      "Some handler_ok" handler_ok 5]
  by (simp add: sample_outbox_world_def sample_staged_def)

section \<open>Releasing a transaction\<close>

definition pending :: "('e, 'y) outbox_world_scheme \<Rightarrow> outbox_operation \<Rightarrow> bool" where
  "pending s p \<longleftrightarrow> map_of (operations s) (op_operation_id p) = Some p \<and> op_status p = STAGED \<and>
     staged_handlers s (op_operation_id p) \<noteq> None"

lemma release_pending:
  assumes "pending s p" and "release L ob (op_operation_id p) s = (Inr q, t)"
  shows "settles p q" and "calls t = calls s @ [ReleaseCall (op_operation_id p)]"
    and "pending s x \<Longrightarrow> op_operation_id x \<noteq> op_operation_id p \<Longrightarrow> pending t x"
proof -
  note p = assms(1)[unfolded pending_def]
  show "calls t = calls s @ [ReleaseCall (op_operation_id p)]"
    using release_calls[of L ob "op_operation_id p" s] assms(2) p by simp
  have ops: "settles p q \<and> operations t = dict_set (op_operation_id p) q (operations s)"
  proof (cases rule: release_operations[of L ob "op_operation_id p" s])
    case same
    with release_settles[OF assms(2)] assms(2) p show ?thesis
      by (auto simp: settled_operation_def split: if_splits)
  next
    case (settled p' q')
    with assms(2) p show ?thesis by auto
  qed
  then show "settles p q" by blast
  show "pending t x" if "pending s x" "op_operation_id x \<noteq> op_operation_id p"
    using that ops release_handlers[of L ob "op_operation_id p" s] assms(2) by (simp add: pending_def)
qed

lemma release_loop_returns:
  assumes "release_loop L ob ps rs fs s = (Inr (rs', fs'), t)" and "\<forall>p \<in> set ps. pending s p"
    and "distinct (map op_operation_id ps)"
  shows "\<exists>qs. list_all2 settles ps qs \<and> rs' = rs @ filter (\<lambda>q. op_status q = RELEASED) qs \<and>
    fs' = fs @ filter (\<lambda>q. op_status q \<noteq> RELEASED) qs \<and>
    calls t = calls s @ map (ReleaseCall \<circ> op_operation_id) ps"
  using assms
proof (induction ps arbitrary: rs fs s)
  case (Cons p ps)
  from Cons.prems(1) obtain q s1 where r: "release L ob (op_operation_id p) s = (Inr q, s1)"
    and rest: "(if op_status q = RELEASED then release_loop L ob ps (rs @ [q]) fs
       else release_loop L ob ps rs (fs @ [q])) s1 = (Inr (rs', fs'), t)"
    by (auto elim!: bindM_Inr_elim)
  have p: "pending s p" using Cons.prems(2) by simp
  note rp = release_pending[OF p r]
  have ps: "\<forall>x \<in> set ps. pending s1 x" using Cons.prems(2,3) rp(3) by (metis image_eqI list.set_map
        distinct.simps(2) list.simps(9) list.set_intros(2))
  have d: "distinct (map op_operation_id ps)" using Cons.prems(3) by simp
  from rest Cons.IH[OF _ ps d] rp(1,2) obtain qs where "list_all2 settles ps qs"
    "rs' = rs @ filter (\<lambda>q. op_status q = RELEASED) (q # qs)"
    "fs' = fs @ filter (\<lambda>q. op_status q \<noteq> RELEASED) (q # qs)"
    "calls t = calls s @ map (ReleaseCall \<circ> op_operation_id) (p # ps)"
    by (cases "op_status q = RELEASED") fastforce+
  with rp(1) show ?case by (intro exI[of _ "q # qs"]) simp
qed simp

lemma pending_operations:
  assumes "outbox_inv s"
  shows "\<forall>p \<in> set (filter (\<lambda>p. op_status p = STAGED) (list_operations s (Some tx))). pending s p"
    and "distinct (map op_operation_id (filter (\<lambda>p. op_status p = STAGED) (list_operations s (Some tx))))"
proof -
  have id: "op_operation_id p = i \<and> staged_handlers s i \<noteq> None" if "(i, p) \<in> set (operations s)" for i p
    using assms that by (auto simp: outbox_inv_def)
  have d: "distinct (map fst (operations s))" using assms by (simp add: outbox_inv_def)
  show "\<forall>p \<in> set (filter (\<lambda>p. op_status p = STAGED) (list_operations s (Some tx))). pending s p"
    using id d by (auto simp: list_operations_def pending_def)
  have m: "map op_operation_id (map snd (operations s)) = map fst (operations s)"
    using id by (auto simp: list.map_comp intro!: map_cong)
  from d have "distinct (map op_operation_id (map snd (operations s)))" by (simp only: m)
  then show "distinct (map op_operation_id (filter (\<lambda>p. op_status p = STAGED) (list_operations s (Some tx))))"
    by (simp add: list_operations_def distinct_map_filter)
qed

text \<open>
  C24: \<^verbatim>\<open>release_all\<close> calls the handlers of the staged operations of its transaction, and of
  no others, once each and in the order in which they were staged; its summary is the result
  of each of these operations, the released and the failed ones apart.
\<close>

theorem release_all_in_order:
  assumes "outbox_inv s" and "release_all L ob tx s = (Inr sm, t)"
  shows "let staged = filter (\<lambda>p. op_status p = STAGED \<and> op_transaction_id p = tx) (map snd (operations s)) in
    calls t = calls s @ map (ReleaseCall \<circ> op_operation_id) staged \<and>
    (\<exists>qs. list_all2 settles staged qs \<and> rs_released sm = filter (\<lambda>q. op_status q = RELEASED) qs \<and>
       rs_failed sm = filter (\<lambda>q. op_status q \<noteq> RELEASED) qs)"
proof -
  let ?staged = "filter (\<lambda>p. op_status p = STAGED) (list_operations s (Some tx))"
  from assms(2) obtain rs fs where l: "release_loop L ob ?staged [] [] s = (Inr (rs, fs), t)"
    and sm: "sm = \<lparr>rs_transaction_id = tx, rs_released = rs, rs_failed = fs\<rparr>"
    by (auto simp: release_all_def elim!: bindM_Inr_elim)
  have eq: "?staged = filter (\<lambda>p. op_status p = STAGED \<and> op_transaction_id p = tx) (map snd (operations s))"
    by (simp add: list_operations_def conj_commute)
  from release_loop_returns[OF l pending_operations[OF assms(1)]] sm show ?thesis
    unfolding Let_def eq by auto
qed

theorem release_all_in_order_witness:
  "\<exists>sm t. release_all sample_libs sample_outbox 1 (sample_outbox_world handler_ok) = (Inr sm, t) \<and>
     calls t = [ReleaseCall 5, ReleaseCall 6]"
proof -
  have "\<exists>sm t. release_all sample_libs sample_outbox 1 (sample_outbox_world handler_ok) = (Inr sm, t)"
    by (simp add: release_all_def list_operations_def sample_outbox_world_def sample_staged_def
        release_def release_staged_def call_staged_def call_user_def tryM_def bindM_def handler_ok_def
        OutboxOperation_def sample_notify sample_json validate_status_fields_def outbox_event_def
        getM_def modifyM_def retM_def liftM_def read_clock_def note_call_def)
  then obtain sm t where r: "release_all sample_libs sample_outbox 1 (sample_outbox_world handler_ok) = (Inr sm, t)"
    by blast
  from release_all_in_order[OF sample_outbox_inv r] r show ?thesis
    by (simp add: Let_def sample_outbox_world_def sample_staged_def)
qed

section \<open>Invariant\<close>

lemma outbox_inv_empty: "operations s = [] \<Longrightarrow> outbox_inv s"
  by (simp add: outbox_inv_def)

text \<open>
  C30: In every history that starts with an empty outbox, each stored operation is stored
  under its own identifier, once, has its handler, and satisfies the rules of its status: a
  staged one has no release data, a released one a release time and no error, a failed one a
  release time and an error, and no release precedes its staging.
\<close>

theorem outbox_invariant:
  assumes "operations s = []" and "fresh_run L ob ps s" and "t = fold (outbox_step L ob) ps s"
  shows "distinct (map fst (operations t)) \<and> (\<forall>(i, p) \<in> set (operations t).
    op_operation_id p = i \<and> staged_handlers t i \<noteq> None \<and> coherent_operation p)"
  using outbox.inv_run[OF outbox_inv_empty[OF assms(1)], of L ob ps] fresh_run_fold[OF assms(2)] assms(3)
  by (auto simp: outbox_inv_def)

theorem outbox_invariant_witness:
  "\<exists>t. t = fold (outbox_step sample_libs sample_outbox) [Stage 1 ''notify'' [] (Some handler_ok), Release 9]
       ((sample_outbox_world handler_ok)\<lparr>operations := []\<rparr>) \<and>
     operations t \<noteq> [] \<and> (\<forall>(i, p) \<in> set (operations t). op_operation_id p = i \<and> coherent_operation p)"
proof -
  let ?s = "(sample_outbox_world handler_ok)\<lparr>operations := []\<rparr>"
  let ?ps = "[Stage 1 ''notify'' [] (Some handler_ok), Release 9]"
  let ?t = "fold (outbox_step sample_libs sample_outbox) ?ps ?s"
  have f: "fresh_run sample_libs sample_outbox ?ps ?s"
    by (simp add: fresh_id_def)
  have "operations ?t \<noteq> []"
    by (simp add: stage_def sample_outbox_world_def OutboxOperation_def sample_notify sample_json
        validate_status_fields_def outbox_event_def release_def release_staged_def call_staged_def call_user_def
        tryM_def bindM_def[of "tryM _"] handler_ok_def)
  with outbox_invariant[OF _ f refl] show ?thesis by auto
qed

section \<open>Every release returns, unless the output is not JSON\<close>

lemma outbox_texts:
  assumes "pydantic_documented L"
  shows "ShortText L ''outbox_release_failed'' = Some ''outbox_release_failed''"
    "LongText L ''Staged operation handler raised an exception.'' =
       Some ''Staged operation handler raised an exception.''"
  by (rule ShortText_plain[OF assms] LongText_plain[OF assms]; simp add: white_space_def)+

definition valid_operation :: "'z libs_scheme \<Rightarrow> outbox_operation \<Rightarrow> bool" where
  "valid_operation L p \<longleftrightarrow> OutboxOperation L p = Inr p"

text \<open>
  Without a ledger, a release of a staged operation returns, whatever its handler does:
  FAILED with the error \<^verbatim>\<open>outbox_release_failed\<close> if the handler raised, RELEASED with its
  output if it returned a JSON value; provided the clock has not run back behind the time of
  staging.
\<close>

theorem release_returns:
  assumes "pydantic_documented L" and "ob_ledger ob = None"
    and "map_of (operations s) i = Some p" and "op_status p = STAGED" and "valid_operation L p"
    and "staged_handlers s i = Some h" and "op_staged_at p \<le> ob_clock ob (tick s)"
    and "\<And>v. fst (h (op_arguments p) (ext s)) = Returned v \<Longrightarrow> json_value L v"
  shows "\<exists>q t. release L ob i s = (Inr q, t) \<and>
    (case fst (h (op_arguments p) (ext s)) of
       Raised \<Rightarrow> op_status q = FAILED \<and> (\<exists>m. op_error q = Some \<lparr>fd_code = ''outbox_release_failed'', fd_message = m\<rparr>)
     | Returned v \<Rightarrow> op_status q = RELEASED \<and> op_output q = v)"
proof -
  obtain out e1 where h: "h (op_arguments p) (ext s) = (out, e1)" by fastforce
  have p: "DomainName L (op_operation_name p) = Some (op_operation_name p)" "JsonObject L (op_arguments p)"
    using assms(5) by (auto simp: valid_operation_def OutboxOperation_Inr)
      (metis outbox_operation.select_convs(3) outbox_operation.surjective outbox_operation.update_convs(3))
  have run: "release L ob i s = release_staged L ob i p h s" using assms(3,4,6) by (simp add: release_def)
  show ?thesis
    using assms(2,7,8) p h json_documented(1)[OF assms(1), of PyNone] outbox_texts[OF assms(1)]
    by (cases out)
      (auto simp: run release_staged_def call_staged_def call_user_def tryM_def bindM_def[of "tryM _"]
        FailureDetail_def OutboxOperation_def validate_status_fields_def outbox_event_def)
qed

theorem release_returns_witness:
  "\<exists>q t. release sample_libs sample_outbox 5 (sample_outbox_world handler_ok) = (Inr q, t) \<and>
     op_status q = RELEASED \<and> op_output q = PyStr ''sent''"
proof -
  have v: "valid_operation sample_libs (sample_staged 5)"
    by (simp add: valid_operation_def OutboxOperation_def sample_staged_def sample_notify sample_json
        validate_status_fields_def)
  show ?thesis
    using release_returns[OF sample_libs_documented sample_outbox_parts(1),
        of "sample_outbox_world handler_ok" 5 "sample_staged 5" handler_ok] v
    by (simp add: sample_outbox_world_def sample_staged_def handler_ok_def sample_json)
qed

text \<open>A release whose clock reads a time before the operation was staged.\<close>

lemma early_release_raises:
  assumes "map_of (operations s) i = Some p" and "op_status p = STAGED" and "op_operation_id p = i"
    and "staged_handlers s i = Some h" and "ob_clock ob (tick s) < op_staged_at p"
  shows "\<exists>e t. release L ob i s = (Inl e, t) \<and> operations t = operations s \<and>
    staged_handlers t = staged_handlers s \<and> calls t = calls s @ [ReleaseCall i] \<and> tick t = Suc (tick s)"
proof -
  have no: "\<exists>e. OutboxOperation L q = Inl e"
    if "op_staged_at q = op_staged_at p" "op_released_at q = Some (ob_clock ob (tick s))" for q
  proof (cases "OutboxOperation L q")
    case (Inr q')
    with that assms(5) show ?thesis by (auto simp: OutboxOperation_Inr coherent_operation_def)
  qed simp
  obtain o1 e1 where h: "h (op_arguments p) (ext s) = (o1, e1)" by (cases "h (op_arguments p) (ext s)")
  have run: "release L ob i s = release_staged L ob i p h s"
    using assms(1,2,4) by (simp add: release_def)
  show ?thesis
  proof (cases o1)
    case (Returned v)
    obtain e where "OutboxOperation L \<lparr>op_operation_id = op_operation_id p, op_transaction_id = op_transaction_id p,
      op_operation_name = op_operation_name p, op_arguments = op_arguments p, op_status = RELEASED,
      op_staged_at = op_staged_at p, op_released_at = Some (ob_clock ob (tick s)), op_output = v,
      op_error = None\<rparr> = Inl e" using no by force
    with h Returned assms(3) show ?thesis
      by (simp add: run release_staged_def call_staged_def call_user_def tryM_def bindM_def[of "tryM _"])
  next
    case Raised
    show ?thesis
    proof (cases "FailureDetail L \<lparr>fd_code = ''outbox_release_failed'',
        fd_message = ''Staged operation handler raised an exception.''\<rparr>")
      case (Inl e)
      with h Raised assms(3) show ?thesis
        by (simp add: run release_staged_def call_staged_def call_user_def tryM_def bindM_def[of "tryM _"])
    next
      case (Inr d)
      obtain e where "OutboxOperation L \<lparr>op_operation_id = op_operation_id p, op_transaction_id = op_transaction_id p,
        op_operation_name = op_operation_name p, op_arguments = op_arguments p, op_status = FAILED,
        op_staged_at = op_staged_at p, op_released_at = Some (ob_clock ob (tick s)), op_output = PyNone,
        op_error = Some d\<rparr> = Inl e" using no by force
      with Inr h Raised assms(3) show ?thesis
        by (simp add: run release_staged_def call_staged_def call_user_def tryM_def bindM_def[of "tryM _"])
    qed
  qed
qed

text \<open>
  C35: The gap in at-most-once: when a handler returns a value that is not a JSON value, the
  release raises after the call and the operation stays staged, so that the next release
  calls the handler a second time.
\<close>

theorem release_repeats_call:
  assumes "pydantic_documented L"
    and "map_of (operations s) i = Some p" and "op_status p = STAGED" and "op_operation_id p = i"
    and "staged_handlers s i = Some h"
    and "\<And>e. \<exists>v. fst (h (op_arguments p) e) = Returned v \<and> \<not> json_shape v"
  shows "\<exists>e t e' t'. release L ob i s = (Inl e, t) \<and> release L ob i t = (Inl e', t') \<and>
    calls t' = calls s @ [ReleaseCall i, ReleaseCall i]"
proof -
  have raise: "\<exists>e t. release L ob i u = (Inl e, t) \<and> operations t = operations u \<and>
      staged_handlers t = staged_handlers u \<and> calls t = calls u @ [ReleaseCall i]"
    if "operations u = operations s" "staged_handlers u = staged_handlers s" for u
  proof -
    obtain v e1 where h: "h (op_arguments p) (ext u) = (Returned v, e1)" "\<not> json_shape v"
      using assms(6)[of "ext u"] by (metis prod.collapse)
    then have nj: "\<not> json_value L v" using json_documented(2)[OF assms(1)] by blast
    have run: "release L ob i u = release_staged L ob i p h u"
      using assms(2,3,5) that by (simp add: release_def)
    let ?raw = "\<lparr>op_operation_id = op_operation_id p, op_transaction_id = op_transaction_id p,
      op_operation_name = op_operation_name p, op_arguments = op_arguments p, op_status = RELEASED,
      op_staged_at = op_staged_at p, op_released_at = Some (ob_clock ob (tick u)), op_output = v,
      op_error = None\<rparr>"
    have "\<not> (\<exists>q. OutboxOperation L ?raw = Inr q)" using nj by (simp add: OutboxOperation_Inr)
    then obtain e where e: "OutboxOperation L ?raw = Inl e" by (cases "OutboxOperation L ?raw") auto
    show ?thesis
      using h e assms(4) by (simp add: run release_staged_def call_staged_def call_user_def tryM_def
          bindM_def[of "tryM _"])
  qed
  obtain e t where 1: "release L ob i s = (Inl e, t)" "operations t = operations s"
    "staged_handlers t = staged_handlers s" "calls t = calls s @ [ReleaseCall i]"
    using raise[of s] by blast
  obtain e' t' where "release L ob i t = (Inl e', t')" "calls t' = calls t @ [ReleaseCall i]"
    using raise[of t] 1 by auto
  with 1 show ?thesis by auto
qed

theorem release_repeats_call_witness:
  "\<exists>e t e' t'. release sample_libs sample_outbox 5 (sample_outbox_world handler_tuple) = (Inl e, t) \<and>
     release sample_libs sample_outbox 5 t = (Inl e', t') \<and> calls t' = [ReleaseCall 5, ReleaseCall 5]"
  using release_repeats_call[OF sample_libs_documented, of "sample_outbox_world handler_tuple" 5
      "sample_staged 5" handler_tuple sample_outbox]
  by (simp add: sample_outbox_world_def sample_staged_def handler_tuple_def)

text \<open>
  C36: The clock may not step back either. If at two successive releases the clock reads a
  time before the one at which the operation was staged, then, whatever the handler does,
  returning a value or raising, each release calls the handler and then raises while it builds
  the record, the operation stays staged, and the second release calls the handler again.
\<close>

theorem early_clock_repeats_call:
  assumes "map_of (operations s) i = Some p" and "op_status p = STAGED" and "op_operation_id p = i"
    and "staged_handlers s i = Some h"
    and "ob_clock ob (tick s) < op_staged_at p" and "ob_clock ob (Suc (tick s)) < op_staged_at p"
  shows "\<exists>e t e' t'. release L ob i s = (Inl e, t) \<and> release L ob i t = (Inl e', t') \<and>
    calls t' = calls s @ [ReleaseCall i, ReleaseCall i] \<and> map_of (operations t') i = Some p"
proof -
  obtain e t where 1: "release L ob i s = (Inl e, t)" "operations t = operations s"
    "staged_handlers t = staged_handlers s" "calls t = calls s @ [ReleaseCall i]" "tick t = Suc (tick s)"
    using early_release_raises[OF assms(1-5), of L] by blast
  then have "map_of (operations t) i = Some p" "staged_handlers t i = Some h"
    "ob_clock ob (tick t) < op_staged_at p" using assms(1,4,6) by simp_all
  from early_release_raises[OF this(1) assms(2,3) this(2,3), of L] obtain e' t'
    where "release L ob i t = (Inl e', t')" "operations t' = operations t" "calls t' = calls t @ [ReleaseCall i]"
    by blast
  with 1 assms(1) show ?thesis by auto
qed

text \<open>The sample outbox, with a clock that is behind the time of staging.\<close>

definition late_outbox :: "unit outbox" where
  "late_outbox = InMemoryOutboxBackend int (Some (\<lambda>n. - 1)) None"

theorem early_clock_repeats_call_witness:
  "\<exists>e t e' t'. release sample_libs late_outbox 5 (sample_outbox_world handler_ok) = (Inl e, t) \<and>
     release sample_libs late_outbox 5 t = (Inl e', t') \<and> calls t' = [ReleaseCall 5, ReleaseCall 5]"
  using early_clock_repeats_call[of "sample_outbox_world handler_ok" 5 "sample_staged 5" handler_ok late_outbox
      sample_libs]
  by (auto simp: sample_outbox_world_def sample_staged_def late_outbox_def InMemoryOutboxBackend_def)

end
