(* ===== verification/Approvals.thy ===== *)
theory Approvals
  imports Contracts
begin

text \<open>
  \<^verbatim>\<open>approvals/models.py\<close>: a pending approval bound to an intent, a transaction and a policy
  decision, with the rule that its window has positive duration.
\<close>

record approval_request =
  ap_approval_request_id :: uuid
  ap_intent_id :: uuid
  ap_transaction_id :: uuid
  ap_policy_decision_id :: uuid
  ap_intent_fingerprint :: string
  ap_risk_level :: risk_level
  ap_reason :: string
  ap_requested_at :: time
  ap_expires_at :: time

definition ApprovalRequest :: "'z libs_scheme \<Rightarrow> approval_request \<Rightarrow> approval_request result" where
  "ApprovalRequest L r =
     bindR (text_field (IntentFingerprint L) ''intent_fingerprint'' (ap_intent_fingerprint r)) (\<lambda>fingerprint.
     bindR (text_field (LongText L) ''reason'' (ap_reason r)) (\<lambda>reason.
     if ap_expires_at r \<le> ap_requested_at r then
       Inl (ValidationError ''expires_at must be after requested_at'')
     else Inr (r\<lparr>ap_intent_fingerprint := fingerprint, ap_reason := reason\<rparr>)))"

text \<open>An accepted request has a fingerprint of 64 hexadecimal digits and an open window.\<close>

lemma ApprovalRequest_Inr:
  assumes "pydantic_documented L" and "ApprovalRequest L r = Inr q"
  shows "hex_form (ap_intent_fingerprint q)" and "ap_intent_fingerprint q = ap_intent_fingerprint r"
    and "ap_requested_at q < ap_expires_at q" and "ApprovalRequest L q = Inr q"
  using assms text_idem(2)[OF assms(1)]
  by (auto simp: ApprovalRequest_def bindR_Inr_iff pydantic_documented_def IntentFingerprint_def
      split: if_splits)

end
