(* ===== verification/Argument_Binding.thy ===== *)
theory Argument_Binding
  imports Contracts
begin

text \<open>
  How \<^verbatim>\<open>facade.py\<close> turns a call into JSON arguments: \<^verbatim>\<open>inspect.signature(function).bind\<close> and
  \<^verbatim>\<open>apply_defaults\<close> of the standard library, and the conversion of each value. A function is
  its parameters, of each of the five kinds of \<^verbatim>\<open>inspect.Parameter\<close>, and its body; calling it
  with keyword arguments binds them by the same rules. Annotations are not modelled.
\<close>

section \<open>Signatures\<close>

datatype parameter_kind =
  POSITIONAL_ONLY | POSITIONAL_OR_KEYWORD | VAR_POSITIONAL | KEYWORD_ONLY | VAR_KEYWORD

record parameter =
  pm_name :: string
  pm_kind :: parameter_kind
  pm_default :: "pyval option"

type_synonym named_values = "(string \<times> pyval) list"

text \<open>Positional arguments, then the parameters that remain for the keyword arguments.\<close>

fun bind_positional ::
  "parameter list \<Rightarrow> pyval list \<Rightarrow> named_values \<Rightarrow> named_values \<Rightarrow> (named_values \<times> parameter list) result" where
  "bind_positional ps [] kwargs bound = Inr (bound, ps)"
| "bind_positional [] (a # as) kwargs bound = Inl (TypeErr ''too many positional arguments'')"
| "bind_positional (p # ps) (a # as) kwargs bound =
     (case pm_kind p of
        VAR_KEYWORD \<Rightarrow> Inl (TypeErr ''too many positional arguments'')
      | KEYWORD_ONLY \<Rightarrow> Inl (TypeErr ''too many positional arguments'')
      | VAR_POSITIONAL \<Rightarrow> Inr (bound @ [(pm_name p, PyTuple (a # as))], ps)
      | POSITIONAL_ONLY \<Rightarrow> bind_positional ps as kwargs (bound @ [(pm_name p, a)])
      | POSITIONAL_OR_KEYWORD \<Rightarrow>
          if map_of kwargs (pm_name p) \<noteq> None then Inl (TypeErr ''multiple values for argument'')
          else bind_positional ps as kwargs (bound @ [(pm_name p, a)]))"

text \<open>
  The keyword argument for a parameter. A positional-only parameter takes none: a keyword
  of its name is left over, for \<^verbatim>\<open>**kwargs\<close> or for the error. (So it is in a Python call, and
  in \<^verbatim>\<open>bind\<close>; releases of \<^verbatim>\<open>inspect\<close> before the fix of this case raise \<^verbatim>\<open>TypeError\<close> where a
  default and \<^verbatim>\<open>**kwargs\<close> are both there.)
\<close>

definition keyword_value :: "parameter \<Rightarrow> named_values \<Rightarrow> pyval option" where
  "keyword_value p kwargs =
     (if pm_kind p = POSITIONAL_ONLY then None else map_of kwargs (pm_name p))"

lemma keyword_value_kind [simp]:
  "pm_kind p = POSITIONAL_ONLY \<Longrightarrow> keyword_value p kwargs = None"
  "pm_kind p \<noteq> POSITIONAL_ONLY \<Longrightarrow> keyword_value p kwargs = map_of kwargs (pm_name p)"
  by (simp_all add: keyword_value_def)

fun bind_keywords ::
  "parameter list \<Rightarrow> named_values \<Rightarrow> named_values \<Rightarrow> (named_values \<times> named_values) result" where
  "bind_keywords [] kwargs bound = Inr (bound, kwargs)"
| "bind_keywords (p # ps) kwargs bound =
     (if pm_kind p = VAR_KEYWORD \<or> pm_kind p = VAR_POSITIONAL then bind_keywords ps kwargs bound
      else case keyword_value p kwargs of
        Some v \<Rightarrow> bind_keywords ps (filter (\<lambda>q. fst q \<noteq> pm_name p) kwargs) (bound @ [(pm_name p, v)])
      | None \<Rightarrow>
          if pm_default p = None then Inl (TypeErr ''missing a required argument'')
          else bind_keywords ps kwargs bound)"

definition keyword_dict :: "named_values \<Rightarrow> pydict" where
  "keyword_dict kwargs = map (\<lambda>(k, v). (PyStr k, v)) kwargs"

definition bind_rest :: "parameter list \<Rightarrow> named_values \<Rightarrow> named_values \<Rightarrow> named_values result" where
  "bind_rest ps kwargs bound =
     (if kwargs = [] then Inr bound
      else case find (\<lambda>p. pm_kind p = VAR_KEYWORD) ps of
        Some p \<Rightarrow> Inr (bound @ [(pm_name p, PyDict (keyword_dict kwargs))])
      | None \<Rightarrow> Inl (TypeErr ''got an unexpected keyword argument''))"

definition signature_bind ::
  "parameter list \<Rightarrow> pyval list \<Rightarrow> named_values \<Rightarrow> named_values result" where
  "signature_bind ps args kwargs =
     bindR (bind_positional ps args kwargs []) (\<lambda>(bound, rest).
     bindR (bind_keywords rest kwargs bound) (\<lambda>(bound', left).
     bind_rest rest left bound'))"

text \<open>\<^verbatim>\<open>bound.apply_defaults()\<close>: the arguments in the order of the parameters.\<close>

definition default_of :: "parameter \<Rightarrow> pyval option" where
  "default_of p =
     (case pm_default p of
        Some v \<Rightarrow> Some v
      | None \<Rightarrow>
          (case pm_kind p of
             VAR_POSITIONAL \<Rightarrow> Some (PyTuple [])
           | VAR_KEYWORD \<Rightarrow> Some (PyDict [])
           | _ \<Rightarrow> None))"

fun apply_defaults :: "parameter list \<Rightarrow> named_values \<Rightarrow> named_values" where
  "apply_defaults [] bound = []"
| "apply_defaults (p # ps) bound =
     (case map_of bound (pm_name p) of
        Some v \<Rightarrow> (pm_name p, v) # apply_defaults ps bound
      | None \<Rightarrow>
          (case default_of p of
             Some v \<Rightarrow> (pm_name p, v) # apply_defaults ps bound
           | None \<Rightarrow> apply_defaults ps bound))"

section \<open>JSON arguments\<close>

text \<open>
  \<^verbatim>\<open>str(key)\<close> of a key of a dict; \<open>object_str\<close> is the text of the keys whose text is made by
  code that is not under src/ (\<^verbatim>\<open>__str__\<close> and \<^verbatim>\<open>__repr__\<close> of tuples and objects).
\<close>

fun key_str :: "'z libs_scheme \<Rightarrow> (pyval \<Rightarrow> string) \<Rightarrow> pyval \<Rightarrow> string" where
  "key_str L object_str (PyStr s) = s"
| "key_str L object_str (PyInt i) = int_str i"
| "key_str L object_str (PyBool b) = (if b then ''True'' else ''False'')"
| "key_str L object_str PyNone = ''None''"
| "key_str L object_str (PyFloat f) = float_repr L f"
| "key_str L object_str v = object_str v"

fun collect_items :: "(string \<times> pyval result) list \<Rightarrow> pydict \<Rightarrow> pydict result" where
  "collect_items [] d = Inr d"
| "collect_items ((k, r) # rs) d = bindR r (\<lambda>v. collect_items rs (dict_set (PyStr k) v d))"

fun as_json_value :: "'z libs_scheme \<Rightarrow> (pyval \<Rightarrow> string) \<Rightarrow> string \<Rightarrow> pyval \<Rightarrow> pyval result" where
  "as_json_value L object_str name (PyList xs) =
     bindR (collect (map (as_json_value L object_str name) xs)) (\<lambda>vs. Inr (PyList vs))"
| "as_json_value L object_str name (PyDict d) =
     bindR (collect_items (map (\<lambda>p. (key_str L object_str (fst p), as_json_value L object_str name (snd p))) d) [])
       (\<lambda>e. Inr (PyDict e))"
| "as_json_value L object_str name (PyTuple _) = Inl (TypeErr (''argument is not JSON-compatible: '' @ name))"
| "as_json_value L object_str name (PyObject _) = Inl (TypeErr (''argument is not JSON-compatible: '' @ name))"
| "as_json_value L object_str name v = Inr v"

fun json_arguments ::
  "'z libs_scheme \<Rightarrow> (pyval \<Rightarrow> string) \<Rightarrow> named_values \<Rightarrow> json_object result" where
  "json_arguments L object_str [] = Inr []"
| "json_arguments L object_str ((name, v) # rest) =
     bindR (as_json_value L object_str name v) (\<lambda>j.
     bindR (json_arguments L object_str rest) (\<lambda>js. Inr ((PyStr name, j) # js)))"

definition bind_json_arguments ::
  "'z libs_scheme \<Rightarrow> (pyval \<Rightarrow> string) \<Rightarrow> parameter list \<Rightarrow> pyval list \<Rightarrow> named_values \<Rightarrow> json_object result" where
  "bind_json_arguments L object_str ps args kwargs =
     bindR (signature_bind ps args kwargs) (\<lambda>bound.
     json_arguments L object_str (apply_defaults ps bound))"

text \<open>
  A Python function: its parameters, and its body on the values of all of them. As a handler
  it is called with keyword arguments; arguments that do not fit raise \<^verbatim>\<open>TypeError\<close>.
\<close>

record 'e py_function =
  fn_parameters :: "parameter list"
  fn_body :: "named_values \<Rightarrow> ('e, pyval) callback"

definition keyword_arguments :: "json_object \<Rightarrow> named_values" where
  "keyword_arguments d = map (\<lambda>(k, v). (the_str k, v)) d"

definition function_handler :: "'e py_function \<Rightarrow> 'e handler" where
  "function_handler f d =
     (case signature_bind (fn_parameters f) [] (keyword_arguments d) of
        Inl _ \<Rightarrow> (\<lambda>e. (Raised, e))
      | Inr bound \<Rightarrow> fn_body f (apply_defaults (fn_parameters f) bound))"

text \<open>The call \<^verbatim>\<open>f(*args, **kwargs)\<close>.\<close>

definition call_function :: "'e py_function \<Rightarrow> pyval list \<Rightarrow> named_values \<Rightarrow> ('e, pyval) callback" where
  "call_function f args kwargs =
     (case signature_bind (fn_parameters f) args kwargs of
        Inl _ \<Rightarrow> (\<lambda>e. (Raised, e))
      | Inr bound \<Rightarrow> fn_body f (apply_defaults (fn_parameters f) bound))"

lemma function_handler_call: "function_handler f d = call_function f [] (keyword_arguments d)"
  by (simp add: function_handler_def call_function_def)

section \<open>Conversion of JSON values\<close>

text \<open>The keys of a dict are distinct, at every level of a value.\<close>

fun distinct_keys :: "pyval \<Rightarrow> bool" where
  "distinct_keys (PyList xs) = list_all distinct_keys xs"
| "distinct_keys (PyTuple xs) = list_all distinct_keys xs"
| "distinct_keys (PyDict d) = (distinct (map fst d) \<and> list_all (\<lambda>p. distinct_keys (snd p)) d)"
| "distinct_keys _ = True"

definition json_argument :: "pyval \<Rightarrow> bool" where
  "json_argument v \<longleftrightarrow> json_shape v \<and> distinct_keys v"

lemma collect_items_fresh:
  assumes "distinct (map fst d)" and "\<And>k. k \<in> fst ` set d \<Longrightarrow> is_str k \<and> k \<notin> fst ` set e"
  shows "collect_items (map (\<lambda>p. (the_str (fst p), Inr (snd p))) d) e = Inr (e @ d)"
  using assms
proof (induction d arbitrary: e)
  case (Cons p d)
  obtain k v where p: "p = (k, v)" by (cases p)
  have k: "is_str k" "k \<notin> fst ` set e" using Cons.prems(2)[of k] by (simp_all add: p)
  from k(1) obtain s where s: "k = PyStr s" by (cases k) simp_all
  have "dict_set (PyStr s) v e = e @ [(PyStr s, v)]"
    using k(2) s by (intro dict_set_fresh) (simp add: map_of_eq_None_iff)
  moreover have "collect_items (map (\<lambda>p. (the_str (fst p), Inr (snd p))) d) (e @ [(PyStr s, v)]) =
      Inr ((e @ [(PyStr s, v)]) @ d)"
  proof (rule Cons.IH)
    show "distinct (map fst d)" using Cons.prems(1) by simp
    fix l
    assume l: "l \<in> fst ` set d"
    moreover have "PyStr s \<notin> fst ` set d" using Cons.prems(1) by (simp add: p s)
    ultimately have "l \<noteq> PyStr s" by blast
    moreover have "is_str l \<and> l \<notin> fst ` set e" using Cons.prems(2)[of l] l by simp
    ultimately show "is_str l \<and> l \<notin> fst ` set (e @ [(PyStr s, v)])" by simp
  qed
  ultimately show ?case by (simp add: p s)
qed simp

lemma as_json_value_id: "json_argument v \<Longrightarrow> as_json_value L object_str name v = Inr v"
proof (induction v)
  case (PyList xs)
  then have "collect (map (as_json_value L object_str name) xs) = Inr xs"
    by (simp add: json_argument_def list_all_iff collect_Inr)
  then show ?case by simp
next
  case (PyDict d)
  have parts: "is_str (fst p)" "json_argument (snd p)" if "p \<in> set d" for p
    using PyDict.prems that by (auto simp: json_argument_def list_all_iff)
  have keys: "key_str L object_str (fst p) = the_str (fst p)" if "p \<in> set d" for p
    using parts(1)[OF that] by (cases "fst p") simp_all
  have eq: "map (\<lambda>p. (key_str L object_str (fst p), as_json_value L object_str name (snd p))) d =
      map (\<lambda>p. (the_str (fst p), Inr (snd p))) d"
    using PyDict.IH(2) parts(2) keys by (simp add: snds.simps)
  have "collect_items (map (\<lambda>p. (the_str (fst p), Inr (snd p))) d) [] = Inr ([] @ d)"
    using PyDict.prems parts(1) by (intro collect_items_fresh) (auto simp: json_argument_def)
  then show ?case unfolding as_json_value.simps eq by simp
qed (simp_all add: json_argument_def)

lemma json_arguments_id:
  "list_all (\<lambda>(n, v). json_argument v) vs \<Longrightarrow> json_arguments L object_str vs = Inr (keyword_dict vs)"
  by (induction vs) (auto simp: keyword_dict_def as_json_value_id)

lemma keyword_arguments_dict [simp]: "keyword_arguments (keyword_dict vs) = vs"
  by (induction vs) (auto simp: keyword_arguments_def keyword_dict_def)

text \<open>What the conversion returns is a JSON object with text keys.\<close>

lemma collect_elim:
  "collect rs = Inr vs \<Longrightarrow> list_all (\<lambda>r. \<forall>v. r = Inr v \<longrightarrow> P v) rs \<Longrightarrow> list_all P vs"
  by (auto simp: collect_Inr list_all_iff)

lemma collect_items_elim:
  "collect_items rs d = Inr e \<Longrightarrow> list_all (\<lambda>r. \<forall>v. snd r = Inr v \<longrightarrow> P v) rs \<Longrightarrow>
   list_all (\<lambda>p. is_str (fst p) \<and> P (snd p)) d \<Longrightarrow> list_all (\<lambda>p. is_str (fst p) \<and> P (snd p)) e"
proof (induction rs d arbitrary: e rule: collect_items.induct)
  case (2 k r rs d)
  then obtain v where r: "r = Inr v" and e: "collect_items rs (dict_set (PyStr k) v d) = Inr e"
    by (auto simp: bindR_Inr_iff)
  have "list_all (\<lambda>p. is_str (fst p) \<and> P (snd p)) (dict_set (PyStr k) v d)"
    using "2.prems"(2,3) r by (auto simp: list_all_iff dest: set_dict_set)
  then show ?case using "2.IH"[of v e] e "2.prems"(2) by simp
qed simp

lemma as_json_value_shape: "as_json_value L object_str name v = Inr w \<Longrightarrow> json_shape w"
proof (induction v arbitrary: w)
  case (PyList xs)
  then obtain vs where vs: "collect (map (as_json_value L object_str name) xs) = Inr vs"
    and w: "w = PyList vs" by (auto simp: bindR_Inr_iff)
  have "list_all json_shape vs"
    by (rule collect_elim[OF vs]) (use PyList.IH in \<open>auto simp: list_all_iff\<close>)
  then show ?case by (simp add: w)
next
  case (PyDict d)
  then obtain e where e: "collect_items (map (\<lambda>p. (key_str L object_str (fst p),
        as_json_value L object_str name (snd p))) d) [] = Inr e" and w: "w = PyDict e"
    by (auto simp: bindR_Inr_iff)
  have "list_all (\<lambda>p. is_str (fst p) \<and> json_shape (snd p)) e"
    by (rule collect_items_elim[OF e]) (use PyDict.IH(2) in \<open>auto simp: list_all_iff snds.simps\<close>)
  then show ?case by (simp add: w)
qed auto

lemma json_arguments_shape: "json_arguments L object_str vs = Inr d \<Longrightarrow> json_shape (PyDict d)"
  by (induction vs arbitrary: d) (auto simp: bindR_Inr_iff as_json_value_shape)

lemma json_arguments_names:
  "json_arguments L object_str vs = Inr d \<Longrightarrow> map fst (keyword_arguments d) = map fst vs"
  by (induction vs arbitrary: d) (auto simp: bindR_Inr_iff keyword_arguments_def)

section \<open>Plain signatures\<close>

text \<open>
  Signatures all of whose parameters can be given by keyword: no positional-only parameter,
  no \<^verbatim>\<open>*args\<close> and no \<^verbatim>\<open>**kwargs\<close>; the names are distinct, as Python has them.
\<close>

definition plain_parameter :: "parameter \<Rightarrow> bool" where
  "plain_parameter p \<longleftrightarrow> pm_kind p = POSITIONAL_OR_KEYWORD \<or> pm_kind p = KEYWORD_ONLY"

definition plain_signature :: "parameter list \<Rightarrow> bool" where
  "plain_signature ps \<longleftrightarrow> list_all plain_parameter ps \<and> distinct (map pm_name ps)"

text \<open>Every parameter has a value or a default.\<close>

definition covered :: "parameter list \<Rightarrow> named_values \<Rightarrow> bool" where
  "covered ps bound \<longleftrightarrow> (\<forall>p \<in> set ps. pm_name p \<in> fst ` set bound \<or> default_of p \<noteq> None)"

lemma covered_mono: "covered ps b \<Longrightarrow> set b \<subseteq> set c \<Longrightarrow> covered ps c"
  unfolding covered_def by blast

lemma covered_append: "covered (ps @ qs) b \<longleftrightarrow> covered ps b \<and> covered qs b"
  by (auto simp: covered_def)

abbreviation no_star :: "parameter list \<Rightarrow> bool" where
  "no_star ps \<equiv> list_all (\<lambda>p. pm_kind p \<noteq> VAR_POSITIONAL) ps"

lemma bind_positional_covered:
  assumes "bind_positional ps args kwargs b = Inr (b', rest)" and "no_star ps"
  shows "\<exists>used x. ps = used @ rest \<and> b' = b @ x \<and> covered used b'"
  using assms
proof (induction ps args kwargs b rule: bind_positional.induct)
  case (3 p ps a as kwargs b)
  then have run: "bind_positional ps as kwargs (b @ [(pm_name p, a)]) = Inr (b', rest)"
    and k: "pm_kind p = POSITIONAL_ONLY \<or> pm_kind p = POSITIONAL_OR_KEYWORD \<and> map_of kwargs (pm_name p) = None"
    by (auto split: if_splits parameter_kind.splits)
  have "\<exists>used x. ps = used @ rest \<and> b' = (b @ [(pm_name p, a)]) @ x \<and> covered used b'"
    using k
  proof
    assume "pm_kind p = POSITIONAL_ONLY"
    from "3.IH"(1)[OF this run] "3.prems"(2) show ?thesis by simp
  next
    assume "pm_kind p = POSITIONAL_OR_KEYWORD \<and> map_of kwargs (pm_name p) = None"
    with "3.IH"(2)[OF _ _ run] "3.prems"(2) show ?thesis by simp
  qed
  then obtain used x where "ps = used @ rest" "b' = (b @ [(pm_name p, a)]) @ x" "covered used b'" by blast
  then show ?case by (intro exI[of _ "p # used"] exI[of _ "(pm_name p, a) # x"]) (simp add: covered_def)
qed (auto simp: covered_def)

lemma bind_keywords_covered:
  assumes "bind_keywords ps kwargs b = Inr (b', left)" and "no_star ps"
  shows "\<exists>x. b' = b @ x \<and> covered ps b'"
  using assms
proof (induction ps kwargs b rule: bind_keywords.induct)
  case (2 p ps kwargs b)
  show ?case
  proof (cases "pm_kind p = VAR_KEYWORD \<or> pm_kind p = VAR_POSITIONAL")
    case True
    then have "default_of p \<noteq> None" by (auto simp: default_of_def split: option.split)
    then show ?thesis using True "2.IH"(1)[OF True] "2.prems" by (auto simp: covered_def)
  next
    case k: False
    show ?thesis
    proof (cases "keyword_value p kwargs")
      case None
      then have "default_of p \<noteq> None" and "bind_keywords ps kwargs b = Inr (b', left)"
        using k "2.prems"(1) by (auto simp: default_of_def split: if_splits)
      then show ?thesis using "2.IH"(2)[OF k None] k None "2.prems" by (auto simp: covered_def split: if_splits)
    next
      case (Some v)
      then have "bind_keywords ps (filter (\<lambda>q. fst q \<noteq> pm_name p) kwargs) (b @ [(pm_name p, v)]) = Inr (b', left)"
        using k "2.prems"(1) by simp
      then obtain x where "b' = (b @ [(pm_name p, v)]) @ x" "covered ps b'"
        using "2.IH"(3)[OF k Some] "2.prems"(2) by auto
      then show ?thesis by (intro exI[of _ "(pm_name p, v) # x"]) (simp add: covered_def)
    qed
  qed
qed (simp add: covered_def)

lemma signature_bind_covered:
  assumes "signature_bind ps args kwargs = Inr bound" and "no_star ps"
  shows "covered ps bound"
proof -
  from assms(1) obtain b rest b' left where pos: "bind_positional ps args kwargs [] = Inr (b, rest)"
    and kw: "bind_keywords rest kwargs b = Inr (b', left)" and fin: "bind_rest rest left b' = Inr bound"
    by (auto simp: signature_bind_def bindR_Inr_iff)
  obtain used where used: "ps = used @ rest" "covered used b"
    using bind_positional_covered[OF pos assms(2)] by auto
  then have "no_star rest" using assms(2) by simp
  then obtain x where b': "b' = b @ x" "covered rest b'"
    using bind_keywords_covered[OF kw] by auto
  obtain y where "bound = b' @ y"
    using fin by (auto simp: bind_rest_def split: if_splits option.splits)
  then have "set b \<subseteq> set bound" "set b' \<subseteq> set bound" using b'(1) by auto
  then show ?thesis using used b'(2) by (auto simp: covered_append intro: covered_mono)
qed

lemma plain_no_star: "plain_signature ps \<Longrightarrow> no_star ps"
  by (auto simp: plain_signature_def plain_parameter_def list_all_iff)

lemma apply_defaults_names: "covered ps bound \<Longrightarrow> map fst (apply_defaults ps bound) = map pm_name ps"
  by (induction ps) (auto simp: covered_def default_of_def map_of_eq_None_iff split: option.split)

lemma apply_defaults_all:
  assumes "\<And>p. p \<in> set ps \<Longrightarrow> map_of m (pm_name p) \<noteq> None"
  shows "apply_defaults ps m = map (\<lambda>p. (pm_name p, the (map_of m (pm_name p)))) ps"
  using assms
proof (induction ps)
  case (Cons p ps)
  then obtain v where "map_of m (pm_name p) = Some v" by fastforce
  then show ?case using Cons by simp
qed simp

lemma map_of_self: "distinct (map fst m) \<Longrightarrow> map (\<lambda>n. (n, the (map_of m n))) (map fst m) = m"
  by (auto simp: comp_def intro!: map_idI)

lemma bind_own_keywords:
  assumes "map fst kwargs = map pm_name ps" and "plain_signature ps"
    and "\<And>p. p \<in> set ps \<Longrightarrow> pm_name p \<notin> fst ` set extra" and "\<And>p. p \<in> set vs \<Longrightarrow> pm_kind p = VAR_KEYWORD"
  shows "bind_keywords (ps @ vs) (kwargs @ extra) b = Inr (b @ kwargs, extra)"
  using assms(1-3)
proof (induction ps arbitrary: kwargs b)
  case Nil
  have "bind_keywords vs extra b = Inr (b, extra)" using assms(4) by (induction vs) auto
  then show ?case using Nil by simp
next
  case (Cons p ps)
  then obtain v rest where kw: "kwargs = (pm_name p, v) # rest" "map fst rest = map pm_name ps"
    by (cases kwargs) auto
  have k: "\<not> (pm_kind p = VAR_KEYWORD \<or> pm_kind p = VAR_POSITIONAL)"
    using Cons.prems(2) by (auto simp: plain_signature_def plain_parameter_def)
  have v: "keyword_value p (kwargs @ extra) = Some v"
    using Cons.prems(2) by (auto simp: keyword_value_def kw(1) plain_signature_def plain_parameter_def)
  have "pm_name p \<notin> fst ` set rest"
    using Cons.prems(2) kw(2) by (metis distinct.simps(2) list.set_map list.simps(9) plain_signature_def)
  then have "filter (\<lambda>q. fst q \<noteq> pm_name p) (rest @ extra) = rest @ extra"
    using Cons.prems(3)[of p] by (intro filter_True) (auto simp: image_iff)
  moreover have "bind_keywords (ps @ vs) (rest @ extra) (b @ [(pm_name p, v)]) =
      Inr ((b @ [(pm_name p, v)]) @ rest, extra)"
    using Cons.prems kw(2) by (intro Cons.IH) (simp_all add: plain_signature_def)
  ultimately show ?case using k v by (simp add: kw(1))
qed

lemma apply_defaults_own:
  assumes "map fst m = map pm_name ps" and "distinct (map fst m)"
  shows "apply_defaults ps m = m"
proof -
  have "map_of m (pm_name p) \<noteq> None" if "p \<in> set ps" for p
    using that assms(1) by (metis image_eqI list.set_map map_of_eq_None_iff)
  then have "apply_defaults ps m = map (\<lambda>n. (n, the (map_of m n))) (map pm_name ps)"
    by (simp add: apply_defaults_all comp_def)
  then show ?thesis using map_of_self[OF assms(2)] unfolding assms(1) by simp
qed

lemma signature_bind_own:
  assumes "map fst kwargs = map pm_name ps" and "plain_signature ps"
  shows "signature_bind ps [] kwargs = Inr kwargs" and "apply_defaults ps kwargs = kwargs"
proof -
  show "signature_bind ps [] kwargs = Inr kwargs"
    using bind_own_keywords[OF assms, of "[]" "[]" "[]"] by (simp add: signature_bind_def bind_rest_def)
  show "apply_defaults ps kwargs = kwargs"
    using assms by (intro apply_defaults_own) (simp_all add: plain_signature_def)
qed

section \<open>Positional-only parameters\<close>

text \<open>A keyword that only a positional-only parameter is named like is left over.\<close>

lemma bind_keywords_left:
  assumes "bind_keywords ps kwargs b = Inr (b', left)" and "n \<in> fst ` set kwargs"
    and "\<And>q. q \<in> set ps \<Longrightarrow> pm_name q = n \<Longrightarrow> pm_kind q = POSITIONAL_ONLY"
  shows "n \<in> fst ` set left"
  using assms
proof (induction ps kwargs b rule: bind_keywords.induct)
  case (2 q ps kwargs b)
  show ?case
  proof (cases "pm_kind q = VAR_KEYWORD \<or> pm_kind q = VAR_POSITIONAL")
    case True
    then show ?thesis using "2.IH"(1)[OF True] "2.prems" by auto
  next
    case k: False
    show ?thesis
    proof (cases "keyword_value q kwargs")
      case None
      then show ?thesis using "2.IH"(2)[OF k None] k "2.prems" by (auto split: if_splits)
    next
      case (Some v)
      then have "pm_name q \<noteq> n" using "2.prems"(3)[of q] by auto
      then have "n \<in> fst ` set (filter (\<lambda>z. fst z \<noteq> pm_name q) kwargs)"
        using "2.prems"(2) by (auto simp: image_iff)
      then show ?thesis using "2.IH"(3)[OF k Some] k Some "2.prems" by auto
    qed
  qed
qed simp

lemma signature_bind_left:
  assumes "pm_name p \<in> fst ` set kwargs" and "p \<in> set ps" and "pm_kind p = POSITIONAL_ONLY"
    and "\<And>q. q \<in> set ps \<Longrightarrow> pm_kind q \<noteq> VAR_POSITIONAL \<and> pm_kind q \<noteq> VAR_KEYWORD"
    and "distinct (map pm_name ps)"
  shows "\<exists>e. signature_bind ps [] kwargs = Inl e"
proof (cases "bind_keywords ps kwargs []")
  case (Inr r)
  obtain b left where r: "r = (b, left)" by (cases r)
  have "q = p" if "q \<in> set ps" "pm_name q = pm_name p" for q
    using that assms(2,5) by (auto simp: distinct_map inj_on_def)
  then have "pm_name p \<in> fst ` set left"
    using assms(3) by (intro bind_keywords_left[OF Inr[unfolded r] assms(1)]) auto
  then have "left \<noteq> []" by auto
  moreover have "find (\<lambda>q. pm_kind q = VAR_KEYWORD) ps = None" using assms(4) by (auto simp: find_None_iff)
  ultimately show ?thesis using Inr r by (simp add: signature_bind_def bind_rest_def)
qed (simp add: signature_bind_def)

section \<open>Star parameters\<close>

definition is_type_error :: "error \<Rightarrow> bool" where
  "is_type_error e \<longleftrightarrow> (\<exists>m. e = TypeErr m)"

lemma is_type_error [simp]: "is_type_error (TypeErr m)"
  by (simp add: is_type_error_def)

lemma bind_type_errors:
  "bind_positional ps args kwargs b = Inl e \<Longrightarrow> is_type_error e"
  "bind_keywords ps kwargs b = Inl e \<Longrightarrow> is_type_error e"
  "bind_rest ps kwargs b = Inl e \<Longrightarrow> is_type_error e"
proof -
  show "bind_positional ps args kwargs b = Inl e \<Longrightarrow> is_type_error e"
    by (induction ps args kwargs b rule: bind_positional.induct) (auto split: parameter_kind.splits if_splits)
  show "bind_keywords ps kwargs b = Inl e \<Longrightarrow> is_type_error e"
    by (induction ps kwargs b rule: bind_keywords.induct) (auto split: option.splits if_splits)
  show "bind_rest ps kwargs b = Inl e \<Longrightarrow> is_type_error e"
    by (auto simp: bind_rest_def split: option.splits if_splits)
qed

lemma signature_bind_type_error: "signature_bind ps args kwargs = Inl e \<Longrightarrow> is_type_error e"
  by (auto simp: signature_bind_def bindR_def split: sum.splits dest: bind_type_errors)

lemma collect_Inl: "collect rs = Inl e \<Longrightarrow> Inl e \<in> set rs"
  by (induction rs) (auto simp: bindR_def split: sum.splits)

lemma collect_items_Inl: "collect_items rs d = Inl e \<Longrightarrow> \<exists>k. (k, Inl e) \<in> set rs"
  by (induction rs d rule: collect_items.induct) (auto simp: bindR_def split: sum.splits)

lemma as_json_value_type_error: "as_json_value L object_str name v = Inl e \<Longrightarrow> is_type_error e"
proof (induction v)
  case (PyList xs)
  then have "collect (map (as_json_value L object_str name) xs) = Inl e"
    by (auto simp: bindR_def split: sum.splits)
  then have "Inl e \<in> set (map (as_json_value L object_str name) xs)" by (rule collect_Inl)
  then show ?case using PyList.IH by auto
next
  case (PyDict d)
  then have "collect_items (map (\<lambda>p. (key_str L object_str (fst p), as_json_value L object_str name (snd p))) d) [] =
      Inl e"
    by (auto simp: bindR_def split: sum.splits)
  from collect_items_Inl[OF this] show ?case using PyDict.IH(2) by (auto simp: snds.simps)
qed auto

lemma json_arguments_type_error: "json_arguments L object_str vs = Inl e \<Longrightarrow> is_type_error e"
  by (induction vs) (auto simp: bindR_def as_json_value_type_error split: sum.splits)

lemma json_arguments_tuple: "(n, PyTuple ts) \<in> set vs \<Longrightarrow> \<exists>e. json_arguments L object_str vs = Inl e"
  by (induction vs) (auto simp: bindR_def split: sum.splits)

text \<open>What binding assigns to a star parameter is a tuple.\<close>

definition star_tuples :: "parameter list \<Rightarrow> named_values \<Rightarrow> bool" where
  "star_tuples ps b \<longleftrightarrow> (\<forall>(n, v) \<in> set b. \<exists>q \<in> set ps. n = pm_name q \<and>
     (pm_kind q = VAR_POSITIONAL \<longrightarrow> (\<exists>ts. v = PyTuple ts)))"

lemma star_tuples_snoc:
  "star_tuples ps b \<Longrightarrow> q \<in> set ps \<Longrightarrow> (pm_kind q = VAR_POSITIONAL \<Longrightarrow> \<exists>ts. v = PyTuple ts) \<Longrightarrow>
   star_tuples ps (b @ [(pm_name q, v)])"
  by (auto simp: star_tuples_def)

lemma bind_positional_star:
  assumes "bind_positional qs args kwargs b = Inr (b', rest)" and "set qs \<subseteq> set ps" and "star_tuples ps b"
  shows "star_tuples ps b' \<and> set rest \<subseteq> set ps"
  using assms
proof (induction qs args kwargs b rule: bind_positional.induct)
  case (3 q qs a as kwargs b)
  show ?case
  proof (cases "pm_kind q = POSITIONAL_OR_KEYWORD \<or> pm_kind q = POSITIONAL_ONLY")
    case True
    have "star_tuples ps (b @ [(pm_name q, a)])"
      using "3.prems"(2,3) True by (intro star_tuples_snoc) auto
    with True show ?thesis using "3.IH" "3.prems" by (elim disjE) (auto split: if_splits)
  next
    case False
    then have "b' = b @ [(pm_name q, PyTuple (a # as))]" "rest = qs"
      using "3.prems"(1) by (auto split: parameter_kind.splits)
    then show ?thesis using "3.prems"(2,3) by (auto intro: star_tuples_snoc)
  qed
qed auto

lemma bind_keywords_star:
  assumes "bind_keywords qs kwargs b = Inr (b', left)" and "set qs \<subseteq> set ps" and "star_tuples ps b"
  shows "star_tuples ps b'"
  using assms
proof (induction qs kwargs b rule: bind_keywords.induct)
  case (2 q qs kwargs b)
  show ?case
  proof (cases "pm_kind q = VAR_KEYWORD \<or> pm_kind q = VAR_POSITIONAL")
    case True
    then show ?thesis using "2.IH"(1)[OF True] "2.prems" by auto
  next
    case k: False
    then have "star_tuples ps (b @ [(pm_name q, v)])" for v
      using k "2.prems"(2,3) by (intro star_tuples_snoc) auto
    then show ?thesis
      using k "2.IH"(2)[OF k] "2.IH"(3)[OF k] "2.prems" by (auto split: option.splits if_splits)
  qed
qed simp

lemma signature_bind_star:
  assumes "signature_bind ps args kwargs = Inr bound"
  shows "star_tuples ps bound"
proof -
  from assms obtain b rest b' left where pos: "bind_positional ps args kwargs [] = Inr (b, rest)"
    and kw: "bind_keywords rest kwargs b = Inr (b', left)" and fin: "bind_rest rest left b' = Inr bound"
    by (auto simp: signature_bind_def bindR_Inr_iff)
  have b: "star_tuples ps b \<and> set rest \<subseteq> set ps"
    by (rule bind_positional_star[OF pos]) (simp_all add: star_tuples_def)
  then have b': "star_tuples ps b'" using bind_keywords_star[OF kw] by blast
  have "star_tuples ps (b' @ [(pm_name p, v)])" if "find (\<lambda>p. pm_kind p = VAR_KEYWORD) rest = Some p" for p v
    using that b b' by (intro star_tuples_snoc) (auto simp: find_Some_iff)
  then show ?thesis using fin b' by (auto simp: bind_rest_def split: if_splits option.splits)
qed

lemma apply_defaults_star:
  assumes "p \<in> set qs" and "pm_kind p = VAR_POSITIONAL" and "pm_default p = None"
    and "\<And>v. map_of bound (pm_name p) = Some v \<Longrightarrow> \<exists>ts. v = PyTuple ts"
  shows "\<exists>ts. (pm_name p, PyTuple ts) \<in> set (apply_defaults qs bound)"
  using assms(1)
proof (induction qs)
  case (Cons q qs)
  show ?case
  proof (cases "q = p")
    case True
    then show ?thesis using assms(2-4) by (auto simp: default_of_def split: option.split)
  next
    case False
    then obtain ts where "(pm_name p, PyTuple ts) \<in> set (apply_defaults qs bound)" using Cons by auto
    then show ?thesis by (auto split: option.split)
  qed
qed simp

section \<open>Properties\<close>

lemma transparent_call:
  assumes "plain_signature (fn_parameters f)" and "signature_bind (fn_parameters f) args kwargs = Inr bound"
    and "list_all (\<lambda>(n, v). json_argument v) (apply_defaults (fn_parameters f) bound)"
  shows "bind_json_arguments L object_str (fn_parameters f) args kwargs =
      Inr (keyword_dict (apply_defaults (fn_parameters f) bound))"
    and "function_handler f (keyword_dict (apply_defaults (fn_parameters f) bound)) = call_function f args kwargs"
proof -
  let ?vs = "apply_defaults (fn_parameters f) bound"
  show "bind_json_arguments L object_str (fn_parameters f) args kwargs = Inr (keyword_dict ?vs)"
    using assms(2) json_arguments_id[OF assms(3)] by (simp add: bind_json_arguments_def)
  have "covered (fn_parameters f) bound"
    using signature_bind_covered[OF assms(2)] assms(1) by (simp add: plain_no_star)
  then have "map fst ?vs = map pm_name (fn_parameters f)" by (rule apply_defaults_names)
  from signature_bind_own[OF this assms(1)] show
    "function_handler f (keyword_dict ?vs) = call_function f args kwargs"
    by (simp add: function_handler_def call_function_def assms(2))
qed


definition sample_function :: "unit py_function" where
  "sample_function = \<lparr>fn_parameters =
       [\<lparr>pm_name = ''order'', pm_kind = POSITIONAL_OR_KEYWORD, pm_default = None\<rparr>,
        \<lparr>pm_name = ''amount'', pm_kind = POSITIONAL_OR_KEYWORD, pm_default = Some (PyInt 1)\<rparr>,
        \<lparr>pm_name = ''note'', pm_kind = KEYWORD_ONLY, pm_default = Some PyNone\<rparr>],
     fn_body = (\<lambda>vs e. (Returned (PyList (map snd vs)), e))\<rparr>"



definition options_function :: "unit py_function" where
  "options_function = \<lparr>fn_parameters =
       [\<lparr>pm_name = ''order'', pm_kind = POSITIONAL_OR_KEYWORD, pm_default = None\<rparr>,
        \<lparr>pm_name = ''options'', pm_kind = VAR_KEYWORD, pm_default = None\<rparr>],
     fn_body = (\<lambda>vs e. (Returned (PyList (map snd vs)), e))\<rparr>"


text \<open>
  A function with \<^verbatim>\<open>*args\<close> cannot be called through \<^verbatim>\<open>protect\<close> at all: whatever the
  arguments, the tuple that binding assigns to the parameter, which is the empty tuple when no
  extra argument is given, is refused as not JSON-compatible and every call raises
  \<^verbatim>\<open>TypeError\<close>.
\<close>

theorem star_arguments_rejected:
  assumes "p \<in> set ps" and "pm_kind p = VAR_POSITIONAL" and "pm_default p = None"
    and "distinct (map pm_name ps)"
  shows "\<exists>m. bind_json_arguments L object_str ps args kwargs = Inl (TypeErr m)"
proof (cases "signature_bind ps args kwargs")
  case (Inl e)
  then show ?thesis
    using signature_bind_type_error[OF Inl] by (simp add: bind_json_arguments_def is_type_error_def)
next
  case (Inr bound)
  have "\<exists>ts. v = PyTuple ts" if "map_of bound (pm_name p) = Some v" for v
  proof -
    from that have "(pm_name p, v) \<in> set bound" by (rule map_of_SomeD)
    with signature_bind_star[OF Inr] obtain q where "q \<in> set ps" "pm_name p = pm_name q"
      "pm_kind q = VAR_POSITIONAL \<longrightarrow> (\<exists>ts. v = PyTuple ts)"
      by (auto simp: star_tuples_def)
    moreover from this have "q = p" using assms(1,4) by (auto simp: distinct_map inj_on_def)
    ultimately show ?thesis using assms(2) by simp
  qed
  from apply_defaults_star[OF assms(1-3) this] obtain ts
    where "(pm_name p, PyTuple ts) \<in> set (apply_defaults ps bound)" by blast
  from json_arguments_tuple[OF this] obtain e where e: "json_arguments L object_str (apply_defaults ps bound) = Inl e"
    by blast
  then show ?thesis
    using json_arguments_type_error[OF e] by (simp add: bind_json_arguments_def Inr is_type_error_def)
qed

theorem star_arguments_rejected_witness:
  "\<exists>m. bind_json_arguments sample_libs (\<lambda>_. [])
     [\<lparr>pm_name = ''order'', pm_kind = POSITIONAL_OR_KEYWORD, pm_default = None\<rparr>,
      \<lparr>pm_name = ''rest'', pm_kind = VAR_POSITIONAL, pm_default = None\<rparr>] [PyStr ''A-1''] [] = Inl (TypeErr m)"
  by (rule star_arguments_rejected[of "\<lparr>pm_name = ''rest'', pm_kind = VAR_POSITIONAL, pm_default = None\<rparr>"])
    simp_all


definition lookup_function :: "unit py_function" where
  "lookup_function = \<lparr>fn_parameters =
       [\<lparr>pm_name = ''order'', pm_kind = POSITIONAL_ONLY, pm_default = None\<rparr>,
        \<lparr>pm_name = ''depth'', pm_kind = POSITIONAL_OR_KEYWORD, pm_default = Some (PyInt 1)\<rparr>],
     fn_body = (\<lambda>vs e. (Returned (PyList (map snd vs)), e))\<rparr>"


end
