(* ===== verification/Json_Text.thy ===== *)
theory Json_Text
  imports Policies Schema_Validation
begin

text \<open>
  The text that \<^verbatim>\<open>json.dumps(value, allow_nan=False, separators=(",", ":"), sort_keys=True)\<close>
  of the standard library returns, or the exception it raises; what is needed of the text of
  a float is the hypothesis \<open>float_repr_documented\<close>. The main result is that the text is
  unambiguous: two JSON values have the same text exactly when they are equal up to the order
  of the items of their objects.
\<close>

section \<open>The encoder\<close>

definition escape_char :: "char \<Rightarrow> string" where
  "escape_char c =
     (let n = of_char c :: int in
      if n = 34 then [CHR 0x5C, CHR 0x22]
      else if n = 92 then [CHR 0x5C, CHR 0x5C]
      else if n = 8 then [CHR 0x5C, CHR ''b'']
      else if n = 9 then [CHR 0x5C, CHR ''t'']
      else if n = 10 then [CHR 0x5C, CHR ''n'']
      else if n = 12 then [CHR 0x5C, CHR ''f'']
      else if n = 13 then [CHR 0x5C, CHR ''r'']
      else if 32 \<le> n \<and> n \<le> 126 then [c]
      else [CHR 0x5C, CHR ''u'', CHR ''0'', CHR ''0'', hex_digit (nat (n div 16)), hex_digit (nat (n mod 16))])"

definition json_string :: "string \<Rightarrow> string" where
  "json_string s = CHR 0x22 # concat (map escape_char s) @ [CHR 0x22]"

definition float_text :: "'z libs_scheme \<Rightarrow> pyfloat \<Rightarrow> string result" where
  "float_text L f = (if finite_float f then Inr (float_repr L f)
     else Inl (ValueErr ''Out of range float values are not JSON compliant''))"

fun key_text :: "'z libs_scheme \<Rightarrow> pyval \<Rightarrow> string result" where
  "key_text L (PyStr s) = Inr s"
| "key_text L (PyInt i) = Inr (int_str i)"
| "key_text L (PyBool b) = Inr (if b then ''true'' else ''false'')"
| "key_text L PyNone = Inr ''null''"
| "key_text L (PyFloat f) = float_text L f"
| "key_text L _ = Inl (TypeErr ''keys must be str, int, float, bool or None'')"

text \<open>
  \<^verbatim>\<open>sorted(d.items())\<close>: the keys of a dict are distinct, so the values are not compared.
  Text is compared with text and number with number, other comparisons raise. The numeric
  order of keys that are not finite is immaterial: encoding such a key raises.
\<close>

definition key_number :: "pyval \<Rightarrow> rat" where
  "key_number k = (case number_of k of Finite r \<Rightarrow> r | _ \<Rightarrow> 0)"

definition sort_items :: "(pyval \<times> 'a) list \<Rightarrow> (pyval \<times> 'a) list result" where
  "sort_items d =
     (if list_all (\<lambda>p. is_str (fst p)) d then Inr (sort_key (\<lambda>p. the_str (fst p)) d)
      else if length d \<le> 1 then Inr d
      else if list_all (\<lambda>p. is_int (fst p) \<or> is_float (fst p)) d then
        Inr (sort_key (\<lambda>p. key_number (fst p)) d)
      else Inl (TypeErr ''items are not comparable''))"

definition item_text :: "'z libs_scheme \<Rightarrow> pyval \<times> string result \<Rightarrow> string result" where
  "item_text L p =
     bindR (key_text L (fst p)) (\<lambda>k. bindR (snd p) (\<lambda>v. Inr (json_string k @ '':'' @ v)))"

fun json_text :: "'z libs_scheme \<Rightarrow> pyval \<Rightarrow> string result" where
  "json_text L PyNone = Inr ''null''"
| "json_text L (PyBool b) = Inr (if b then ''true'' else ''false'')"
| "json_text L (PyInt i) = Inr (int_str i)"
| "json_text L (PyFloat f) = float_text L f"
| "json_text L (PyStr s) = Inr (json_string s)"
| "json_text L (PyList xs) =
     bindR (collect (map (json_text L) xs)) (\<lambda>ts. Inr (''['' @ join '','' ts @ '']''))"
| "json_text L (PyTuple xs) =
     bindR (collect (map (json_text L) xs)) (\<lambda>ts. Inr (''['' @ join '','' ts @ '']''))"
| "json_text L (PyDict d) =
     bindR (sort_items (map (\<lambda>p. (fst p, json_text L (snd p))) d)) (\<lambda>items.
     bindR (collect (map (item_text L) items)) (\<lambda>ts. Inr (''{'' @ join '','' ts @ ''}'')))"
| "json_text L (PyObject _) = Inl (TypeErr ''Object is not JSON serializable'')"

section \<open>Which values have a text\<close>

lemma sort_items_text:
  "list_all (\<lambda>p. is_str (fst p)) d \<Longrightarrow> sort_items d = Inr (sort_key (\<lambda>p. the_str (fst p)) d)"
  by (simp add: sort_items_def)

lemma is_str_iff: "is_str v \<longleftrightarrow> (\<exists>s. v = PyStr s)"
  by (cases v) simp_all

lemma float_text_ok: "(\<exists>t. float_text L f = Inr t) \<longleftrightarrow> finite_float f"
  by (simp add: float_text_def)

lemma item_text_ok:
  "is_str (fst p) \<Longrightarrow> (\<exists>t. item_text L p = Inr t) \<longleftrightarrow> (\<exists>t. snd p = Inr t)"
  by (auto simp: item_text_def is_str_iff bindR_Inr_iff)

text \<open>On the values of \<^verbatim>\<open>JsonValue\<close> the encoder raises only for floats that are not finite.\<close>

lemma json_text_ok: "json_shape v \<Longrightarrow> (\<exists>t. json_text L v = Inr t) \<longleftrightarrow> json_dumps_ok v"
proof (induction v)
  case (PyFloat f)
  then show ?case by (simp add: float_text_ok)
next
  case (PyList xs)
  then show ?case by (auto simp: bindR_Inr_iff collect_ok list_all_iff)
next
  case (PyDict d)
  have "list_all (\<lambda>p. is_str (fst p)) d"
    using PyDict.prems by (auto simp: list_all_iff)
  moreover have "(\<exists>t. item_text L (fst p, json_text L (snd p)) = Inr t) \<longleftrightarrow> json_dumps_ok (snd p)"
    if "p \<in> set d" for p
  proof -
    have "snd p \<in> Basic_BNFs.snds p" by (cases p) simp
    then show ?thesis
      using PyDict.IH[OF that] PyDict.prems that by (auto simp: item_text_ok list_all_iff)
  qed
  moreover have "json_key_ok (fst p)" if "p \<in> set d" for p
    using PyDict.prems that by (auto simp: list_all_iff is_str_iff)
  ultimately show ?case
    by (auto simp: bindR_Inr_iff sort_items_text list.pred_map comp_def collect_ok list_all_iff)
qed auto

section \<open>Strings and numbers are unambiguous\<close>

definition hex_value :: "char \<Rightarrow> int" where
  "hex_value c = (let n = of_char c :: int in if n < 97 then n - 48 else n - 87)"

definition unescape :: "string \<Rightarrow> (char \<times> string) option" where
  "unescape s = (case s of
     [] \<Rightarrow> None
   | c # r \<Rightarrow>
       if c \<noteq> CHR 0x5C then Some (c, r)
       else (case r of
          [] \<Rightarrow> None
        | e # r' \<Rightarrow>
            if e = CHR ''b'' then Some (CHR 0x08, r')
            else if e = CHR ''t'' then Some (CHR 0x09, r')
            else if e = CHR ''n'' then Some (CHR 0x0A, r')
            else if e = CHR ''f'' then Some (CHR 0x0C, r')
            else if e = CHR ''r'' then Some (CHR 0x0D, r')
            else if e = CHR ''u'' then
              Some (char_of (16 * hex_value (r' ! 2) + hex_value (r' ! 3)), drop 4 r')
            else Some (e, r')))"

lemma hex_value_digit: "n < 16 \<Longrightarrow> hex_value (hex_digit n) = int n"
  by (simp add: hex_value_def hex_digit_def Let_def of_char_int of_char_of)

lemma char_of_int_eqI: "of_char c = (n :: int) \<Longrightarrow> c = char_of n"
  by (metis char_of_char)

lemma escape_char_cases:
  obtains (plain) "c \<noteq> CHR 0x5C" "c \<noteq> CHR 0x22" "escape_char c = [c]"
  | (short) e where "escape_char c = [CHR 0x5C, e]"
      "(e, c) \<in> {(CHR 0x22, CHR 0x22), (CHR 0x5C, CHR 0x5C), (CHR ''b'', CHR 0x08), (CHR ''t'', CHR 0x09),
         (CHR ''n'', CHR 0x0A), (CHR ''f'', CHR 0x0C), (CHR ''r'', CHR 0x0D)}"
  | (hex) "escape_char c = [CHR 0x5C, CHR ''u'', CHR ''0'', CHR ''0'',
         hex_digit (nat (of_char c div 16)), hex_digit (nat (of_char c mod 16))]"
proof -
  have code: "c = d" if "of_char c = (of_char d :: int)" for d using that by simp
  have ne: "c \<noteq> CHR 0x5C" "c \<noteq> CHR 0x22" if "of_char c \<noteq> (92 :: int)" "of_char c \<noteq> (34 :: int)"
    using that by auto
  have long: "escape_char c = [c] \<or> escape_char c = [CHR 0x5C, CHR ''u'', CHR ''0'', CHR ''0'',
      hex_digit (nat (of_char c div 16)), hex_digit (nat (of_char c mod 16))]"
    if "of_char c \<notin> {34, 92, 8, 9, 10, 12, 13 :: int}"
    using that by (simp add: escape_char_def Let_def)
  consider "of_char c = (34 :: int)" | "of_char c = (92 :: int)" | "of_char c = (8 :: int)"
    | "of_char c = (9 :: int)" | "of_char c = (10 :: int)" | "of_char c = (12 :: int)"
    | "of_char c = (13 :: int)"
    | "escape_char c = [c]" "of_char c \<noteq> (92 :: int)" "of_char c \<noteq> (34 :: int)"
    | "escape_char c = [CHR 0x5C, CHR ''u'', CHR ''0'', CHR ''0'',
         hex_digit (nat (of_char c div 16)), hex_digit (nat (of_char c mod 16))]"
    using long by fast
  then show ?thesis
  proof cases
    case 8
    then show ?thesis using ne by (intro plain)
  next
    case 9
    then show ?thesis by (rule hex)
  qed (rule short, simp add: escape_char_def,
      use code[of "CHR 0x22"] code[of "CHR 0x5C"] code[of "CHR 0x08"] code[of "CHR 0x09"]
        code[of "CHR 0x0A"] code[of "CHR 0x0C"] code[of "CHR 0x0D"] in simp)+
qed

lemma unescape_escape: "unescape (escape_char c @ x) = Some (c, x)"
proof (cases c rule: escape_char_cases)
  case plain
  then show ?thesis by (simp add: unescape_def)
next
  case (short e)
  then show ?thesis by (auto simp: unescape_def)
next
  case hex
  define n where "n = (of_char c :: int)"
  have "0 \<le> n" "n < 256"
    using nat_of_char_less_256[of c] by (simp_all add: n_def of_char_int)
  moreover from this have "nat (n div 16) < 16" "nat (n mod 16) < 16" by auto
  ultimately have "16 * hex_value (hex_digit (nat (n div 16))) + hex_value (hex_digit (nat (n mod 16))) =
      16 * (n div 16) + n mod 16"
    using pos_imp_zdiv_nonneg_iff[of 16 n] by (simp add: hex_value_digit)
  also have "\<dots> = n" by simp
  finally have "char_of (16 * hex_value (hex_digit (nat (n div 16))) +
      hex_value (hex_digit (nat (n mod 16)))) = c"
    by (simp add: n_def)
  then show ?thesis by (simp add: hex unescape_def n_def)
qed

lemma escape_char_prefix: "escape_char c @ x = escape_char d @ y \<Longrightarrow> c = d \<and> x = y"
  by (metis Pair_inject option.inject unescape_escape)

lemma hd_escape_char: "escape_char c \<noteq> [] \<and> hd (escape_char c) \<noteq> CHR 0x22"
  by (auto simp: escape_char_def Let_def)

lemma json_string_prefix: "json_string s @ x = json_string t @ y \<Longrightarrow> s = t \<and> x = y"
proof -
  have "concat (map escape_char s) @ CHR 0x22 # x = concat (map escape_char t) @ CHR 0x22 # y \<Longrightarrow>
      s = t \<and> x = y"
  proof (induction s arbitrary: t)
    case Nil
    show ?case
    proof (cases t)
      case (Cons d t')
      then show ?thesis using Nil hd_escape_char[of d] by (cases "escape_char d") auto
    qed (use Nil in simp)
  next
    case (Cons c s)
    show ?case
    proof (cases t)
      case Nil
      then show ?thesis
        using Cons.prems hd_escape_char[of c] by (cases "escape_char c") auto
    next
      case (Cons d t')
      then show ?thesis
        using Cons.prems Cons.IH[of t']
          escape_char_prefix[of c "concat (map escape_char s) @ CHR 0x22 # x" d
            "concat (map escape_char t') @ CHR 0x22 # y"] by simp
    qed
  qed
  then show "json_string s @ x = json_string t @ y \<Longrightarrow> s = t \<and> x = y"
    by (simp add: json_string_def)
qed

definition number_char :: "char \<Rightarrow> bool" where
  "number_char c \<longleftrightarrow> decimal_digit c \<or> c \<in> set ''+-.e''"

text \<open>
  \<^verbatim>\<open>float.__repr__\<close>: distinct floats have distinct texts, made of digits, sign, point and
  exponent, and with a point or an exponent where the text of an int has none.
\<close>

definition float_repr_documented :: "'z libs_scheme \<Rightarrow> bool" where
  "float_repr_documented L \<longleftrightarrow>
     (\<forall>q. float_repr L (Finite q) \<noteq> [] \<and> list_all number_char (float_repr L (Finite q)) \<and>
        (decimal_digit (hd (float_repr L (Finite q))) \<or> hd (float_repr L (Finite q)) = CHR ''-'') \<and>
        (CHR ''.'' \<in> set (float_repr L (Finite q)) \<or> CHR ''e'' \<in> set (float_repr L (Finite q)))) \<and>
     (\<forall>q r. float_repr L (Finite q) = float_repr L (Finite r) \<longrightarrow> q = r)"

text \<open>What may follow a value inside a text.\<close>

definition delimited :: "string \<Rightarrow> bool" where
  "delimited x \<longleftrightarrow> x = [] \<or> hd x \<in> set '',]}''"

lemma delimited_number: "delimited x \<Longrightarrow> x \<noteq> [] \<Longrightarrow> \<not> number_char (hd x)"
  by (auto simp: delimited_def number_char_def decimal_digit_def Let_def)

lemma token_prefix:
  assumes "list_all number_char s" and "list_all number_char t"
    and "s @ x = t @ y" and "delimited x" and "delimited y"
  shows "s = t \<and> x = y"
proof -
  have tok: "takeWhile number_char (u @ z) = u" if "list_all number_char u" "delimited z" for u z
    using that delimited_number[of z]
    by (cases z) (auto simp: takeWhile_append2 list_all_iff takeWhile_append1)
  have "s = t" using tok[OF assms(1,4)] tok[OF assms(2,5)] assms(3) by simp
  with assms(3) show ?thesis by simp
qed

lemma digit_char: "(n :: nat) < 10 \<Longrightarrow> decimal_digit (char_of (48 + n))"
  by (simp add: decimal_digit_def Let_def of_char_int of_char_of)

lemma nat_str_digits: "nat_str n \<noteq> [] \<and> list_all decimal_digit (nat_str n)"
proof (induction n rule: nat_str.induct)
  case (1 n)
  then show ?case
    by (subst (1 2) nat_str.simps) (auto simp: digit_char)
qed

fun digits_value :: "nat \<Rightarrow> string \<Rightarrow> nat" where
  "digits_value m [] = m"
| "digits_value m (c # s) = digits_value (10 * m + (of_char c - 48)) s"

lemma digits_value_append: "digits_value m (s @ t) = digits_value (digits_value m s) t"
  by (induction s arbitrary: m) simp_all

lemma digits_value_nat_str: "digits_value 0 (nat_str n) = n"
proof (induction n rule: nat_str.induct)
  case (1 n)
  then show ?case
    by (subst nat_str.simps) (auto simp: of_char_of digits_value_append)
qed

lemma nat_str_inj: "nat_str m = nat_str n \<longleftrightarrow> m = n"
  by (metis digits_value_nat_str)

lemma int_str_chars:
  "int_str i \<noteq> []" "list_all number_char (int_str i)" "CHR ''.'' \<notin> set (int_str i)"
  "CHR ''e'' \<notin> set (int_str i)" "decimal_digit (hd (int_str i)) \<or> hd (int_str i) = CHR ''-''"
proof -
  have d: "nat_str n \<noteq> []" "list_all decimal_digit (nat_str n)" for n using nat_str_digits by auto
  have sep: "\<not> decimal_digit CHR ''.''" "\<not> decimal_digit CHR ''e''"
    by (simp_all add: decimal_digit_def)
  have h: "decimal_digit (hd (nat_str n))" for n using d[of n] by (cases "nat_str n") auto
  show "int_str i \<noteq> []" "decimal_digit (hd (int_str i)) \<or> hd (int_str i) = CHR ''-''"
    using d h by (auto simp: int_str_def)
  show "list_all number_char (int_str i)" "CHR ''.'' \<notin> set (int_str i)" "CHR ''e'' \<notin> set (int_str i)"
    using d(2) sep by (auto simp: int_str_def number_char_def list_all_iff)
qed

lemma int_str_inj: "int_str i = int_str j \<longleftrightarrow> i = j"
proof -
  have "hd (nat_str n) \<noteq> CHR ''-''" for n
    using nat_str_digits[of n] by (cases "nat_str n") (auto simp: decimal_digit_def)
  then have sign: "nat_str n \<noteq> CHR ''-'' # s" for n s by (metis list.sel(1))
  show ?thesis
    using sign sign[symmetric] by (auto simp: int_str_def nat_str_inj split: if_splits)
qed

section \<open>Texts of values are unambiguous\<close>

text \<open>The value up to the order of the items of its dicts, and with its tuples as lists.\<close>

abbreviation by_key :: "(pyval \<times> 'a) list \<Rightarrow> (pyval \<times> 'a) list" where
  "by_key d \<equiv> sort_key (\<lambda>p. the_str (fst p)) d"

fun canonical :: "pyval \<Rightarrow> pyval" where
  "canonical (PyList xs) = PyList (map canonical xs)"
| "canonical (PyTuple xs) = PyList (map canonical xs)"
| "canonical (PyDict d) = PyDict (by_key (map (\<lambda>p. (fst p, canonical (snd p))) d))"
| "canonical v = v"

lemma insort_key_map: "insort_key f (h x) (map h xs) = map h (insort_key (f \<circ> h) x xs)"
  by (induction xs) simp_all

lemma sort_key_map: "sort_key f (map h xs) = map h (sort_key (f \<circ> h) xs)"
  by (induction xs) (simp_all add: insort_key_map comp_def)

lemma by_key_map: "by_key (map (\<lambda>p. (fst p, g (snd p))) d) = map (\<lambda>p. (fst p, g (snd p))) (by_key d)"
  by (simp add: sort_key_map comp_def)

text \<open>
  \<open>E a s\<close>: \<open>s\<close> is the text of \<open>a\<close>. The text of \<open>a\<close> is unambiguous if what follows it tells
  the text of no other element apart from it, up to the view \<open>c\<close>.
\<close>

definition unambiguous :: "('a \<Rightarrow> string \<Rightarrow> bool) \<Rightarrow> ('a \<Rightarrow> 'b) \<Rightarrow> 'a \<Rightarrow> bool" where
  "unambiguous E c a \<longleftrightarrow>
     (\<forall>b s t x y. E a s \<longrightarrow> E b t \<longrightarrow> s @ x = t @ y \<longrightarrow> delimited x \<longrightarrow> delimited y \<longrightarrow> c a = c b \<and> x = y)"

lemma unambiguousD:
  "unambiguous E c a \<Longrightarrow> E a s \<Longrightarrow> E b t \<Longrightarrow> s @ x = t @ y \<Longrightarrow> delimited x \<Longrightarrow> delimited y \<Longrightarrow>
   c a = c b \<and> x = y"
  unfolding unambiguous_def by blast

abbreviation tail_text :: "string list \<Rightarrow> string" where
  "tail_text ss \<equiv> concat (map (\<lambda>s. '','' @ s) ss)"

lemma join_tail: "join '','' (s # ss) = s @ tail_text ss"
proof (induction ss arbitrary: s)
  case (Cons t ss)
  then show ?case by simp
qed simp

lemma delimited_tail: "close \<in> set '']}'' \<Longrightarrow> delimited (tail_text ss @ close # x)"
  by (cases ss) (auto simp: delimited_def)

lemma tail_unambiguous:
  assumes "\<And>a. a \<in> set as \<Longrightarrow> unambiguous E c a" and "list_all2 E as ss" and "list_all2 E bs ts"
    and "tail_text ss @ close # x = tail_text ts @ close # y" and "close \<in> set '']}''"
  shows "map c as = map c bs \<and> x = y"
  using assms
proof (induction as arbitrary: ss bs ts)
  case Nil
  then show ?case by (cases ts) (auto simp: list_all2_Cons2)
next
  case (Cons a as)
  then obtain s ss' where ss: "ss = s # ss'" "E a s" "list_all2 E as ss'"
    by (auto simp: list_all2_Cons1)
  with Cons.prems(4,5) obtain t ts' where ts: "ts = t # ts'"
    by (cases ts) auto
  with Cons.prems(3) obtain b bs' where bs: "bs = b # bs'" "E b t" "list_all2 E bs' ts'"
    by (auto simp: list_all2_Cons2)
  have "s @ tail_text ss' @ close # x = t @ tail_text ts' @ close # y"
    using Cons.prems(4) ss ts by simp
  then have "c a = c b \<and> tail_text ss' @ close # x = tail_text ts' @ close # y"
    by (intro unambiguousD[OF Cons.prems(1)[of a] ss(2) bs(2)] delimited_tail Cons.prems(5)) simp_all
  then show ?case
    using Cons.IH[of ss' bs' ts'] Cons.prems(1,5) ss(3) bs by simp
qed

lemma join_unambiguous:
  assumes un: "\<And>a. a \<in> set as \<Longrightarrow> unambiguous E c a" and as: "list_all2 E as ss" and bs: "list_all2 E bs ts"
    and eq: "join '','' ss @ close # x = join '','' ts @ close # y" and close: "close \<in> set '']}''"
    and start: "\<And>a s. E a s \<Longrightarrow> s \<noteq> [] \<and> hd s \<notin> set '']}''"
  shows "map c as = map c bs \<and> x = y"
proof (cases as)
  case Nil
  then have "ss = []" using as by simp
  show ?thesis
  proof (cases ts)
    case (Cons t ts')
    with bs obtain b where "E b t" by (auto simp: list_all2_Cons2)
    from start[OF this] eq Cons \<open>ss = []\<close> close show ?thesis
      by (cases t) (auto simp: join_tail)
  qed (use Nil eq as bs in auto)
next
  case (Cons a as')
  with as obtain s ss' where ss: "ss = s # ss'" "E a s" "list_all2 E as' ss'"
    by (auto simp: list_all2_Cons1)
  show ?thesis
  proof (cases ts)
    case Nil
    with start[OF ss(2)] eq ss(1) close show ?thesis
      by (cases s) (auto simp: join_tail)
  next
    case ts: (Cons t ts')
    with bs obtain b bs' where bs': "bs = b # bs'" "E b t" "list_all2 E bs' ts'"
      by (auto simp: list_all2_Cons2)
    have "s @ tail_text ss' @ close # x = t @ tail_text ts' @ close # y"
      using eq ss(1) ts by (simp add: join_tail)
    then have "c a = c b \<and> tail_text ss' @ close # x = tail_text ts' @ close # y"
      using Cons by (intro unambiguousD[OF un[of a] ss(2) bs'(2)] delimited_tail close) simp_all
    moreover from this have "map c as' = map c bs' \<and> x = y"
      using Cons ss(3) bs'(3) close un by (intro tail_unambiguous[of as' E c ss' bs' ts' close x y]) auto
    ultimately show ?thesis using Cons bs'(1) by simp
  qed
qed

text \<open>Values with their texts, and items of dicts with theirs.\<close>

definition value_text :: "'z libs_scheme \<Rightarrow> pyval \<Rightarrow> string \<Rightarrow> bool" where
  "value_text L v s \<longleftrightarrow> json_shape v \<and> json_text L v = Inr s"

definition entry_text :: "'z libs_scheme \<Rightarrow> pyval \<times> pyval \<Rightarrow> string \<Rightarrow> bool" where
  "entry_text L p s \<longleftrightarrow> (\<exists>k t. fst p = PyStr k \<and> value_text L (snd p) t \<and> s = json_string k @ '':'' @ t)"

fun lead :: "pyval \<Rightarrow> char \<Rightarrow> bool" where
  "lead PyNone c \<longleftrightarrow> c = CHR ''n''"
| "lead (PyBool b) c \<longleftrightarrow> c = (if b then CHR ''t'' else CHR ''f'')"
| "lead (PyInt i) c \<longleftrightarrow> decimal_digit c \<or> c = CHR ''-''"
| "lead (PyFloat f) c \<longleftrightarrow> decimal_digit c \<or> c = CHR ''-''"
| "lead (PyStr s) c \<longleftrightarrow> c = CHR 0x22"
| "lead (PyDict d) c \<longleftrightarrow> c = CHR ''{''"
| "lead _ c \<longleftrightarrow> c = CHR ''[''"

lemma PyFloat_text:
  assumes "float_repr_documented L" and "value_text L (PyFloat f) s"
  obtains q where "f = Finite q" and "s = float_repr L f" and "s \<noteq> []" and "list_all number_char s"
    and "decimal_digit (hd s) \<or> hd s = CHR ''-''" and "CHR ''.'' \<in> set s \<or> CHR ''e'' \<in> set s"
proof -
  from assms(2) have "finite_float f" and s: "s = float_repr L f"
    by (auto simp: value_text_def float_text_def split: if_splits)
  then obtain q where "f = Finite q" by (cases f) auto
  with assms(1) s show thesis by (intro that) (auto simp: float_repr_documented_def)
qed

lemma value_text_lead:
  assumes "float_repr_documented L" and "value_text L v s"
  shows "s \<noteq> [] \<and> lead v (hd s)"
proof (cases v)
  case (PyFloat f)
  with assms show ?thesis by (auto elim: PyFloat_text)
next
  case (PyInt i)
  with assms show ?thesis using int_str_chars[of i] by (auto simp: value_text_def)
qed (use assms in \<open>auto simp: value_text_def json_string_def bindR_Inr_iff\<close>)

lemma value_text_leads:
  assumes "float_repr_documented L" and "value_text L v s" and "value_text L w t" and "s @ x = t @ y"
  shows "lead v (hd s)" and "lead w (hd s)"
  using value_text_lead[OF assms(1,2)] value_text_lead[OF assms(1,3)] assms(4)
  by (simp, metis hd_append2)

lemma value_text_open: "float_repr_documented L \<Longrightarrow> value_text L v s \<Longrightarrow> s \<noteq> [] \<and> hd s \<notin> set '']}''"
  using value_text_lead[of L v s] by (cases v) (auto simp: decimal_digit_def)

lemma entry_text_open: "entry_text L p s \<Longrightarrow> s \<noteq> [] \<and> hd s \<notin> set '']}''"
  by (auto simp: entry_text_def json_string_def)

lemma entry_unambiguous:
  assumes "unambiguous (value_text L) canonical (snd p)"
  shows "unambiguous (entry_text L) (\<lambda>p. (fst p, canonical (snd p))) p"
  unfolding unambiguous_def
proof (intro allI impI)
  fix q s t x y
  assume "entry_text L p s" "entry_text L q t" and eq: "s @ x = t @ y" and del: "delimited x" "delimited y"
  then obtain k u l w where p: "fst p = PyStr k" "value_text L (snd p) u" "s = json_string k @ '':'' @ u"
    and q: "fst q = PyStr l" "value_text L (snd q) w" "t = json_string l @ '':'' @ w"
    unfolding entry_text_def by blast
  from eq have "json_string k @ '':'' @ u @ x = json_string l @ '':'' @ w @ y" by (simp add: p q)
  then have "k = l" and "u @ x = w @ y" by (auto dest: json_string_prefix)
  with unambiguousD[OF assms p(2) q(2) _ del] p(1) q(1)
  show "(fst p, canonical (snd p)) = (fst q, canonical (snd q)) \<and> x = y" by simp
qed

lemma all_texts:
  "list_all P xs \<and> map f xs = map Inr ts \<longleftrightarrow> list_all2 (\<lambda>x t. P x \<and> f x = Inr t) xs ts"
  by (induction xs arbitrary: ts) (auto simp: list_all2_Cons1 Cons_eq_map_conv)

lemma entry_text_iff:
  "(is_str (fst p) \<and> json_shape (snd p)) \<and> item_text L (fst p, json_text L (snd p)) = Inr t \<longleftrightarrow>
     entry_text L p t"
  by (auto simp: entry_text_def value_text_def item_text_def is_str_iff bindR_Inr_iff)

lemma PyList_text:
  "value_text L (PyList vs) s \<longleftrightarrow>
     (\<exists>ts. list_all2 (value_text L) vs ts \<and> s = ''['' @ join '','' ts @ '']'')"
proof -
  have "json_shape (PyList vs) \<and> map (json_text L) vs = map Inr ts \<longleftrightarrow> list_all2 (value_text L) vs ts" for ts
    by (simp add: all_texts value_text_def[abs_def])
  then show ?thesis by (auto simp: value_text_def bindR_Inr_iff collect_Inr)
qed

lemma PyDict_text:
  "value_text L (PyDict d) s \<longleftrightarrow>
     (\<exists>ts. list_all2 (entry_text L) (by_key d) ts \<and> s = ''{'' @ join '','' ts @ ''}'')"
proof -
  have entries: "list_all (\<lambda>p. is_str (fst p) \<and> json_shape (snd p)) e \<and>
      map (\<lambda>p. item_text L (fst p, json_text L (snd p))) e = map Inr ts \<longleftrightarrow> list_all2 (entry_text L) e ts"
    for e ts
    by (simp only: all_texts entry_text_iff)
  have shape: "json_shape (PyDict d) \<longleftrightarrow> list_all (\<lambda>p. is_str (fst p) \<and> json_shape (snd p)) (by_key d)"
    by (auto simp: list_all_iff)
  have dumped: "json_text L (PyDict d) = Inr s \<longleftrightarrow>
      (\<exists>ts. map (\<lambda>p. item_text L (fst p, json_text L (snd p))) (by_key d) = map Inr ts \<and>
        s = ''{'' @ join '','' ts @ ''}'')"
    if "json_shape (PyDict d)"
  proof -
    have "sort_items (map (\<lambda>p. (fst p, json_text L (snd p))) d) =
        Inr (map (\<lambda>p. (fst p, json_text L (snd p))) (by_key d))"
      using that by (subst sort_items_text) (auto simp: by_key_map list_all_iff)
    then show ?thesis by (simp add: bindR_Inr_iff collect_Inr comp_def) blast
  qed
  show ?thesis
    unfolding value_text_def using dumped shape entries[of "by_key d"] by blast
qed

lemma value_unambiguousI:
  assumes doc: "float_repr_documented L"
    and step: "\<And>w s t x y. value_text L v s \<Longrightarrow> value_text L w t \<Longrightarrow> s @ x = t @ y \<Longrightarrow> delimited x \<Longrightarrow>
      delimited y \<Longrightarrow> lead v (hd s) \<Longrightarrow> lead w (hd s) \<Longrightarrow> canonical v = canonical w \<and> x = y"
  shows "unambiguous (value_text L) canonical v"
  unfolding unambiguous_def
proof (intro allI impI)
  fix w s t x y
  assume v: "value_text L v s" and w: "value_text L w t" and eq: "s @ x = t @ y"
    and del: "delimited x" "delimited y"
  from step[OF v w eq del value_text_leads[OF doc v w eq]]
  show "canonical v = canonical w \<and> x = y" .
qed

definition is_numeric :: "pyval \<Rightarrow> bool" where
  "is_numeric v \<longleftrightarrow> (\<exists>i. v = PyInt i) \<or> (\<exists>f. v = PyFloat f)"

lemma lead_numeric: "decimal_digit c \<or> c = CHR ''-'' \<Longrightarrow> lead w c \<Longrightarrow> is_numeric w"
  by (cases w) (auto simp: is_numeric_def decimal_digit_def split: if_splits)

lemma numeric_text:
  assumes "float_repr_documented L" and "is_numeric v" and "value_text L v s"
  shows "list_all number_char s"
proof (cases v)
  case (PyFloat f)
  then show ?thesis using assms(1,3) by (auto elim: PyFloat_text)
next
  case (PyInt i)
  then have "s = int_str i" using assms(3) by (simp add: value_text_def)
  then show ?thesis by (simp add: int_str_chars(2))
qed (use assms(2) in \<open>simp_all add: is_numeric_def\<close>)

lemma numeric_text_inj:
  assumes doc: "float_repr_documented L" and "is_numeric v" "is_numeric w"
    and v: "value_text L v s" and w: "value_text L w s"
  shows "v = w"
proof -
  have mixed: False if "value_text L (PyInt i) s" "value_text L (PyFloat f) s" for i f
  proof -
    have "s = int_str i" using that(1) by (simp add: value_text_def)
    moreover have "CHR ''.'' \<in> set s \<or> CHR ''e'' \<in> set s" by (rule PyFloat_text[OF doc that(2)])
    ultimately show False using int_str_chars(3,4)[of i] by simp
  qed
  have floats: "f = g" if "value_text L (PyFloat f) s" "value_text L (PyFloat g) s" for f g
  proof -
    note fl = that
    obtain q where "f = Finite q" "s = float_repr L f" by (rule PyFloat_text[OF doc fl(1)])
    moreover obtain r where "g = Finite r" "s = float_repr L g" by (rule PyFloat_text[OF doc fl(2)])
    ultimately show ?thesis using doc unfolding float_repr_documented_def by metis
  qed
  have ints: "i = j" if "value_text L (PyInt i) s" "value_text L (PyInt j) s" for i j
  proof -
    have "int_str i = int_str j" using that by (simp add: value_text_def)
    then show ?thesis by (simp only: int_str_inj)
  qed
  from assms(2,3) v w mixed floats ints show ?thesis by (auto simp: is_numeric_def)
qed

lemma numeric_unambiguous:
  assumes doc: "float_repr_documented L" and v: "is_numeric v"
  shows "unambiguous (value_text L) canonical v"
proof (rule value_unambiguousI[OF doc])
  fix w s t x y
  assume a: "value_text L v s" "value_text L w t" "s @ x = t @ y" "delimited x" "delimited y"
    and l: "lead v (hd s)" "lead w (hd s)"
  have w: "is_numeric w" using v l by (intro lead_numeric[of "hd s"]) (auto simp: is_numeric_def)
  have "s = t \<and> x = y"
    using a numeric_text[OF doc] v w by (intro token_prefix) auto
  then show "canonical v = canonical w \<and> x = y"
    using numeric_text_inj[OF doc v w a(1)] a(2) by simp
qed

lemma json_unambiguous:
  assumes doc: "float_repr_documented L"
  shows "unambiguous (value_text L) canonical v"
proof (induction v)
  case (PyList vs)
  show ?case
  proof (rule value_unambiguousI[OF doc])
    fix w s t x y
    assume v: "value_text L (PyList vs) s" and w: "value_text L w t" and eq: "s @ x = t @ y"
      and "lead w (hd s)"
    moreover from v obtain ss where ss: "list_all2 (value_text L) vs ss" "s = ''['' @ join '','' ss @ '']''"
      by (auto simp: PyList_text)
    ultimately obtain ws where ws: "w = PyList ws"
      by (cases w) (auto simp: value_text_def decimal_digit_def split: if_splits)
    with w obtain ts where ts: "list_all2 (value_text L) ws ts" "t = ''['' @ join '','' ts @ '']''"
      by (auto simp: PyList_text)
    have "map canonical vs = map canonical ws \<and> x = y"
      by (rule join_unambiguous[OF PyList ss(1) ts(1), of "CHR '']''"])
        (use eq ss ts value_text_open[OF doc] in simp_all)
    then show "canonical (PyList vs) = canonical w \<and> x = y" by (simp add: ws)
  qed
next
  case (PyDict d)
  have entries: "unambiguous (entry_text L) (\<lambda>p. (fst p, canonical (snd p))) p" if "p \<in> set (by_key d)" for p
    by (rule entry_unambiguous) (use that in \<open>auto intro!: PyDict(2)[of p] simp: snds.simps\<close>)
  show ?case
  proof (rule value_unambiguousI[OF doc])
    fix w s t x y
    assume v: "value_text L (PyDict d) s" and w: "value_text L w t" and eq: "s @ x = t @ y"
      and "lead w (hd s)"
    moreover from v obtain ss where ss: "list_all2 (entry_text L) (by_key d) ss" "s = ''{'' @ join '','' ss @ ''}''"
      by (auto simp: PyDict_text)
    ultimately obtain e where e: "w = PyDict e"
      by (cases w) (auto simp: value_text_def decimal_digit_def split: if_splits)
    with w obtain ts where ts: "list_all2 (entry_text L) (by_key e) ts" "t = ''{'' @ join '','' ts @ ''}''"
      by (auto simp: PyDict_text)
    have "map (\<lambda>p. (fst p, canonical (snd p))) (by_key d) =
        map (\<lambda>p. (fst p, canonical (snd p))) (by_key e) \<and> x = y"
      by (rule join_unambiguous[OF entries ss(1) ts(1), of "CHR ''}''"])
        (use eq ss ts entry_text_open in simp_all)
    then show "canonical (PyDict d) = canonical w \<and> x = y" by (simp add: e by_key_map)
  qed
next
  case (PyStr k)
  show ?case
  proof (rule value_unambiguousI[OF doc])
    fix w s t x y
    assume v: "value_text L (PyStr k) s" and w: "value_text L w t" and eq: "s @ x = t @ y"
      and lead: "lead (PyStr k) (hd s)" "lead w (hd s)"
    from lead w obtain l where "w = PyStr l"
      by (cases w) (auto simp: value_text_def decimal_digit_def split: if_splits)
    with v w eq json_string_prefix[of k x l y] show "canonical (PyStr k) = canonical w \<and> x = y"
      by (simp add: value_text_def)
  qed
next
  case PyNone
  show ?case
  proof (rule value_unambiguousI[OF doc])
    fix w s t x y
    assume "value_text L PyNone s" "value_text L w t" "s @ x = t @ y" "lead PyNone (hd s)" "lead w (hd s)"
    then show "canonical PyNone = canonical w \<and> x = y"
      by (cases w) (auto simp: value_text_def decimal_digit_def split: if_splits)
  qed
next
  case (PyBool b)
  show ?case
  proof (rule value_unambiguousI[OF doc])
    fix w s t x y
    assume "value_text L (PyBool b) s" "value_text L w t" "s @ x = t @ y" "lead (PyBool b) (hd s)" "lead w (hd s)"
    then show "canonical (PyBool b) = canonical w \<and> x = y"
      by (cases w) (auto simp: value_text_def decimal_digit_def split: if_splits)
  qed
qed (simp_all add: numeric_unambiguous[OF doc] is_numeric_def, simp_all add: unambiguous_def value_text_def)

lemma by_key_by_key [simp]: "by_key (by_key d) = by_key d"
  by (rule sort_key_id_if_sorted) simp

lemma all_by_key: "list_all P (by_key d) \<longleftrightarrow> list_all P d"
  by (simp add: list_all_iff)

lemma json_text_dict:
  assumes "list_all (\<lambda>p. is_str (fst p)) d"
  shows "json_text L (PyDict d) =
    bindR (collect (map (\<lambda>p. item_text L (fst p, json_text L (snd p))) (by_key d))) (\<lambda>ts.
      Inr (''{'' @ join '','' ts @ ''}''))"
proof -
  have "sort_items (map (\<lambda>p. (fst p, json_text L (snd p))) d) =
      Inr (map (\<lambda>p. (fst p, json_text L (snd p))) (by_key d))"
    using assms by (subst sort_items_text) (auto simp: by_key_map list_all_iff)
  then show ?thesis by (simp add: comp_def)
qed

lemma json_text_canonical: "json_shape v \<Longrightarrow> json_text L (canonical v) = json_text L v"
proof (induction v)
  case (PyList vs)
  then have "map (json_text L) (map canonical vs) = map (json_text L) vs" by (simp add: list_all_iff)
  then show ?case by (simp only: canonical.simps json_text.simps)
next
  case (PyDict d)
  have keys: "list_all (\<lambda>p. is_str (fst p)) d" using PyDict.prems by (auto simp: list_all_iff)
  have keys': "list_all (\<lambda>p. is_str (fst p)) (by_key (map (\<lambda>p. (fst p, canonical (snd p))) d))"
    using keys by (simp add: list_all_iff)
  have "map (\<lambda>p. item_text L (fst p, json_text L (snd p))) (by_key (map (\<lambda>p. (fst p, canonical (snd p))) d)) =
      map (\<lambda>p. item_text L (fst p, json_text L (snd p))) (by_key d)"
    unfolding by_key_map using PyDict by (auto simp: list_all_iff snds.simps)
  then show ?case
    unfolding canonical.simps json_text_dict[OF keys'] json_text_dict[OF keys] by_key_by_key by (rule arg_cong)
qed simp_all

lemma json_text_eq_iff:
  assumes "float_repr_documented L" and "value_text L v s" and "value_text L w t"
  shows "s = t \<longleftrightarrow> canonical v = canonical w"
proof
  assume "s = t"
  then show "canonical v = canonical w"
    using unambiguousD[OF json_unambiguous[OF assms(1)] assms(2,3), of "[]" "[]"] by (simp add: delimited_def)
next
  assume "canonical v = canonical w"
  then show "s = t" using assms(2,3) json_text_canonical by (metis Inr_inject value_text_def)
qed

section \<open>Texts are ASCII\<close>

text \<open>So the UTF-8 encoding of a text has one byte per character.\<close>

abbreviation ascii :: "char \<Rightarrow> bool" where
  "ascii c \<equiv> (of_char c :: int) < 128"

lemma ascii_escape_char: "list_all ascii (escape_char c)"
proof -
  have "ascii (hex_digit n)" if "n < 16" for n
    using that by (auto simp: hex_digit_def of_char_int of_char_of)
  moreover have "nat (n div 16) < 16" "nat (n mod 16) < 16" if "0 \<le> n" "n < 256" for n :: int
    using that by auto
  then have "nat (of_char c div 16) < 16" "nat (of_char c mod 16) < 16"
    using nat_of_char_less_256[of c] by (simp_all add: of_char_int)
  ultimately show ?thesis
    by (auto simp: escape_char_def Let_def)
qed

lemma ascii_json_string: "list_all ascii (json_string s)"
  using ascii_escape_char by (auto simp: json_string_def list_all_iff)

lemma ascii_number: "number_char c \<Longrightarrow> ascii c"
  by (auto simp: number_char_def decimal_digit_def Let_def)

lemma ascii_join: "list_all (list_all ascii) ts \<Longrightarrow> list_all ascii (join '','' ts)"
  by (cases ts) (auto simp: join_tail list_all_iff)

lemma all2_all: "list_all2 R xs ts \<Longrightarrow> (\<And>x t. x \<in> set xs \<Longrightarrow> R x t \<Longrightarrow> P t) \<Longrightarrow> list_all P ts"
  by (induction rule: list_all2_induct) auto

lemma ascii_value_text:
  assumes doc: "float_repr_documented L"
  shows "value_text L v s \<Longrightarrow> list_all ascii s"
proof (induction v arbitrary: s)
  case (PyFloat f)
  then show ?case
    by (rule PyFloat_text[OF doc]) (auto simp: list_all_iff intro: ascii_number)
next
  case (PyInt i)
  then have "s = int_str i" by (simp add: value_text_def)
  then show ?case using int_str_chars(2)[of i] by (auto simp: list_all_iff intro: ascii_number)
next
  case (PyList vs)
  then obtain ts where ts: "list_all2 (value_text L) vs ts" "s = ''['' @ join '','' ts @ '']''"
    by (auto simp: PyList_text)
  from ts(1) have "list_all (list_all ascii) ts" by (rule all2_all) (rule PyList.IH)
  then show ?case using ascii_join[of ts] ts(2) by simp
next
  case (PyDict d)
  then obtain ts where ts: "list_all2 (entry_text L) (by_key d) ts" "s = ''{'' @ join '','' ts @ ''}''"
    by (auto simp: PyDict_text)
  have one: "list_all ascii t" if "p \<in> set d" "entry_text L p t" for p t
    using that PyDict.IH(2)[OF that(1), of "snd p"] ascii_json_string by (auto simp: entry_text_def snds.simps)
  from ts(1) have "list_all (list_all ascii) ts"
    by (rule all2_all) (rule one, simp_all)
  then show ?case using ascii_join[of ts] ts(2) by simp
qed (auto simp: value_text_def ascii_json_string split: if_splits)

section \<open>The hypothesis on floats can hold\<close>

lemma split_at_e:
  assumes "CHR ''e'' \<notin> set a" and "CHR ''e'' \<notin> set b" and "a @ CHR ''e'' # x = b @ CHR ''e'' # y"
  shows "a = b \<and> x = y"
proof -
  have "takeWhile (\<lambda>c. c \<noteq> CHR ''e'') (u @ CHR ''e'' # z) = u" if "CHR ''e'' \<notin> set u" for u z
    using that by (induction u) auto
  with assms have "a = b" by metis
  with assms(3) show ?thesis by simp
qed

lemma sample_libs_floats: "float_repr_documented sample_libs"
proof -
  have repr: "float_repr sample_libs (Finite q) =
      int_str (fst (quotient_of q)) @ CHR ''e'' # int_str (snd (quotient_of q))" for q
    by (simp add: sample_libs_def sample_float_repr_def)
  have "q = r" if "float_repr sample_libs (Finite q) = float_repr sample_libs (Finite r)" for q r
  proof -
    from split_at_e[OF int_str_chars(4) int_str_chars(4) that[unfolded repr]]
    have "fst (quotient_of q) = fst (quotient_of r) \<and> snd (quotient_of q) = snd (quotient_of r)"
      by (simp only: int_str_inj)
    then show ?thesis by (metis prod_eq_iff quotient_of_inject)
  qed
  moreover have "number_char CHR ''e''" by (simp add: number_char_def)
  ultimately show ?thesis
    using int_str_chars(1,2,5) by (auto simp: float_repr_documented_def repr hd_append)
qed

end
