(* ===== verification/Sha256.thy ===== *)
theory Sha256
  imports Prelude
begin

unbundle bit_operations_syntax

text \<open>
  The function \<^verbatim>\<open>hashlib.sha256(text.encode("utf-8")).hexdigest()\<close> of the standard library
  that \<^verbatim>\<open>idempotency/keys.py\<close> uses, on text below code point 128 (whose UTF-8 encoding is
  one byte per character): SHA-256 as FIPS 180-4 defines it, on 32-bit words.
\<close>

section \<open>Words\<close>

definition rotr32 :: "nat \<Rightarrow> 32 word \<Rightarrow> 32 word" where
  "rotr32 n x = (drop_bit n x) OR (push_bit (32 - n) x)"

definition small_sigma0 :: "32 word \<Rightarrow> 32 word" where
  "small_sigma0 x = rotr32 7 x XOR rotr32 18 x XOR drop_bit 3 x"

definition small_sigma1 :: "32 word \<Rightarrow> 32 word" where
  "small_sigma1 x = rotr32 17 x XOR rotr32 19 x XOR drop_bit 10 x"

definition big_sigma0 :: "32 word \<Rightarrow> 32 word" where
  "big_sigma0 x = rotr32 2 x XOR rotr32 13 x XOR rotr32 22 x"

definition big_sigma1 :: "32 word \<Rightarrow> 32 word" where
  "big_sigma1 x = rotr32 6 x XOR rotr32 11 x XOR rotr32 25 x"

definition choose_bits :: "32 word \<Rightarrow> 32 word \<Rightarrow> 32 word \<Rightarrow> 32 word" where
  "choose_bits e f g = (e AND f) XOR ((NOT e) AND g)"

definition majority_bits :: "32 word \<Rightarrow> 32 word \<Rightarrow> 32 word \<Rightarrow> 32 word" where
  "majority_bits a b c = (a AND b) XOR (a AND c) XOR (b AND c)"

text \<open>
  The constants are the first 32 bits of the fractional parts of the square roots of the
  first 8 primes and of the cube roots of the first 64 primes. \<open>root_bits k n b r\<close> extends
  the \<open>k\<close>-th root of \<open>n\<close> found so far by its \<open>b\<close> remaining bits; 37 bits hold the integer part
  of a root of a prime below \<open>2^10\<close> and 32 more.
\<close>

fun root_bits :: "nat \<Rightarrow> int \<Rightarrow> nat \<Rightarrow> int \<Rightarrow> int" where
  "root_bits k n 0 r = r"
| "root_bits k n (Suc b) r = root_bits k n b (if (r + 2 ^ b) ^ k \<le> n then r + 2 ^ b else r)"

definition root_fraction :: "nat \<Rightarrow> int \<Rightarrow> 32 word" where
  "root_fraction k p = word_of_int (root_bits k (p * 2 ^ (32 * k)) 37 0)"

definition small_primes :: "int list" where
  "small_primes = filter (\<lambda>p. list_all (\<lambda>d. p mod d \<noteq> 0) [2..p - 1]) [2..311]"

definition round_constants :: "32 word list" where
  "round_constants = map (root_fraction 3) small_primes"

definition initial_hash :: "32 word list" where
  "initial_hash = map (root_fraction 2) [2, 3, 5, 7, 11, 13, 17, 19]"

text \<open>\<open>root_bits\<close> finds the integer root, provided the root is below \<open>2^b\<close>.\<close>

lemma root_bits_correct:
  assumes "r ^ k \<le> n" and "n < (r + 2 ^ b) ^ k"
  shows "root_bits k n b r ^ k \<le> n \<and> n < (root_bits k n b r + 1) ^ k"
  using assms
proof (induction b arbitrary: r)
  case (Suc b)
  have "r + 2 ^ Suc b = r + 2 ^ b + 2 ^ b" by simp
  with Suc.prems(2) have up: "n < (r + 2 ^ b + 2 ^ b) ^ k" by metis
  show ?case
  proof (cases "(r + 2 ^ b) ^ k \<le> n")
    case True
    then show ?thesis using Suc.IH[OF True up] by simp
  next
    case False
    then show ?thesis using Suc.IH[OF Suc.prems(1)] by simp
  qed
qed simp

section \<open>Padding and blocks\<close>

definition length_bytes :: "nat \<Rightarrow> int list" where
  "length_bytes n = map (\<lambda>i. (8 * int n) div 256 ^ i mod 256) (rev [0..<8])"

definition pad_message :: "int list \<Rightarrow> int list" where
  "pad_message m = m @ [0x80] @ replicate ((119 - length m mod 64) mod 64) 0 @ length_bytes (length m)"

fun words_of :: "int list \<Rightarrow> 32 word list" where
  "words_of (a # b # c # d # rest) =
     word_of_int (((a * 256 + b) * 256 + c) * 256 + d) # words_of rest"
| "words_of _ = []"

fun chunks :: "nat \<Rightarrow> 32 word list \<Rightarrow> 32 word list list" where
  "chunks 0 ws = []"
| "chunks (Suc n) ws = take 16 ws # chunks n (drop 16 ws)"

text \<open>The message schedule, newest word first.\<close>

fun schedule :: "nat \<Rightarrow> 32 word list \<Rightarrow> 32 word list" where
  "schedule 0 ws = ws"
| "schedule (Suc n) ws =
     schedule n ((small_sigma1 (ws ! 1) + ws ! 6 + small_sigma0 (ws ! 14) + ws ! 15) # ws)"

section \<open>Compression\<close>

fun sha_round :: "32 word list \<Rightarrow> 32 word \<times> 32 word \<Rightarrow> 32 word list" where
  "sha_round [a, b, c, d, e, f, g, h] (k, w) =
     (let t1 = h + big_sigma1 e + choose_bits e f g + k + w;
          t2 = big_sigma0 a + majority_bits a b c
      in [t1 + t2, a, b, c, d + t1, e, f, g])"
| "sha_round st _ = st"

definition compress :: "32 word list \<Rightarrow> 32 word list \<Rightarrow> 32 word list" where
  "compress hash block =
     map2 (+) hash (foldl sha_round hash (zip round_constants (rev (schedule 48 (rev block)))))"

definition sha256 :: "int list \<Rightarrow> 32 word list" where
  "sha256 m = (let p = pad_message m in
     foldl compress initial_hash (chunks (length p div 64) (words_of p)))"

definition word_hex :: "32 word \<Rightarrow> string" where
  "word_hex w = map (\<lambda>i. hex_digit (nat (uint w div 16 ^ i mod 16))) (rev [0..<8])"

definition sha256_hexdigest :: "string \<Rightarrow> string" where
  "sha256_hexdigest text_bytes = concat (map word_hex (sha256 (map (\<lambda>c. of_char c :: int) text_bytes)))"

section \<open>The digest has 64 hexadecimal digits\<close>

lemma length_sha_round [simp]: "length (sha_round st kw) = length st"
  by (cases "(st, kw)" rule: sha_round.cases) (auto simp: Let_def)

lemma length_foldl_round [simp]: "length (foldl sha_round st kws) = length st"
  by (induction kws arbitrary: st) simp_all

lemma length_compress [simp]: "length (compress hash block) = length hash"
  by (simp add: compress_def)

lemma length_sha256 [simp]: "length (sha256 m) = 8"
proof -
  have "length (foldl compress hash bs) = length hash" for hash bs
    by (induction bs arbitrary: hash) simp_all
  then show ?thesis by (simp add: sha256_def Let_def initial_hash_def)
qed

lemma length_word_hex [simp]: "length (word_hex w) = 8"
  by (simp add: word_hex_def)

lemma length_sha256_hexdigest [simp]: "length (sha256_hexdigest t) = 64"
proof -
  have "length (concat (map word_hex ws)) = 8 * length ws" for ws
    by (induction ws) simp_all
  then show ?thesis by (simp add: sha256_hexdigest_def)
qed

text \<open>The message is padded to whole blocks.\<close>

lemma length_length_bytes [simp]: "length (length_bytes n) = 8"
  by (simp add: length_bytes_def)

lemma pad_message_blocks: "64 dvd length (pad_message m)"
proof -
  let ?r = "length m mod 64"
  have gen: "(n + x mod 64 + 9) mod 64 = (n mod 64 + x + 9) mod 64" for n x :: nat
    using mod_add_left_eq[of "n + x mod 64" 64 9] mod_add_left_eq[of "n mod 64 + x" 64 9]
      mod_add_right_eq[of n x 64] mod_add_left_eq[of n 64 x] by metis
  have "?r \<le> 119" by (rule order_trans[of _ 63]) (simp_all add: less_Suc_eq_le[symmetric])
  have "(length m + (119 - ?r) mod 64 + 9) mod 64 = (?r + (119 - ?r) + 9) mod 64"
    by (rule gen)
  also have "\<dots> = 0" using \<open>?r \<le> 119\<close> by simp
  finally have "64 dvd length m + (119 - ?r) mod 64 + 9" by (simp only: dvd_eq_mod_eq_0)
  moreover have "length (pad_message m) = length m + (119 - ?r) mod 64 + 9" by (simp add: pad_message_def)
  ultimately show ?thesis by simp
qed

end
