(* ===== verification/Idempotency_Keys.thy ===== *)
theory Idempotency_Keys
  imports Json_Text Sha256
begin

text \<open>
  Deterministic idempotency keys (\<^verbatim>\<open>idempotency/keys.py\<close>): the checks of the key material,
  the selection of the named arguments, the canonical text and its digest. The theorems say
  when a key is returned, what it depends on, what it identifies, and that the store of keys
  accepts it as it is.
\<close>

section \<open>The code\<close>

definition KEY_PREFIX :: string where
  "KEY_PREFIX = ''agentactum:v1''"

definition validate_key_material :: "string \<Rightarrow> string list \<Rightarrow> unit result" where
  "validate_key_material tool_name selected =
     (if py_strip tool_name = [] then Inl (IdempotencyKeyError ''tool_name must not be blank'')
      else if selected = [] then Inl (IdempotencyKeyError ''fields must not be empty'')
      else if \<not> distinct selected then Inl (IdempotencyKeyError ''fields must not contain duplicates'')
      else if list_ex (\<lambda>f. py_strip f = []) selected then
        Inl (IdempotencyKeyError ''fields must not contain blank names'')
      else Inr ())"

text \<open>\<^verbatim>\<open>for field in selected_fields\<close>, with the dict it fills.\<close>

fun select_arguments :: "json_object \<Rightarrow> string list \<Rightarrow> json_object \<Rightarrow> json_object result" where
  "select_arguments arguments [] selected = Inr selected"
| "select_arguments arguments (f # fs) selected =
     (case dict_get arguments f of
        None \<Rightarrow> Inl (MissingIdempotencyFieldError f)
      | Some v \<Rightarrow> select_arguments arguments fs (dict_set (PyStr f) v selected))"

definition key_material :: "string \<Rightarrow> string list \<Rightarrow> json_object \<Rightarrow> pyval" where
  "key_material tool_name selected_fields selected_arguments =
     PyDict [(PyStr ''fields'', PyTuple (map PyStr selected_fields)),
             (PyStr ''tool_name'', PyStr tool_name),
             (PyStr ''values'', PyDict selected_arguments),
             (PyStr ''version'', PyInt 1)]"

definition canonical_text :: "'z libs_scheme \<Rightarrow> string \<Rightarrow> json_object \<Rightarrow> string list \<Rightarrow> string result" where
  "canonical_text L tool_name arguments selected_fields =
     bindR (validate_key_material tool_name selected_fields) (\<lambda>_.
     bindR (select_arguments arguments selected_fields []) (\<lambda>selected_arguments.
     json_text L (key_material tool_name selected_fields selected_arguments)))"

definition create_key :: "'z libs_scheme \<Rightarrow> string \<Rightarrow> json_object \<Rightarrow> string list \<Rightarrow> string result" where
  "create_key L tool_name arguments selected_fields =
     bindR (canonical_text L tool_name arguments selected_fields) (\<lambda>canonical.
     Inr (KEY_PREFIX @ '':'' @ tool_name @ '':'' @ sha256_hexdigest canonical))"

section \<open>The selected arguments\<close>

definition selection :: "json_object \<Rightarrow> string list \<Rightarrow> json_object" where
  "selection arguments fs = map (\<lambda>f. (PyStr f, the (dict_get arguments f))) fs"

lemma select_arguments_run:
  assumes "distinct fs" and "\<And>f. f \<in> set fs \<Longrightarrow> dict_get selected f = None"
  shows "select_arguments arguments fs selected =
    (case find (\<lambda>f. dict_get arguments f = None) fs of
       Some f \<Rightarrow> Inl (MissingIdempotencyFieldError f) | None \<Rightarrow> Inr (selected @ selection arguments fs))"
  using assms
proof (induction fs arbitrary: selected)
  case (Cons f fs)
  show ?case
  proof (cases "dict_get arguments f")
    case (Some v)
    have "map_of selected (PyStr f) = None" using Cons.prems(2)[of f] by (simp add: dict_get_def)
    then have "dict_set (PyStr f) v selected = selected @ [(PyStr f, v)]" by (rule dict_set_fresh)
    moreover have "select_arguments arguments fs (selected @ [(PyStr f, v)]) =
        (case find (\<lambda>f. dict_get arguments f = None) fs of
           Some f \<Rightarrow> Inl (MissingIdempotencyFieldError f)
         | None \<Rightarrow> Inr ((selected @ [(PyStr f, v)]) @ selection arguments fs))"
      using Cons.prems by (intro Cons.IH) (auto simp: dict_get_def map_add_def)
    ultimately show ?thesis using Some by (simp add: selection_def split: option.split)
  qed simp
qed (simp add: selection_def)

definition well_named :: "string \<Rightarrow> string list \<Rightarrow> bool" where
  "well_named tool fs \<longleftrightarrow> py_strip tool \<noteq> [] \<and> fs \<noteq> [] \<and> distinct fs \<and> (\<forall>f \<in> set fs. py_strip f \<noteq> [])"

lemma validate_key_material_iff: "validate_key_material tool fs = Inr () \<longleftrightarrow> well_named tool fs"
  by (auto simp: validate_key_material_def well_named_def list_ex_iff)

lemma canonical_text_iff:
  "canonical_text L tool a fs = Inr s \<longleftrightarrow>
     well_named tool fs \<and> (\<forall>f \<in> set fs. dict_get a f \<noteq> None) \<and>
     json_text L (key_material tool fs (selection a fs)) = Inr s"
proof (cases "well_named tool fs")
  case True
  then have "select_arguments a fs [] = (case find (\<lambda>f. dict_get a f = None) fs of
      Some f \<Rightarrow> Inl (MissingIdempotencyFieldError f) | None \<Rightarrow> Inr (selection a fs))"
    by (subst select_arguments_run) (simp_all add: well_named_def dict_get_def split: option.split)
  with True show ?thesis
    unfolding canonical_text_def
    by (auto simp: validate_key_material_iff[THEN iffD2] bindR_Inr_iff find_None_iff find_Some_iff
        split: option.splits)
next
  case False
  then show ?thesis
    using validate_key_material_iff[of tool fs] by (auto simp: canonical_text_def bindR_Inr_iff)
qed

lemma selection_cong: "(\<forall>f \<in> set fs. dict_get a f = dict_get b f) \<Longrightarrow> selection a fs = selection b fs"
  by (simp add: selection_def)

section \<open>The canonical text\<close>

text \<open>The text of the material, in which the tuple of the fields reads as a list.\<close>

definition material_view :: "string \<Rightarrow> string list \<Rightarrow> json_object \<Rightarrow> pyval" where
  "material_view tool fs sel =
     PyDict [(PyStr ''fields'', PyList (map PyStr fs)), (PyStr ''tool_name'', PyStr tool),
             (PyStr ''values'', PyDict sel), (PyStr ''version'', PyInt 1)]"

lemma material_text: "json_text L (key_material tool fs sel) = json_text L (material_view tool fs sel)"
  by (simp add: key_material_def material_view_def)

lemma selection_shape:
  assumes "json_shape (PyDict a)" and "\<forall>f \<in> set fs. dict_get a f \<noteq> None"
  shows "json_shape (PyDict (selection a fs))"
proof -
  have "json_shape (the (dict_get a f))" if "f \<in> set fs" for f
    using assms that by (fastforce simp: dict_get_def list_all_iff dest: map_of_SomeD)
  then show ?thesis by (simp add: selection_def list_all_iff)
qed

lemma material_shape:
  assumes "json_shape (PyDict a)" and "\<forall>f \<in> set fs. dict_get a f \<noteq> None"
  shows "json_shape (material_view tool fs (selection a fs))"
  using selection_shape[OF assms] by (simp add: material_view_def list_all_iff)

lemma selection_dumps: "json_dumps_ok (PyDict (selection a fs)) \<longleftrightarrow> (\<forall>f \<in> set fs. json_dumps_ok (the (dict_get a f)))"
  by (simp add: selection_def list_all_iff)

lemma canonical_value_text:
  assumes "json_shape (PyDict a)" and "canonical_text L tool a fs = Inr s"
  shows "value_text L (material_view tool fs (selection a fs)) s"
  using assms material_shape[OF assms(1)]
  by (auto simp: value_text_def canonical_text_iff material_text)

lemma canonical_text_total:
  assumes "json_shape (PyDict a)" and "well_named tool fs" and "\<forall>f \<in> set fs. dict_get a f \<noteq> None"
  shows "(\<exists>s. canonical_text L tool a fs = Inr s) \<longleftrightarrow> (\<forall>f \<in> set fs. json_dumps_ok (the (dict_get a f)))"
proof -
  have "(\<exists>s. json_text L (material_view tool fs (selection a fs)) = Inr s) \<longleftrightarrow>
      json_dumps_ok (material_view tool fs (selection a fs))"
    using assms by (intro json_text_ok material_shape)
  also have "\<dots> \<longleftrightarrow> json_dumps_ok (PyDict (selection a fs))"
    by (simp add: material_view_def list_all_iff)
  finally have "(\<exists>s. json_text L (material_view tool fs (selection a fs)) = Inr s) \<longleftrightarrow>
      (\<forall>f \<in> set fs. json_dumps_ok (the (dict_get a f)))"
    unfolding selection_dumps .
  then show ?thesis using assms by (simp add: canonical_text_iff material_text)
qed

lemma create_key_Inr:
  "create_key L tool a fs = Inr k \<longleftrightarrow>
     (\<exists>s. canonical_text L tool a fs = Inr s \<and> k = KEY_PREFIX @ '':'' @ tool @ '':'' @ sha256_hexdigest s)"
  by (auto simp: create_key_def bindR_Inr_iff)

text \<open>The key determines the tool and the digest: the digest is its last 64 characters.\<close>

lemma key_parts:
  "KEY_PREFIX @ '':'' @ tool @ '':'' @ sha256_hexdigest s =
     KEY_PREFIX @ '':'' @ tool' @ '':'' @ sha256_hexdigest s' \<longleftrightarrow>
   tool = tool' \<and> sha256_hexdigest s = sha256_hexdigest s'"
  by auto

lemma map_of_by_key:
  assumes "distinct (map fst d)"
  shows "map_of (by_key d) = map_of d"
proof -
  have "distinct (map fst (by_key d))"
    using assms by (simp add: distinct_map)
  then have some: "map_of (by_key d) k = Some v \<longleftrightarrow> map_of d k = Some v" for k v
    using assms by (simp only: map_of_eq_Some_iff set_sort)
  show ?thesis
  proof
    fix k
    show "map_of (by_key d) k = map_of d k"
      using some[of k] by (cases "map_of d k") auto
  qed
qed

lemma by_key_eq:
  assumes "by_key d = by_key e" and "distinct (map fst d)" and "distinct (map fst e)"
  shows "map_of d = map_of e"
  using map_of_by_key assms by metis

lemma canonical_selection_eq:
  assumes "distinct fs"
  shows "canonical (PyDict (selection a fs)) = canonical (PyDict (selection b fs)) \<longleftrightarrow>
    (\<forall>f \<in> set fs. canonical (the (dict_get a f)) = canonical (the (dict_get b f)))"
proof -
  define view where "view = (\<lambda>a. map (\<lambda>f. (PyStr f, canonical (the (dict_get a f)))) fs)"
  have view: "map (\<lambda>p. (fst p, canonical (snd p))) (selection a fs) = view a" for a
    by (simp add: view_def selection_def comp_def)
  have dist: "distinct (map fst (view a))" for a
    using assms by (simp add: view_def comp_def distinct_map inj_on_def)
  have get: "map_of (view a) (PyStr f) = Some (canonical (the (dict_get a f)))" if "f \<in> set fs" for a f
    using dist[of a] that by (auto simp: map_of_eq_Some_iff view_def)
  show ?thesis
  proof
    assume "canonical (PyDict (selection a fs)) = canonical (PyDict (selection b fs))"
    then have "map_of (view a) = map_of (view b)" by (intro by_key_eq dist) (simp add: view)
    then show "\<forall>f \<in> set fs. canonical (the (dict_get a f)) = canonical (the (dict_get b f))"
      using get by (metis option.inject)
  next
    assume "\<forall>f \<in> set fs. canonical (the (dict_get a f)) = canonical (the (dict_get b f))"
    then have "view a = view b" by (simp add: view_def)
    then show "canonical (PyDict (selection a fs)) = canonical (PyDict (selection b fs))" by (simp add: view)
  qed
qed

lemma canonical_material_eq:
  "canonical (material_view tool fs sel) = canonical (material_view tool' gs sel') \<longleftrightarrow>
     tool = tool' \<and> fs = gs \<and> canonical (PyDict sel) = canonical (PyDict sel')"
proof -
  define view where "view = (\<lambda>tool fs sel. [(PyStr ''fields'', PyList (map PyStr fs)),
    (PyStr ''tool_name'', PyStr tool), (PyStr ''values'', canonical (PyDict sel)), (PyStr ''version'', PyInt 1)])"
  have view: "canonical (material_view tool fs sel) = PyDict (by_key (view tool fs sel))" for tool fs sel
    by (simp add: material_view_def view_def comp_def del: sort_key_simps)
  have dist: "distinct (map fst (view tool fs sel))" for tool fs sel by (simp add: view_def)
  have names: "map PyStr fs = map PyStr gs \<longleftrightarrow> fs = gs"
    by (rule inj_map_eq_map) (simp add: inj_def)
  show ?thesis
  proof
    assume "canonical (material_view tool fs sel) = canonical (material_view tool' gs sel')"
    then have "map_of (view tool fs sel) = map_of (view tool' gs sel')"
      unfolding view by (intro by_key_eq dist) simp
    then have "map_of (view tool fs sel) (PyStr k) = map_of (view tool' gs sel') (PyStr k)" for k by simp
    from this[of "''fields''"] this[of "''tool_name''"] this[of "''values''"]
    show "tool = tool' \<and> fs = gs \<and> canonical (PyDict sel) = canonical (PyDict sel')"
      by (simp add: view_def names)
  next
    assume "tool = tool' \<and> fs = gs \<and> canonical (PyDict sel) = canonical (PyDict sel')"
    then show "canonical (material_view tool fs sel) = canonical (material_view tool' gs sel')"
      unfolding view by (simp only: view_def)
  qed
qed

lemma canonical_text_eq_iff:
  assumes "float_repr_documented L" and "json_shape (PyDict a)" and "json_shape (PyDict b)"
    and s: "canonical_text L tool a fs = Inr s" and t: "canonical_text L tool' b gs = Inr t"
  shows "s = t \<longleftrightarrow> tool = tool' \<and> fs = gs \<and>
    (\<forall>f \<in> set fs. canonical (the (dict_get a f)) = canonical (the (dict_get b f)))"
proof -
  have "distinct fs" using s by (simp add: canonical_text_iff well_named_def)
  have "s = t \<longleftrightarrow> canonical (material_view tool fs (selection a fs)) =
      canonical (material_view tool' gs (selection b gs))"
    using assms by (intro json_text_eq_iff canonical_value_text)
  also have "\<dots> \<longleftrightarrow> tool = tool' \<and> fs = gs \<and>
      (\<forall>f \<in> set fs. canonical (the (dict_get a f)) = canonical (the (dict_get b f)))"
    using canonical_selection_eq[OF \<open>distinct fs\<close>, of a b] by (auto simp only: canonical_material_eq)
  finally show ?thesis .
qed

lemma create_key_cong:
  assumes "\<And>f. f \<in> set fs \<Longrightarrow> dict_get a f = dict_get b f"
  shows "create_key L tool a fs = create_key L tool b fs"
proof -
  have "select_arguments a gs sel = select_arguments b gs sel" if "set gs \<subseteq> set fs" for gs sel
    using that by (induction gs arbitrary: sel) (simp_all add: assms split: option.split)
  then have "canonical_text L tool a fs = canonical_text L tool b fs"
    by (simp add: canonical_text_def)
  then show ?thesis by (simp add: create_key_def)
qed

section \<open>The properties\<close>

text \<open>
  C16: A key identifies the logical action. Two keys that \<^verbatim>\<open>create_key\<close> returns for JSON
  arguments are equal exactly when the tools are the same, the named fields are the same in
  the same order, and the arguments in these fields are equal as JSON values (objects up to
  the order of their items); provided SHA-256 does not collide on the two canonical texts.
  No two different materials share a canonical text.
\<close>

theorem key_identifies_action:
  assumes "float_repr_documented L" and "json_shape (PyDict a)" and "json_shape (PyDict b)"
    and "create_key L tool a fs = Inr k" and "create_key L tool' b gs = Inr k'"
    and "\<And>s t. canonical_text L tool a fs = Inr s \<Longrightarrow> canonical_text L tool' b gs = Inr t \<Longrightarrow>
      sha256_hexdigest s = sha256_hexdigest t \<Longrightarrow> s = t"
  shows "k = k' \<longleftrightarrow> tool = tool' \<and> fs = gs \<and>
    (\<forall>f \<in> set fs. canonical (the (dict_get a f)) = canonical (the (dict_get b f)))"
proof -
  obtain s where s: "canonical_text L tool a fs = Inr s"
    and k: "k = KEY_PREFIX @ '':'' @ tool @ '':'' @ sha256_hexdigest s"
    using assms(4) by (auto simp: create_key_Inr)
  obtain t where t: "canonical_text L tool' b gs = Inr t"
    and k': "k' = KEY_PREFIX @ '':'' @ tool' @ '':'' @ sha256_hexdigest t"
    using assms(5) by (auto simp: create_key_Inr)
  have "k = k' \<longleftrightarrow> tool = tool' \<and> s = t"
    unfolding k k' key_parts using assms(6)[OF s t] by auto
  then show ?thesis using canonical_text_eq_iff[OF assms(1-3) s t] by auto
qed

definition sample_arguments :: json_object where
  "sample_arguments = [(PyStr ''order'', PyStr ''A-1''), (PyStr ''amount'', PyInt 5), (PyStr ''trace'', PyInt 1)]"

definition sample_retry :: json_object where
  "sample_retry = [(PyStr ''trace'', PyInt 2), (PyStr ''amount'', PyInt 5), (PyStr ''order'', PyStr ''A-1'')]"

lemmas sample_key_defs = sample_arguments_def sample_retry_def dict_get_def

lemma sample_fields_named: "well_named ''refund'' [''order'', ''amount'']"
  by (auto simp: well_named_def py_strip_def strip_by_def py_isspace_def Let_def)

lemma sample_key_texts:
  "\<exists>s. canonical_text sample_libs ''refund'' sample_arguments [''order'', ''amount''] = Inr s"
  "\<exists>s. canonical_text sample_libs ''refund'' sample_retry [''order'', ''amount''] = Inr s"
  by (subst canonical_text_total, simp_all add: sample_fields_named, simp_all add: sample_key_defs)+

theorem key_identifies_action_witness:
  "\<exists>k. create_key sample_libs ''refund'' sample_arguments [''order'', ''amount''] = Inr k \<and>
     create_key sample_libs ''refund'' sample_retry [''order'', ''amount''] = Inr k"
proof -
  let ?fs = "[''order'', ''amount'']"
  have shape: "json_shape (PyDict sample_arguments)" "json_shape (PyDict sample_retry)"
    by (simp_all add: sample_key_defs)
  obtain s t where s: "canonical_text sample_libs ''refund'' sample_arguments ?fs = Inr s"
    and t: "canonical_text sample_libs ''refund'' sample_retry ?fs = Inr t"
    using sample_key_texts by blast
  have same: "\<forall>f \<in> set ?fs. canonical (the (dict_get sample_arguments f)) = canonical (the (dict_get sample_retry f))"
    by (simp add: sample_key_defs)
  have "s = t" using canonical_text_eq_iff[OF sample_libs_floats shape s t] same by simp
  obtain k k' where k: "create_key sample_libs ''refund'' sample_arguments ?fs = Inr k"
    and k': "create_key sample_libs ''refund'' sample_retry ?fs = Inr k'"
    using s t by (simp add: create_key_def)
  have "k = k'"
    using key_identifies_action[OF sample_libs_floats shape k k'] s t \<open>s = t\<close> same by simp
  with k k' show ?thesis by blast
qed

text \<open>
  Only the named fields count. Arguments that agree on the fields named in \<^verbatim>\<open>fields\<close>
  have the same outcome, key or exception, whatever other arguments are present, absent or
  different.
\<close>

theorem key_of_named_fields:
  assumes "\<And>f. f \<in> set fs \<Longrightarrow> dict_get a f = dict_get b f"
  shows "create_key L tool a fs = create_key L tool b fs"
  using assms by (rule create_key_cong)

theorem key_of_named_fields_witness:
  "create_key sample_libs ''refund'' sample_arguments [''order'', ''amount''] =
   create_key sample_libs ''refund'' sample_retry [''order'', ''amount'']"
  by (rule key_of_named_fields) (auto simp: sample_key_defs)

text \<open>
  When a key is returned. For JSON arguments \<^verbatim>\<open>create_key\<close> returns a key exactly when the
  tool name and the field names are not blank, there is at least one field, none is named
  twice, every named field is an argument, and no selected argument holds a NaN or an
  infinity.
\<close>

theorem key_returned_iff:
  assumes "json_shape (PyDict a)"
  shows "(\<exists>k. create_key L tool a fs = Inr k) \<longleftrightarrow>
    py_strip tool \<noteq> [] \<and> fs \<noteq> [] \<and> distinct fs \<and> list_all (\<lambda>f. py_strip f \<noteq> []) fs \<and>
    list_all (\<lambda>f. dict_has a f \<and> json_dumps_ok (the (dict_get a f))) fs"
proof -
  have "(\<exists>k. create_key L tool a fs = Inr k) \<longleftrightarrow> (\<exists>s. canonical_text L tool a fs = Inr s)"
    by (auto simp: create_key_Inr)
  also have "\<dots> \<longleftrightarrow> well_named tool fs \<and> (\<forall>f \<in> set fs. dict_get a f \<noteq> None) \<and>
      (\<forall>f \<in> set fs. json_dumps_ok (the (dict_get a f)))"
    using canonical_text_total[OF assms] canonical_text_iff by blast
  finally show ?thesis by (auto simp: well_named_def list_all_iff dict_has_iff)
qed

theorem key_returned_iff_witness:
  "(\<exists>k. create_key sample_libs ''refund'' sample_arguments [''order'', ''amount''] = Inr k) \<and>
   \<not> (\<exists>k. create_key sample_libs ''refund'' sample_arguments [''order'', ''customer''] = Inr k)"
proof -
  have shape: "json_shape (PyDict sample_arguments)" by (simp add: sample_key_defs)
  show ?thesis
    using sample_fields_named
    by (simp add: key_returned_iff[OF shape] well_named_def dict_has_iff, simp add: sample_key_defs)
qed

lemma key_length: "create_key L tool a fs = Inr k \<Longrightarrow> length k = length tool + 79"
  by (auto simp: create_key_Inr KEY_PREFIX_def)

lemma word_hex_plain: "c \<in> set (word_hex w) \<Longrightarrow> \<not> white_space c"
  by (auto simp: word_hex_def intro!: hex_digit_plain)

lemma digest_plain: "c \<in> set (sha256_hexdigest s) \<Longrightarrow> \<not> white_space c"
  by (auto simp: sha256_hexdigest_def dest: word_hex_plain)

lemma key_short_text:
  assumes "pydantic_documented L" and "DomainName L tool = Some tool" and "create_key L tool a fs = Inr k"
  shows "ShortText L k = Some k \<and> length k \<le> 207"
proof -
  have len: "length tool \<le> 128"
    using assms(1,2) by (auto simp: documented_text strip_bounded_Some split: option.splits if_splits)
  obtain s where k: "k = KEY_PREFIX @ '':'' @ tool @ '':'' @ sha256_hexdigest s"
    using assms(3) by (auto simp: create_key_Inr)
  have ne: "sha256_hexdigest s \<noteq> []" by (metis length_0_conv length_sha256_hexdigest zero_neq_numeral)
  then have "last k \<in> set (sha256_hexdigest s)" by (simp add: k)
  then have "\<not> white_space (last k)" by (rule digest_plain)
  moreover have "\<not> white_space (hd k)" by (simp add: k KEY_PREFIX_def white_space_def)
  ultimately have "ShortText L k = Some k"
    using key_length[OF assms(3)] len by (intro ShortText_plain[OF assms(1)]) (auto simp: k)
  then show ?thesis using key_length[OF assms(3)] len by simp
qed

text \<open>
  C32: The store accepts the keys as they are. The key of a tool whose name is a domain name
  has at most 207 characters and no white space at its ends, so that the \<^verbatim>\<open>key\<close> field of an
  action and of an idempotency record hold it unchanged.
\<close>

theorem key_is_short_text:
  assumes "pydantic_documented L" and "DomainName L tool = Some tool" and "create_key L tool a fs = Inr k"
  shows "ShortText L k = Some k \<and> length k \<le> 207"
  using assms by (rule key_short_text)

theorem key_is_short_text_witness:
  "\<exists>k. create_key sample_libs ''refund'' sample_arguments [''order'', ''amount''] = Inr k \<and>
     ShortText sample_libs k = Some k"
proof -
  have name: "DomainName sample_libs ''refund'' = Some ''refund''"
    by (rule DomainName_plain[OF sample_libs_documented])
      (simp_all add: domain_name_form_def lower_alpha_def)
  obtain k where k: "create_key sample_libs ''refund'' sample_arguments [''order'', ''amount''] = Inr k"
    using sample_key_texts(1) by (auto simp: create_key_def)
  with key_is_short_text[OF sample_libs_documented name k] show ?thesis by simp
qed

end
