(* ===== verification/Facade.thy ===== *)
theory Facade
  imports Argument_Binding Idempotency_Keys Runtime
begin

text \<open>
  The facade (\<^verbatim>\<open>facade.py\<close>) and the LangGraph adapter over it (\<^verbatim>\<open>langgraph.py\<close>). The
  registry of an \<^verbatim>\<open>AgentActum\<close> object changes only when a function is protected, so an object
  is the state of \<open>protect\<close> and a value for the calls of the wrappers it returns; the other
  services are as in the runtime. The wrapper is \<open>call_protected\<close> on what it closes over.
\<close>

section \<open>The facade\<close>

record 'e agent_actum =
  ac_registry :: "'e tool_registry"
  ac_policy_engine :: "'e policy list"
  ac_idempotency_backend :: "'e idempotency_backend"
  ac_ledger :: "'e ledger"
  ac_approval_checker :: "'e approval_checker option"
  ac_preconditions :: "'e runtime_check list"
  ac_postconditions :: "'e runtime_check list"
  ac_clock :: clock

definition AgentActum ::
  "clock \<Rightarrow> 'e policy list option \<Rightarrow> 'e tool_registry option \<Rightarrow> 'e idempotency_backend option \<Rightarrow>
   'e ledger option \<Rightarrow> 'e approval_checker option \<Rightarrow> 'e runtime_check list \<Rightarrow> 'e runtime_check list \<Rightarrow>
   clock option \<Rightarrow> 'e agent_actum" where
  "AgentActum utc policy_engine registry idempotency_backend ledger approval_checker
     preconditions postconditions clk =
     \<lparr>ac_registry = (case registry of None \<Rightarrow> \<lparr>registrations = []\<rparr> | Some r \<Rightarrow> r),
      ac_policy_engine = (case policy_engine of None \<Rightarrow> [] | Some p \<Rightarrow> p),
      ac_idempotency_backend = (case idempotency_backend of
        None \<Rightarrow> InMemoryIdempotencyBackend utc | Some b \<Rightarrow> b),
      ac_ledger = (case ledger of None \<Rightarrow> InMemoryLedger utc | Some l \<Rightarrow> l),
      ac_approval_checker = approval_checker,
      ac_preconditions = preconditions, ac_postconditions = postconditions,
      ac_clock = (case clk of None \<Rightarrow> utc | Some c \<Rightarrow> c)\<rparr>"

type_synonym 'e context_factory = "json_object \<Rightarrow> ('e, json_object) callback"

record 'e protected_tool =
  pt_contract :: tool_contract
  pt_function :: "'e py_function"
  pt_idempotency_fields :: "string list option"
  pt_context_factory :: "'e context_factory option"

text \<open>
  \<^verbatim>\<open>protect(contract=..., ...)(function)\<close>: \<open>None\<close> is a function that is not callable. The
  iterable of field names is a list, which every call can read again.
\<close>

definition protect ::
  "tool_contract \<Rightarrow> string list option \<Rightarrow> 'e context_factory option \<Rightarrow> 'e py_function option \<Rightarrow>
   ('e agent_actum, 'e protected_tool) action" where
  "protect contract idempotency_fields context_factory func ac =
     (case register contract (map_option function_handler func) (ac_registry ac) of
        (Inl e, registry) \<Rightarrow> (Inl e, ac\<lparr>ac_registry := registry\<rparr>)
      | (Inr _, registry) \<Rightarrow>
          (Inr \<lparr>pt_contract = contract, pt_function = the func,
                pt_idempotency_fields = idempotency_fields, pt_context_factory = context_factory\<rparr>,
           ac\<lparr>ac_registry := registry\<rparr>))"

definition required_schema_fields :: "tool_contract \<Rightarrow> string list" where
  "required_schema_fields contract =
     (case dict_get (ts_document (tc_input_schema contract)) ''required'' of
        Some (PyList required) \<Rightarrow> if list_all is_str required then map the_str required else []
      | _ \<Rightarrow> [])"

definition key_fields :: "'e protected_tool \<Rightarrow> string list" where
  "key_fields pt = (case pt_idempotency_fields pt of
     Some fs \<Rightarrow> fs | None \<Rightarrow> required_schema_fields (pt_contract pt))"

definition wrapper_key :: "'z libs_scheme \<Rightarrow> 'e protected_tool \<Rightarrow> json_object \<Rightarrow> string option result" where
  "wrapper_key L pt arguments =
     (if tc_idempotency_key_required (pt_contract pt) then
        bindR (create_key L (tc_name (pt_contract pt)) arguments (key_fields pt)) (\<lambda>key. Inr (Some key))
      else Inr None)"

text \<open>
  The runtime that a call builds: all its services are given, so the clock of the default
  services, the first argument of the constructor, is not used.
\<close>

definition facade_runtime :: "'e agent_actum \<Rightarrow> 'e runtime" where
  "facade_runtime ac = SingleActionRuntime (ac_clock ac) (ac_registry ac) (ac_policy_engine ac)
     (Some (ac_idempotency_backend ac)) (Some (ac_ledger ac)) (ac_approval_checker ac)
     (ac_preconditions ac) (ac_postconditions ac) (Some (ac_clock ac))"

definition call_protected ::
  "'z rt_libs_scheme \<Rightarrow> (pyval \<Rightarrow> string) \<Rightarrow> 'e agent_actum \<Rightarrow> 'e protected_tool \<Rightarrow> pyval list \<Rightarrow> named_values \<Rightarrow>
   (('e, 'y) idem_world_scheme, execution_result) action" where
  "call_protected L object_str ac pt args kwargs =
     bindM (liftM (bind_json_arguments L object_str (fn_parameters (pt_function pt)) args kwargs)) (\<lambda>arguments.
     bindM (liftM (wrapper_key L pt arguments)) (\<lambda>key.
     bindM uuid4 (\<lambda>intent_id.
     bindM (read_clock (ac_clock ac)) (\<lambda>created_at.
     bindM (liftM (ActionIntent L
       \<lparr>ai_intent_id = intent_id, ai_contract_id = tc_contract_id (pt_contract pt),
        ai_tool_name = tc_name (pt_contract pt), ai_contract_version = tc_version (pt_contract pt),
        ai_requester_id = ''agentactum.facade'', ai_arguments = arguments, ai_created_at = created_at,
        ai_idempotency_key = key, ai_context = []\<rparr>)) (\<lambda>action.
     bindM (case pt_context_factory pt of
        None \<Rightarrow> retM [] | Some f \<Rightarrow> call_user (f arguments)) (\<lambda>context.
     execute L (facade_runtime ac) action context))))))"

section \<open>The LangGraph adapter\<close>

definition protect_tool ::
  "tool_contract \<Rightarrow> string list option \<Rightarrow> 'e context_factory option \<Rightarrow> string \<Rightarrow> 'e py_function option \<Rightarrow>
   ('e agent_actum, 'e protected_tool \<times> string) action" where
  "protect_tool contract idempotency_fields context_factory return_mode func =
     (if return_mode \<notin> set [''result'', ''output''] then
        raiseM (ValueErr (''return_mode must be 'result' or 'output'' @ [CHR 0x27]))
      else bindM (protect contract idempotency_fields context_factory func) (\<lambda>pt. retM (pt, return_mode)))"

definition serialize_result :: "'z rt_libs_scheme \<Rightarrow> execution_result \<Rightarrow> string \<Rightarrow> pyval" where
  "serialize_result L result return_mode =
     (if return_mode = ''result'' then model_dump L result
      else if er_succeeded result then er_output result
      else model_dump L result)"

definition call_tool ::
  "'z rt_libs_scheme \<Rightarrow> (pyval \<Rightarrow> string) \<Rightarrow> 'e agent_actum \<Rightarrow> 'e protected_tool \<times> string \<Rightarrow> pyval list \<Rightarrow>
   named_values \<Rightarrow> (('e, 'y) idem_world_scheme, pyval) action" where
  "call_tool L object_str ac tool args kwargs =
     bindM (call_protected L object_str ac (fst tool) args kwargs) (\<lambda>result.
     retM (serialize_result L result (snd tool)))"

text \<open>
  \<^verbatim>\<open>import_module("langgraph.prebuilt")\<close> is a parameter: \<open>None\<close> if the import fails,
  \<open>Some None\<close> if the module has no \<^verbatim>\<open>ToolNode\<close>, else its constructor.
\<close>

definition tool_node :: "('t list \<Rightarrow> 'n result) option option \<Rightarrow> 't list \<Rightarrow> 'n result" where
  "tool_node prebuilt tools =
     (case prebuilt of
        None \<Rightarrow> Inl (LangGraphIntegrationError
          ''Install the optional extra with: pip install \"agentactum[langgraph]\"'')
      | Some None \<Rightarrow> Inl (LangGraphIntegrationError
          ''Installed langgraph package does not expose langgraph.prebuilt.ToolNode'')
      | Some (Some tool_node_factory) \<Rightarrow> tool_node_factory tools)"

end
