(* ===== verification/Facade_Correctness.thy ===== *)
theory Facade_Correctness
  imports Facade Runtime_Audit Runtime_Completion
begin

text \<open>
  What the facade promises its caller: a protected function runs only through the pipeline
  and at most once for each combination of the fields that make its key, a name is bound to
  one function for ever, and a call that cannot be bound or keyed has no effect. The adapter
  for LangGraph keeps these promises and only changes the form of the result.
\<close>

section \<open>One call\<close>

definition wrapped_action :: "'e protected_tool \<Rightarrow> json_object \<Rightarrow> string option \<Rightarrow> uuid \<Rightarrow> time \<Rightarrow> action_intent" where
  "wrapped_action pt arguments key intent_id created_at =
     \<lparr>ai_intent_id = intent_id, ai_contract_id = tc_contract_id (pt_contract pt),
      ai_tool_name = tc_name (pt_contract pt), ai_contract_version = tc_version (pt_contract pt),
      ai_requester_id = ''agentactum.facade'', ai_arguments = arguments, ai_created_at = created_at,
      ai_idempotency_key = key, ai_context = []\<rparr>"

lemma call_protected_cases:
  fixes s :: "('e, 'y) idem_world_scheme"
  obtains (raised) e where "fst (call_protected L object_str ac pt args kwargs s) = Inl e"
      "beyond (snd (call_protected L object_str ac pt args kwargs s)) = beyond s"
  | (executed) arguments key action x s1 where
      "bind_json_arguments L object_str (fn_parameters (pt_function pt)) args kwargs = Inr arguments"
      "wrapper_key L pt arguments = Inr key"
      "ActionIntent L (wrapped_action pt arguments key (uuid_source s (drawn s)) (ac_clock ac (tick s))) = Inr action"
      "beyond s1 = beyond s"
      "call_protected L object_str ac pt args kwargs s = execute L (facade_runtime ac) action x s1"
proof -
  let ?s1 = "s\<lparr>drawn := Suc (drawn s), tick := Suc (tick s)\<rparr>"
  have s1: "beyond ?s1 = beyond s" by (simp add: beyond_def)
  show ?thesis
  proof (cases "bind_json_arguments L object_str (fn_parameters (pt_function pt)) args kwargs")
    case (Inl e)
    then show ?thesis by (intro raised[of e]) (simp_all add: call_protected_def)
  next
    case args: (Inr arguments)
    show ?thesis
    proof (cases "wrapper_key L pt arguments")
      case (Inl e)
      then show ?thesis using args by (intro raised[of e]) (simp_all add: call_protected_def)
    next
      case key: (Inr key)
      let ?raw = "wrapped_action pt arguments key (uuid_source s (drawn s)) (ac_clock ac (tick s))"
      show ?thesis
      proof (cases "ActionIntent L ?raw")
        case (Inl e)
        then show ?thesis using args key s1
          by (intro raised[of e]) (simp_all add: call_protected_def wrapped_action_def)
      next
        case action: (Inr action)
        define ctx :: "(('e, 'y) idem_world_scheme, json_object) action" where
          "ctx = (case pt_context_factory pt of None \<Rightarrow> retM [] | Some f \<Rightarrow> call_user (f arguments))"
        have keeps: "keeps beyond ctx"
          unfolding ctx_def by (intro keeps_intros)
        have run: "call_protected L object_str ac pt args kwargs s =
            bindM ctx (\<lambda>context. execute L (facade_runtime ac) action context) ?s1"
          using args key action by (simp add: call_protected_def wrapped_action_def ctx_def)
        obtain r s2 where c: "ctx ?s1 = (r, s2)" by (cases "ctx ?s1")
        have s2: "beyond s2 = beyond s" using keepsD[OF keeps c] s1 by simp
        show ?thesis
        proof (cases r)
          case (Inl e)
          then show ?thesis using run c s2 by (intro raised[of e]) (simp_all add: bindM_run)
        next
          case (Inr x)
          then show ?thesis using run c s2 args key action
            by (intro executed[of arguments key action s2 x]) (simp_all add: bindM_run)
        qed
      qed
    qed
  qed
qed

lemma ActionIntent_fields:
  assumes "ActionIntent L (wrapped_action pt arguments key i t) = Inr action"
  shows "DomainName L (tc_name (pt_contract pt)) = Some (ai_tool_name action)"
    and "ai_arguments action = arguments"
    and "case key of None \<Rightarrow> ai_idempotency_key action = None
         | Some k \<Rightarrow> ShortText L k = ai_idempotency_key action \<and> ai_idempotency_key action \<noteq> None"
  using assms by (auto simp: ActionIntent_def wrapped_action_def bindR_Inr_iff optional_text_iff split: option.splits)

section \<open>Keyed calls\<close>

lemma facade_runtime_keys:
  "ac_idempotency_backend ac = InMemoryIdempotencyBackend clk \<Longrightarrow> in_memory_keys (facade_runtime ac)"
  by (simp add: facade_runtime_def SingleActionRuntime_def in_memory_keys_def)

text \<open>The key a call carries when its contract requires one.\<close>

lemma wrapped_key:
  assumes "pydantic_documented L" and "tc_idempotency_key_required (pt_contract pt)"
    and "DomainName L (tc_name (pt_contract pt)) = Some (tc_name (pt_contract pt))"
    and "wrapper_key L pt arguments = Inr key"
    and "ActionIntent L (wrapped_action pt arguments key i t) = Inr action"
  obtains k where "create_key L (tc_name (pt_contract pt)) arguments (key_fields pt) = Inr k"
    and "ai_idempotency_key action = Some k"
proof -
  obtain k where k: "create_key L (tc_name (pt_contract pt)) arguments (key_fields pt) = Inr k" "key = Some k"
    using assms(2,4) by (auto simp: wrapper_key_def bindR_Inr_iff)
  moreover have "ShortText L k = Some k" using key_short_text[OF assms(1,3) k(1)] by simp
  ultimately show thesis using ActionIntent_fields(3)[OF assms(5)] that by simp
qed

lemma execute_calls_cases:
  "calls (snd (execute L rt a x s)) = calls s \<or>
   calls (snd (execute L rt a x s)) = calls s @ [HandlerCall (ai_tool_name a) (ai_arguments a)]"
  by (simp add: execute_calls)

lemma found_key_no_call:
  assumes "in_memory_keys rt" and "ai_idempotency_key a = Some k" and "records s k \<noteq> None"
  shows "calls (snd (execute L rt a x s)) = calls s"
  using execute_calls_cases[of L rt a x s] execute_keyed_call(1)[OF assms(1,2), of L x s] assms(3) by auto

lemma called_key_found:
  assumes "in_memory_keys rt" and "ai_idempotency_key a = Some k"
    and "calls (snd (execute L rt a x s)) \<noteq> calls s"
  shows "records (snd (execute L rt a x s)) k \<noteq> None"
  using execute_calls_cases[of L rt a x s] execute_keyed_call(2)[OF assms(1,2), of L x s] assms(3) by auto

text \<open>
  A call that executes reaches the runtime with the key of its arguments, and a call that
  ran the function has left a record under that key.
\<close>

lemma keyed_call:
  fixes s :: "('e, 'y) idem_world_scheme"
  assumes "pydantic_documented L" and "tc_idempotency_key_required (pt_contract pt)"
    and "DomainName L (tc_name (pt_contract pt)) = Some (tc_name (pt_contract pt))"
    and "bind_json_arguments L object_str (fn_parameters (pt_function pt)) args kwargs = Inr a"
    and "create_key L (tc_name (pt_contract pt)) a (key_fields pt) = Inr k"
  obtains (raised) e where "fst (call_protected L object_str ac pt args kwargs s) = Inl e"
      "beyond (snd (call_protected L object_str ac pt args kwargs s)) = beyond s"
  | (executed) action x s1 where
      "call_protected L object_str ac pt args kwargs s = execute L (facade_runtime ac) action x s1"
      "beyond s1 = beyond s" "ai_idempotency_key action = Some k"
proof (cases rule: call_protected_cases[of L object_str ac pt args kwargs s])
  case raised
  then show ?thesis by (rule that(1))
next
  case (executed arguments key action x s1)
  have "arguments = a" using executed(1) assms(4) by simp
  then have "ai_idempotency_key action = Some k"
    using wrapped_key[OF assms(1-3) executed(2,3)] assms(5) by force
  with executed(4,5) show ?thesis by (intro that(2))
qed

text \<open>A call that runs the function has a key.\<close>

lemma called_has_key:
  assumes "pydantic_documented L" and "tc_idempotency_key_required (pt_contract pt)"
    and "DomainName L (tc_name (pt_contract pt)) = Some (tc_name (pt_contract pt))"
    and "bind_json_arguments L object_str (fn_parameters (pt_function pt)) args kwargs = Inr a"
    and "calls (snd (call_protected L object_str ac pt args kwargs s)) \<noteq> calls s"
  obtains k where "create_key L (tc_name (pt_contract pt)) a (key_fields pt) = Inr k" "ShortText L k = Some k"
proof (cases rule: call_protected_cases[of L object_str ac pt args kwargs s])
  case (raised e)
  with assms(5) show ?thesis by (simp add: beyond_eq)
next
  case (executed arguments key action x s1)
  then obtain k where "create_key L (tc_name (pt_contract pt)) a (key_fields pt) = Inr k"
    using wrapped_key[OF assms(1-3) executed(2,3)] assms(4) by auto
  with key_short_text[OF assms(1,3)] show ?thesis by (intro that) auto
qed

lemma same_execution:
  fixes s t :: "('e, 'y) idem_world_scheme"
  assumes "beyond s = beyond t"
  shows "calls s = calls t" and "records s = records t" and "events s = events t"
  using assms beyond_same[OF assms] by (simp_all add: beyond_eq)

text \<open>
  The function runs once per key. When a call of a protected function whose contract
  requires a key has run the function, then a later call of it whose arguments agree on the
  fields that make the key does not run it again, whatever else has been executed over the
  same in-memory store in between, and whatever the other arguments are.
\<close>

theorem protected_function_once:
  fixes s :: "('e, 'y) idem_world_scheme"
  assumes doc: "pydantic_documented L" and mem: "ac_idempotency_backend ac = InMemoryIdempotencyBackend clk"
    and req: "tc_idempotency_key_required (pt_contract pt)"
    and name: "DomainName L (tc_name (pt_contract pt)) = Some (tc_name (pt_contract pt))"
    and a: "bind_json_arguments L object_str (fn_parameters (pt_function pt)) args kwargs = Inr a"
    and b: "bind_json_arguments L object_str (fn_parameters (pt_function pt)) args' kwargs' = Inr b"
    and agree: "\<And>f. f \<in> set (key_fields pt) \<Longrightarrow> dict_get a f = dict_get b f"
    and ran: "calls (snd (call_protected L object_str ac pt args kwargs s)) \<noteq> calls s"
    and t: "t = run_requests L requests (snd (call_protected L object_str ac pt args kwargs s))"
  shows "calls (snd (call_protected L object_str ac pt args' kwargs' t)) = calls t"
proof -
  note keyed = facade_runtime_keys[OF mem]
  obtain k where k: "create_key L (tc_name (pt_contract pt)) a (key_fields pt) = Inr k"
    using called_has_key[OF doc req name a ran] .
  then have k': "create_key L (tc_name (pt_contract pt)) b (key_fields pt) = Inr k"
    using create_key_cong[of "key_fields pt" a b] agree by metis
  have "records (snd (call_protected L object_str ac pt args kwargs s)) k \<noteq> None"
    using doc req name a k
  proof (cases rule: keyed_call[where ac = ac and s = s])
    case (raised e)
    with ran show ?thesis by (simp add: beyond_eq)
  next
    case (executed action x s1)
    have "calls (snd (execute L (facade_runtime ac) action x s1)) \<noteq> calls s1"
      using ran executed(1) same_execution(1)[OF executed(2)] by simp
    from called_key_found[OF keyed executed(3) this] show ?thesis unfolding executed(1) .
  qed
  then have found: "records t k \<noteq> None"
    unfolding t by (rule records_evolve_found[OF run_requests_evolve])
  show ?thesis
    using doc req name b k'
  proof (cases rule: keyed_call[where ac = ac and s = t])
    case (raised e)
    then show ?thesis by (simp add: beyond_eq)
  next
    case (executed action x s1)
    have "records s1 k \<noteq> None" using found same_execution(2)[OF executed(2)] by simp
    from found_key_no_call[OF keyed executed(3) this] executed(1) same_execution(1)[OF executed(2)]
    show ?thesis by simp
  qed
qed

text \<open>A protected function on a concrete facade: the key is made from the amount alone.\<close>

definition refund_function :: "unit py_function" where
  "refund_function = \<lparr>fn_parameters =
       [\<lparr>pm_name = ''amount'', pm_kind = POSITIONAL_OR_KEYWORD, pm_default = None\<rparr>,
        \<lparr>pm_name = ''trace'', pm_kind = KEYWORD_ONLY, pm_default = Some PyNone\<rparr>],
     fn_body = (\<lambda>vs e. (Returned (snd (hd vs)), e))\<rparr>"

definition sample_facade :: "unit agent_actum" where
  "sample_facade = AgentActum int None (Some (sample_registry MEDIUM (function_handler refund_function)))
     None None None [] [] None"

definition refund_tool :: "unit protected_tool" where
  "refund_tool = \<lparr>pt_contract = sample_contract MEDIUM, pt_function = refund_function,
     pt_idempotency_fields = Some [''amount''], pt_context_factory = None\<rparr>"

abbreviation refund_call :: "named_values \<Rightarrow> (unit idem_world, execution_result) action" where
  "refund_call kwargs \<equiv> call_protected sample_rt_libs (\<lambda>_. []) sample_facade refund_tool [PyInt 5] kwargs"

lemma sample_facade_runtime:
  "facade_runtime sample_facade = sample_runtime MEDIUM [] (function_handler refund_function)"
  by (simp add: facade_runtime_def sample_facade_def AgentActum_def sample_runtime_def SingleActionRuntime_def)

lemma refund_binds:
  "bind_json_arguments sample_rt_libs (\<lambda>_. []) (fn_parameters (pt_function refund_tool)) [PyInt 5]
     [(''trace'', PyInt i)] = Inr [(PyStr ''amount'', PyInt 5), (PyStr ''trace'', PyInt i)]"
  by (simp add: bind_json_arguments_def signature_bind_def bind_rest_def refund_tool_def
      refund_function_def default_of_def)

lemma refund_name: "DomainName sample_rt_libs ''refund'' = Some ''refund''"
  by (rule DomainName_plain[OF sample_rt_libs_documented]) (simp_all add: domain_name_form_def lower_alpha_def)

lemma refund_key:
  "\<exists>k. create_key sample_rt_libs ''refund'' [(PyStr ''amount'', PyInt 5), (PyStr ''trace'', PyInt i)]
     [''amount''] = Inr k \<and> ShortText sample_rt_libs k = Some k"
proof -
  have "\<exists>s. canonical_text sample_rt_libs ''refund'' [(PyStr ''amount'', PyInt 5), (PyStr ''trace'', PyInt i)]
      [''amount''] = Inr s"
    by (subst canonical_text_total)
      (auto simp: well_named_def py_strip_def strip_by_def py_isspace_def Let_def dict_get_def)
  then obtain k where k: "create_key sample_rt_libs ''refund''
      [(PyStr ''amount'', PyInt 5), (PyStr ''trace'', PyInt i)] [''amount''] = Inr k"
    by (auto simp: create_key_def)
  with key_short_text[OF sample_rt_libs_documented refund_name k] show ?thesis by blast
qed

abbreviation refund_arguments :: "int \<Rightarrow> json_object" where
  "refund_arguments i \<equiv> [(PyStr ''amount'', PyInt 5), (PyStr ''trace'', PyInt i)]"

abbreviation refund_runtime :: "unit runtime" where
  "refund_runtime \<equiv> sample_runtime MEDIUM [] (function_handler refund_function)"

abbreviation refund_registered :: "unit registered_tool" where
  "refund_registered \<equiv> \<lparr>rg_contract = sample_contract MEDIUM, rg_handler = function_handler refund_function\<rparr>"

text \<open>The call reaches the runtime, with an action that deserves to run.\<close>

lemma refund_executes:
  fixes s :: "unit idem_world"
  assumes k: "create_key sample_rt_libs ''refund'' (refund_arguments i) [''amount''] = Inr k"
  obtains action where
    "refund_call [(''trace'', PyInt i)] s = execute sample_rt_libs refund_runtime action []
       (s\<lparr>drawn := Suc (drawn s), tick := Suc (tick s)\<rparr>)"
    "ai_tool_name action = ''refund''" "ai_arguments action = refund_arguments i"
    "ai_idempotency_key action = Some k" "action_matches_contract action (sample_contract MEDIUM)"
proof
  define action where
    "action = wrapped_action refund_tool (refund_arguments i) (Some k) (uuid_source s (drawn s)) (int (tick s))"
  show parts: "ai_tool_name action = ''refund''" "ai_arguments action = refund_arguments i"
    "ai_idempotency_key action = Some k" "action_matches_contract action (sample_contract MEDIUM)"
    by (simp_all add: action_def wrapped_action_def refund_tool_def sample_contract_def action_matches_contract_def)
  have "ShortText sample_rt_libs ''1.0.0'' = Some ''1.0.0''"
    "ShortText sample_rt_libs ''agentactum.facade'' = Some ''agentactum.facade''"
    by (rule ShortText_plain[OF sample_rt_libs_documented]; simp add: white_space_def)+
  moreover have "JsonObject sample_rt_libs (refund_arguments i)"
    by (simp add: JsonObject_def json_documented(1)[OF sample_rt_libs_documented])
  moreover have "ShortText sample_rt_libs k = Some k"
    using key_short_text[OF sample_rt_libs_documented refund_name k] by simp
  ultimately have "ActionIntent sample_rt_libs action = Inr action"
    using refund_name
    by (simp add: ActionIntent_def action_def wrapped_action_def refund_tool_def sample_contract_def
        text_field_def optional_text_def require_def)
  then show "refund_call [(''trace'', PyInt i)] s = execute sample_rt_libs refund_runtime action []
      (s\<lparr>drawn := Suc (drawn s), tick := Suc (tick s)\<rparr>)"
    using refund_binds[of i] k
    by (simp add: call_protected_def action_def wrapped_action_def wrapper_key_def key_fields_def
        refund_tool_def sample_contract_def sample_facade_runtime) (simp add: sample_facade_def AgentActum_def)
qed

lemma refund_registry: "get_tool (rt_registry refund_runtime) ''refund'' = Inr refund_registered"
  by (simp add: sample_registry_def get_tool_def)

lemma refund_conforms:
  "conforms (PyDict (refund_arguments i)) (ts_document (tc_input_schema (sample_contract MEDIUM)))"
proof -
  have "validate_against_schema sample_rt_libs (PyDict (refund_arguments i))
      (ts_document (tc_input_schema (sample_contract MEDIUM))) = None"
    by (simp add: sample_contract_def validate_against_schema_def dict_get_def
        validate_value.simps[of _ "PyDict _"] json_or_raise_def)
  then show ?thesis by (simp add: validate_against_schema_None)
qed

lemma refund_allowed:
  fixes w :: "unit idem_world"
  assumes "action_matches_contract action (sample_contract MEDIUM)"
  shows "\<exists>d w'. evaluate sample_rt_libs [] action (Some (sample_contract MEDIUM)) [] w = (Inr d, w') \<and>
    pd_decision_type d \<in> {ALLOW, ALLOW_WITH_CONSTRAINTS}"
  using no_policies_allow[OF sample_rt_libs_documented assms, of "[]" w]
  by (simp add: sample_contract_def risk_less_rank)

lemma refund_runs:
  "calls (snd (refund_call [(''trace'', PyInt i)] (sample_state ()))) =
     [HandlerCall ''refund'' (refund_arguments i)]"
proof -
  obtain k where k: "create_key sample_rt_libs ''refund'' (refund_arguments i) [''amount''] = Inr k"
    "ShortText sample_rt_libs k = Some k" using refund_key by blast
  obtain action where run: "refund_call [(''trace'', PyInt i)] (sample_state ()) =
      execute sample_rt_libs refund_runtime action [] ((sample_state ())\<lparr>drawn := 1, tick := 1\<rparr>)"
    and parts: "ai_tool_name action = ''refund''" "ai_arguments action = refund_arguments i"
    "ai_idempotency_key action = Some k" "action_matches_contract action (sample_contract MEDIUM)"
    using refund_executes[OF k(1), of "sample_state ()"] by (auto simp: sample_state_def)
  have "calls (snd (execute sample_rt_libs refund_runtime action [] ((sample_state ())\<lparr>drawn := 1, tick := 1\<rparr>))) =
      calls ((sample_state ())\<lparr>drawn := 1, tick := 1\<rparr>) @ [HandlerCall (ai_tool_name action) (ai_arguments action)]"
    by (rule action_runs[OF sample_rt_libs_documented sample_runtime_parts(2,1),
          where tool = refund_registered and k = k])
      (use parts k(2) refund_conforms refund_allowed[OF parts(4)] refund_registry in \<open>simp_all add: sample_state_def\<close>)
  then show ?thesis unfolding run by (simp add: parts sample_state_def)
qed

theorem protected_function_once_witness:
  "calls (snd (refund_call [(''trace'', PyInt 2)] (snd (refund_call [(''trace'', PyInt 1)] (sample_state ()))))) =
     [HandlerCall ''refund'' [(PyStr ''amount'', PyInt 5), (PyStr ''trace'', PyInt 1)]]"
proof -
  have ran: "calls (snd (refund_call [(''trace'', PyInt 1)] (sample_state ()))) \<noteq> calls (sample_state ())"
    by (simp add: refund_runs, simp add: sample_state_def)
  have "calls (snd (refund_call [(''trace'', PyInt 2)] (snd (refund_call [(''trace'', PyInt 1)] (sample_state ()))))) =
      calls (snd (refund_call [(''trace'', PyInt 1)] (sample_state ())))"
  proof (rule protected_function_once[OF sample_rt_libs_documented _ _ _ refund_binds refund_binds _ ran])
    show "ac_idempotency_backend sample_facade = InMemoryIdempotencyBackend int"
      by (simp add: sample_facade_def AgentActum_def)
    show "tc_idempotency_key_required (pt_contract refund_tool)"
      "DomainName sample_rt_libs (tc_name (pt_contract refund_tool)) = Some (tc_name (pt_contract refund_tool))"
      using refund_name by (simp_all add: refund_tool_def sample_contract_def)
    show "snd (refund_call [(''trace'', PyInt 1)] (sample_state ())) =
        run_requests sample_rt_libs [] (snd (refund_call [(''trace'', PyInt 1)] (sample_state ())))" by simp
  qed (simp add: key_fields_def refund_tool_def dict_get_def)
  then show ?thesis by (simp add: refund_runs)
qed


section \<open>Binding a name\<close>

definition protect_many ::
  "(tool_contract \<times> string list option \<times> 'e context_factory option \<times> 'e py_function option) list \<Rightarrow>
   'e agent_actum \<Rightarrow> 'e agent_actum" where
  "protect_many requests = fold (\<lambda>(c, fs, cf, f) ac. snd (protect c fs cf f ac)) requests"

lemma protect_cases:
  "protect c fs cf f ac =
     (case f of
        None \<Rightarrow> (Inl (TypeErr ''handler must be callable''), ac)
      | Some g \<Rightarrow>
          if contains (ac_registry ac) (tc_name c)
          then (Inl (DuplicateToolRegistrationError (tc_name c)), ac)
          else (Inr \<lparr>pt_contract = c, pt_function = g, pt_idempotency_fields = fs, pt_context_factory = cf\<rparr>,
            ac\<lparr>ac_registry := snd (register c (Some (function_handler g)) (ac_registry ac))\<rparr>))"
  by (auto simp: protect_def register_cases split: option.split)

lemma protect_registry:
  "ac_registry (snd (protect c fs cf f ac)) = snd (register c (map_option function_handler f) (ac_registry ac))"
  by (simp add: protect_cases register_cases split: option.split)

lemma protect_many_registry:
  "ac_registry (protect_many requests ac) =
     fold (\<lambda>(c, h) r. snd (register c h r))
       (map (\<lambda>(c, fs, cf, f). (c, map_option function_handler f)) requests) (ac_registry ac)"
  by (induction requests arbitrary: ac) (auto simp: protect_many_def protect_registry)

lemma protect_binds:
  assumes "protect c fs cf (Some g) ac = (Inr pt, ac1)"
  shows "get_tool (ac_registry (protect_many requests ac1)) (tc_name c) =
    Inr \<lparr>rg_contract = c, rg_handler = function_handler g\<rparr>"
proof -
  have "get_tool (ac_registry ac1) (tc_name c) = Inr \<lparr>rg_contract = c, rg_handler = function_handler g\<rparr>"
    using assms by (auto simp: protect_cases register_cases get_tool_def contains_def map_add_def
      split: option.splits if_splits)
  then show ?thesis unfolding protect_many_registry by (rule registration_stable)
qed

text \<open>
  A protected name is bound for ever. After \<^verbatim>\<open>protect\<close> has returned a wrapper, the registry
  of the facade holds this contract and this function under the name of the contract whatever
  is protected later, and every later attempt to protect a callable under the same name
  raises \<^verbatim>\<open>DuplicateToolRegistrationError\<close> and changes nothing.
\<close>

theorem protected_name_bound:
  assumes "protect c fs cf f ac = (Inr pt, ac1)"
  shows "\<exists>g. f = Some g \<and> pt_contract pt = c \<and> pt_function pt = g \<and>
    get_tool (ac_registry (protect_many requests ac1)) (tc_name c) =
      Inr \<lparr>rg_contract = c, rg_handler = function_handler g\<rparr> \<and>
    protect (c'\<lparr>tc_name := tc_name c\<rparr>) fs' cf' (Some h) (protect_many requests ac1) =
      (Inl (DuplicateToolRegistrationError (tc_name c)), protect_many requests ac1)"
proof -
  from assms obtain g where f: "f = Some g" "pt_contract pt = c" "pt_function pt = g"
    by (auto simp: protect_cases split: option.splits if_splits)
  have found: "get_tool (ac_registry (protect_many requests ac1)) (tc_name c) =
      Inr \<lparr>rg_contract = c, rg_handler = function_handler g\<rparr>"
    by (rule protect_binds[OF assms[unfolded f(1)]])
  then have "contains (ac_registry (protect_many requests ac1)) (tc_name c)"
    by (auto simp: get_tool_def contains_def split: option.splits)
  then show ?thesis using f found by (simp add: protect_cases)
qed

theorem protected_name_bound_witness:
  "\<exists>pt ac1. protect (sample_contract LOW) None None (Some refund_function)
      (AgentActum int None None None None None [] [] None) = (Inr pt, ac1) \<and>
    fst (protect (sample_contract HIGH) None None (Some sample_function) ac1) =
      Inl (DuplicateToolRegistrationError ''refund'')"
proof -
  obtain pt ac1 where p: "protect (sample_contract LOW) None None (Some refund_function)
      (AgentActum int None None None None None [] [] None) = (Inr pt, ac1)"
    by (simp add: protect_cases contains_def AgentActum_def)
  have "(sample_contract HIGH)\<lparr>tc_name := tc_name (sample_contract LOW)\<rparr> = sample_contract HIGH"
    by (simp add: sample_contract_def)
  with p protected_name_bound[OF p, of "[]" "sample_contract HIGH" None None sample_function]
  show ?thesis by (simp add: protect_many_def) (simp add: sample_contract_def)
qed

text \<open>
  A call that cannot be bound or keyed has no effect. When the arguments do not fit the
  signature or are not JSON, the wrapper raises \<^verbatim>\<open>TypeError\<close>; when the contract requires a key
  and \<^verbatim>\<open>create_key\<close> refuses, it raises what \<^verbatim>\<open>create_key\<close> raised. In both cases the exception
  leaves the wrapper, no identifier is drawn, no clock is read, and neither the ledger, the
  idempotency store nor the world of the callables has changed.
\<close>

theorem rejected_call_no_effect:
  assumes "bind_json_arguments L object_str (fn_parameters (pt_function pt)) args kwargs = Inl e \<or>
    (\<exists>arguments. bind_json_arguments L object_str (fn_parameters (pt_function pt)) args kwargs = Inr arguments \<and>
       tc_idempotency_key_required (pt_contract pt) \<and>
       create_key L (tc_name (pt_contract pt)) arguments (key_fields pt) = Inl e)"
  shows "call_protected L object_str ac pt args kwargs s = (Inl e, s)"
  using assms by (auto simp: call_protected_def wrapper_key_def bindR_def)

theorem rejected_call_no_effect_witness:
  "call_protected sample_rt_libs (\<lambda>_. []) sample_facade (refund_tool\<lparr>pt_idempotency_fields := None\<rparr>)
     [PyInt 5] [(''trace'', PyInt 1)] (sample_state ()) =
   (Inl (IdempotencyKeyError ''fields must not be empty''), sample_state ())"
proof (rule rejected_call_no_effect, rule disjI2, rule exI, intro conjI)
  show "bind_json_arguments sample_rt_libs (\<lambda>_. [])
      (fn_parameters (pt_function (refund_tool\<lparr>pt_idempotency_fields := None\<rparr>)))
      [PyInt 5] [(''trace'', PyInt 1)] = Inr [(PyStr ''amount'', PyInt 5), (PyStr ''trace'', PyInt 1)]"
    using refund_binds by simp
qed (simp_all add: refund_tool_def sample_contract_def key_fields_def required_schema_fields_def
    dict_get_def create_key_def canonical_text_def validate_key_material_def py_strip_def
    strip_by_def py_isspace_def Let_def bindR_def)


section \<open>What the caller gets\<close>

text \<open>
  C15: The wrapper reports the call that the caller wrote. Let a function all of whose
  parameters can be given by keyword (none is positional-only, \<^verbatim>\<open>*args\<close> or \<^verbatim>\<open>**kwargs\<close>) be
  protected under a name that the text type leaves as it is, and registered still; let its
  arguments bind and be JSON, and its outputs acceptable; let the store be the in-memory one
  and the clocks of the store and of the facade not run backwards. If a call of the wrapper
  has run anything, then it has run the function once, with every parameter at the value that
  Python gives it in \<^verbatim>\<open>function(*args, **kwargs)\<close>, and it returns the structured result that
  this very call deserves: its value, if that conforms to the output schema and every
  postcondition returned true in the world the call left; otherwise the failure for what went
  wrong, first of raising, the output and the postconditions. As in \<^verbatim>\<open>execute\<close>, raising is
  reported as a plain failure, not as indeterminate.
\<close>

theorem wrapper_reports_call:
  fixes s :: "('e, 'y) idem_world_scheme"
  assumes doc: "pydantic_documented L" and ser: "serializer_documented L"
    and mem: "ac_idempotency_backend ac = InMemoryIdempotencyBackend clk" "mono clk" and mono: "mono (ac_clock ac)"
    and made: "protect c fs cf (Some f) ac0 = (Inr pt, ac1)"
    and reg: "ac_registry ac = ac_registry (protect_many others ac1)"
    and name: "DomainName L (tc_name c) = Some (tc_name c)"
    and plain: "plain_signature (fn_parameters f)" and bind: "signature_bind (fn_parameters f) args kwargs = Inr given"
    and json: "list_all (\<lambda>(n, v). json_argument v) (apply_defaults (fn_parameters f) given)"
    and out: "\<And>e v. fst (call_function f args kwargs e) = Returned v \<Longrightarrow> acceptable_output L c v"
    and ran: "calls (snd (call_protected L object_str ac pt args kwargs s)) \<noteq> calls s"
  shows "\<exists>action x s1 held u r t. call_protected L object_str ac pt args kwargs s = (Inr r, t) \<and>
    calls t = calls s @ [HandlerCall (tc_name c) (keyword_dict (apply_defaults (fn_parameters f) given))] \<and>
    call_protected L object_str ac pt args kwargs s = execute L (facade_runtime ac) action x s1 \<and>
    beyond s1 = beyond s \<and>
    cleared L (facade_runtime ac) action x s1 \<lparr>rg_contract = c, rg_handler = function_handler f\<rparr> held u \<and>
    handler_outcome L (facade_runtime ac) action x c (call_function f args kwargs (ext u)) r"
proof -
  let ?tool = "\<lparr>rg_contract = c, rg_handler = function_handler f\<rparr>"
  have pt: "pt_contract pt = c" "pt_function pt = f" using made by (auto simp: protect_cases split: if_splits)
  have tool: "get_tool (ac_registry ac) (tc_name c) = Inr ?tool"
    unfolding reg by (rule protect_binds[OF made])
  note call = transparent_call[OF plain bind json]
  show ?thesis
  proof (cases rule: call_protected_cases[of L object_str ac pt args kwargs s])
    case (raised e)
    with ran show ?thesis by (simp add: beyond_eq)
  next
    case (executed arguments key action x s1)
    let ?rt = "facade_runtime ac"
    have s1: "calls s1 = calls s" using executed(4) by (simp add: beyond_eq)
    have a: "arguments = keyword_dict (apply_defaults (fn_parameters f) given)"
      using executed(1) call(1)[of L object_str] pt(2) by simp
    have action: "ai_tool_name action = tc_name c" "ai_arguments action = arguments"
      using ActionIntent_fields(1,2)[OF executed(3)] name pt(1) by simp_all
    have parts: "rt_idempotency ?rt = InMemoryIdempotencyBackend clk" "rt_clock ?rt = ac_clock ac"
      "rt_registry ?rt = ac_registry ac"
      by (simp_all add: facade_runtime_def SingleActionRuntime_def mem(1))
    have key: "ShortText L k = Some k" if "ai_idempotency_key action = Some k" for k
      using ActionIntent_fields(3)[OF executed(3)] that text_idem[OF doc] by (auto split: option.splits)
    have called: "calls (snd (execute L ?rt action x s1)) \<noteq> calls s1" using ran executed(5) s1 by simp
    obtain held u r t where cl: "cleared L ?rt action x s1 ?tool held u"
      and run: "execute L ?rt action x s1 = (Inr r, t)"
      and o: "handler_outcome L ?rt action x (rg_contract ?tool) (handler_call ?tool action u) r"
      by (rule handler_called_returns[OF doc ser parts(1) mem(2) _ key _ _ called])
        (use parts(2,3) mono tool action a call(2) out in auto)
    have "handler_outcome L ?rt action x c (call_function f args kwargs (ext u)) r"
      using o action(2) a call(2) by simp
    moreover have "calls t = calls s1 @ [HandlerCall (ai_tool_name action) (ai_arguments action)]"
      using execute_calls_cases[of L ?rt action x s1] called run by simp
    ultimately show ?thesis using executed(4,5) s1 action a cl run
      by (intro exI[of _ action] exI[of _ x] exI[of _ s1] exI[of _ held] exI[of _ u] exI[of _ r] exI[of _ t]) auto
  qed
qed

lemma refund_protected:
  "protect (sample_contract MEDIUM) (Some [''amount'']) None (Some refund_function)
     (AgentActum int None None None None None [] [] None) = (Inr refund_tool, sample_facade)"
  by (simp add: protect_cases contains_def AgentActum_def register_cases refund_tool_def sample_facade_def
      sample_registry_def) (simp add: sample_contract_def)

lemma refund_output:
  "acceptable_output sample_rt_libs (sample_contract MEDIUM) (PyInt 5)"
  "validate_against_schema sample_rt_libs (PyInt 5) (ts_document (tc_output_schema (sample_contract MEDIUM))) = None"
proof -
  show ok: "validate_against_schema sample_rt_libs (PyInt 5)
      (ts_document (tc_output_schema (sample_contract MEDIUM))) = None"
    by (simp add: sample_contract_def validate_against_schema_def dict_get_def
        validate_value.simps[of _ "PyInt _"] json_or_raise_def validate_minimum_def)
  then show "acceptable_output sample_rt_libs (sample_contract MEDIUM) (PyInt 5)"
    by (simp add: acceptable_output_def)
qed

lemma refund_call_value:
  "signature_bind (fn_parameters refund_function) [PyInt 5] [(''trace'', PyInt i)] =
     Inr [(''amount'', PyInt 5), (''trace'', PyInt i)]"
  "apply_defaults (fn_parameters refund_function) [(''amount'', PyInt 5), (''trace'', PyInt i)] =
     [(''amount'', PyInt 5), (''trace'', PyInt i)]"
  "call_function refund_function [PyInt 5] [(''trace'', PyInt i)] e = (Returned (PyInt 5), e)"
  by (simp_all add: call_function_def signature_bind_def bind_rest_def refund_function_def default_of_def)

theorem wrapper_reports_call_witness:
  "\<exists>action x u r t. refund_call [(''trace'', PyInt 1)] (sample_state ()) = (Inr r, t) \<and>
     calls t = [HandlerCall ''refund'' (refund_arguments 1)] \<and>
     handler_outcome sample_rt_libs (facade_runtime sample_facade) action x (sample_contract MEDIUM)
       (Returned (PyInt 5), u) r"
proof -
  have ran: "calls (snd (refund_call [(''trace'', PyInt 1)] (sample_state ()))) \<noteq> calls (sample_state ())"
    by (simp add: refund_runs, simp add: sample_state_def)
  have "\<exists>action x s1 held u r t. refund_call [(''trace'', PyInt 1)] (sample_state ()) = (Inr r, t) \<and>
    calls t = calls (sample_state ()) @ [HandlerCall (tc_name (sample_contract MEDIUM))
      (keyword_dict (apply_defaults (fn_parameters refund_function) [(''amount'', PyInt 5), (''trace'', PyInt 1)]))] \<and>
    refund_call [(''trace'', PyInt 1)] (sample_state ()) =
      execute sample_rt_libs (facade_runtime sample_facade) action x s1 \<and>
    beyond s1 = beyond (sample_state ()) \<and>
    cleared sample_rt_libs (facade_runtime sample_facade) action x s1
      \<lparr>rg_contract = sample_contract MEDIUM, rg_handler = function_handler refund_function\<rparr> held u \<and>
    handler_outcome sample_rt_libs (facade_runtime sample_facade) action x (sample_contract MEDIUM)
      (call_function refund_function [PyInt 5] [(''trace'', PyInt 1)] (ext u)) r"
  proof (rule wrapper_reports_call[OF sample_rt_libs_documented sample_serializer_documented _ _ _ refund_protected
        _ _ _ refund_call_value(1) _ _ ran, where clk = int and others = "[]"])
    show "ac_registry sample_facade = ac_registry (protect_many [] sample_facade)"
      by (simp add: protect_many_def)
    show "DomainName sample_rt_libs (tc_name (sample_contract MEDIUM)) = Some (tc_name (sample_contract MEDIUM))"
      using refund_name by (simp add: sample_contract_def)
    show "plain_signature (fn_parameters refund_function)"
      by (simp add: plain_signature_def plain_parameter_def refund_function_def)
    show "acceptable_output sample_rt_libs (sample_contract MEDIUM) v"
      if "fst (call_function refund_function [PyInt 5] [(''trace'', PyInt 1)] e) = Returned v" for e v
      using that refund_output(1) by (simp add: refund_call_value(3))
  qed (simp_all add: sample_facade_def AgentActum_def mono_def refund_call_value(2) json_argument_def)
  then show ?thesis
    by (auto simp: refund_call_value keyword_dict_def sample_state_def) (auto simp: sample_contract_def)
qed

section \<open>The LangGraph adapter\<close>

lemma protect_tool_Inr:
  assumes "protect_tool c fs cf return_mode f ac = (Inr tool, ac1)"
  obtains g where "f = Some g" "pt_contract (fst tool) = c" "pt_function (fst tool) = g" "snd tool = return_mode"
proof -
  have "return_mode \<in> set [''result'', ''output'']"
    using assms by (auto simp: protect_tool_def simp del: set_simps split: if_splits)
  then have run: "bindM (protect c fs cf f) (\<lambda>pt. retM (pt, return_mode)) ac = (Inr tool, ac1)"
    using assms by (simp add: protect_tool_def)
  obtain pt where "protect c fs cf f ac = (Inr pt, ac1)" and "tool = (pt, return_mode)"
    using run by (cases "protect c fs cf f ac") (auto simp: bindM_def split: sum.splits)
  then show thesis by (intro that[of "the f"]) (auto simp: protect_cases split: option.splits if_splits)
qed

lemma call_tool_Inr:
  "call_tool L object_str ac tool args kwargs s = (Inr v, t) \<longleftrightarrow>
     (\<exists>r. call_protected L object_str ac (fst tool) args kwargs s = (Inr r, t) \<and>
        v = serialize_result L r (snd tool))"
  by (auto simp: call_tool_def bindM_cases split: sum.splits prod.splits)

text \<open>
  C29: A retried LangGraph tool answers what it answered. Let the contract of the tool require
  an idempotency key and have a name that the text type leaves as it is, let the store be the
  in-memory one, and let both calls bind to JSON arguments. When a call of a tool that
  \<^verbatim>\<open>protect_tool\<close> returned has run the function and has returned a value, then a later call
  whose arguments agree on the fields that make the key runs nothing, and if it returns, and
  the execution it reports on succeeded, then the value is the same, whatever else has been
  executed over the same store in between.
\<close>

theorem langgraph_retry_same_value:
  fixes s :: "('e, 'y) idem_world_scheme"
  assumes ser: "serializer_documented L" and doc: "pydantic_documented L"
    and made: "protect_tool c fs cf return_mode (Some f) ac0 = (Inr tool, ac1)"
    and mem: "ac_idempotency_backend ac = InMemoryIdempotencyBackend clk"
    and req: "tc_idempotency_key_required c" and name: "DomainName L (tc_name c) = Some (tc_name c)"
    and a: "bind_json_arguments L object_str (fn_parameters f) args kwargs = Inr a"
    and b: "bind_json_arguments L object_str (fn_parameters f) args' kwargs' = Inr b"
    and agree: "\<And>g. g \<in> set (key_fields (fst tool)) \<Longrightarrow> dict_get a g = dict_get b g"
    and first: "call_tool L object_str ac tool args kwargs s = (Inr v, t)" and ran: "calls t \<noteq> calls s"
    and again: "call_tool L object_str ac tool args' kwargs' (run_requests L requests t) = (Inr v', u)"
  shows "calls u = calls (run_requests L requests t) \<and>
    (\<exists>r'. v' = serialize_result L r' return_mode \<and> (er_succeeded r' \<longrightarrow> v' = v))"
proof -
  have tool: "pt_contract (fst tool) = c" "pt_function (fst tool) = f" "snd tool = return_mode"
    using protect_tool_Inr[OF made] by auto
  note req' = req[folded tool(1)] and name' = name[folded tool(1)]
    and a' = a[folded tool(2)] and b' = b[folded tool(2)] and keyed = facade_runtime_keys[OF mem]
  obtain r where r: "call_protected L object_str ac (fst tool) args kwargs s = (Inr r, t)"
    and v: "v = serialize_result L r return_mode"
    using first by (auto simp: call_tool_Inr tool)
  obtain r' where r': "call_protected L object_str ac (fst tool) args' kwargs' (run_requests L requests t) = (Inr r', u)"
    and v': "v' = serialize_result L r' return_mode"
    using again by (auto simp: call_tool_Inr tool)
  have "calls (snd (call_protected L object_str ac (fst tool) args kwargs s)) \<noteq> calls s"
    using r ran by simp
  then obtain k where k: "create_key L (tc_name (pt_contract (fst tool))) a (key_fields (fst tool)) = Inr k"
    "ShortText L k = Some k" by (rule called_has_key[OF doc req' name' a'])
  then have k': "create_key L (tc_name (pt_contract (fst tool))) b (key_fields (fst tool)) = Inr k"
    using create_key_cong[of "key_fields (fst tool)" a b] agree by metis
  obtain action x s1 where 1: "execute L (facade_runtime ac) action x s1 = (Inr r, t)"
    "beyond s1 = beyond s" "ai_idempotency_key action = Some k"
    using doc req' name' a' k(1) by (cases rule: keyed_call[where ac = ac and s = s]) (use r in auto)
  obtain action' x' s2 where 2: "execute L (facade_runtime ac) action' x' s2 = (Inr r', u)"
    "beyond s2 = beyond (run_requests L requests t)" "ai_idempotency_key action' = Some k"
    using doc req' name' b' k'
    by (cases rule: keyed_call[where ac = ac and s = "run_requests L requests t"]) (use r' in auto)
  have backend: "rt_idempotency (facade_runtime ac) = InMemoryIdempotencyBackend clk"
    by (simp add: facade_runtime_def SingleActionRuntime_def mem)
  have "calls t \<noteq> calls s1" using ran same_execution(1)[OF 1(2)] by simp
  then obtain q where "records (run_requests L requests t) k = Some q"
    "decode_execution_result L (ir_result q) = Inr r"
    using run_records_result[OF ser backend 1(1) _ 1(3) k(2)] by blast
  then have "calls u = calls s2 \<and> (er_succeeded r' \<longrightarrow> r' = r)"
    using recorded_key_replays[OF backend 2(3) _ _ 2(1)] same_execution(2)[OF 2(2)] by simp
  then show ?thesis using v v' same_execution(1)[OF 2(2)] by auto
qed

lemma refund_returns:
  obtains r t where "refund_call [(''trace'', PyInt i)] (sample_state ()) = (Inr r, t)"
    and "calls t \<noteq> calls (sample_state ())"
    and "\<exists>u. refund_call [(''trace'', PyInt j)] t = (Inr r, u)"
proof -
  obtain k where k: "create_key sample_rt_libs ''refund'' (refund_arguments i) [''amount''] = Inr k"
    "ShortText sample_rt_libs k = Some k" using refund_key by blast
  have "create_key sample_rt_libs ''refund'' (refund_arguments i) [''amount''] =
      create_key sample_rt_libs ''refund'' (refund_arguments j) [''amount'']"
    by (rule create_key_cong) (simp add: dict_get_def)
  with k(1) have kj: "create_key sample_rt_libs ''refund'' (refund_arguments j) [''amount''] = Inr k" by simp
  obtain action where run: "refund_call [(''trace'', PyInt i)] (sample_state ()) =
      execute sample_rt_libs refund_runtime action [] ((sample_state ())\<lparr>drawn := 1, tick := 1\<rparr>)"
    and parts: "ai_tool_name action = ''refund''" "ai_arguments action = refund_arguments i"
    "ai_idempotency_key action = Some k"
    using refund_executes[OF k(1), of "sample_state ()"] by (auto simp: sample_state_def)
  let ?s1 = "(sample_state ())\<lparr>drawn := 1, tick := 1\<rparr> :: unit idem_world"
  have called: "calls (snd (execute sample_rt_libs refund_runtime action [] ?s1)) \<noteq> calls ?s1"
    using refund_runs[of i] unfolding run by (simp add: sample_state_def)
  have body: "fst (rg_handler refund_registered (ai_arguments action) e) = Returned (PyInt 5)" for e
    by (simp add: parts function_handler_def signature_bind_def bind_rest_def keyword_arguments_def
        refund_function_def default_of_def)
  obtain held u r t where rt: "execute sample_rt_libs refund_runtime action [] ?s1 = (Inr r, t)"
    by (rule handler_called_returns[OF sample_rt_libs_documented sample_serializer_documented
          sample_runtime_parts(1)[of MEDIUM "[]" "function_handler refund_function"],
          where tool = refund_registered and a = action and s = ?s1 and x = "[]"])
      (use parts k(2) called body refund_output(1) refund_registry in \<open>auto simp: mono_def\<close>)
  have "calls t \<noteq> calls ?s1" using called rt by simp
  then obtain q where q: "records t k = Some q" "ir_status q = COMPLETED" "ir_result q = model_dump sample_rt_libs r"
    using run_completes_key[OF rt _ parts(3) k(2) sample_runtime_parts(1)] by blast
  have "calls (snd (execute sample_rt_libs refund_runtime action [] ?s1)) \<noteq> calls ?s1" by (rule called)
  then obtain q' where "records (run_requests sample_rt_libs [] t) k = Some q'"
    and dec: "decode_execution_result sample_rt_libs (ir_result q') = Inr r"
    using run_records_result[OF sample_serializer_documented sample_runtime_parts(1) rt _ parts(3) k(2), of "[]"] rt
    by auto
  with q have dec: "decode_execution_result sample_rt_libs (ir_result q) = Inr r" by simp
  have some: "ir_result q \<noteq> PyNone" by (simp add: q(3) sample_rt_libs_def sample_dump_def)
  obtain again where run2: "refund_call [(''trace'', PyInt j)] t =
      execute sample_rt_libs refund_runtime again [] (t\<lparr>drawn := Suc (drawn t), tick := Suc (tick t)\<rparr>)"
    and parts2: "ai_tool_name again = ''refund''" "ai_arguments again = refund_arguments j"
    "ai_idempotency_key again = Some k" "action_matches_contract again (sample_contract MEDIUM)"
    using refund_executes[OF kj, of t] by blast
  have "\<exists>u. execute sample_rt_libs refund_runtime again [] (t\<lparr>drawn := Suc (drawn t), tick := Suc (tick t)\<rparr>) =
      (Inr r, u) \<and> calls u = calls (t\<lparr>drawn := Suc (drawn t), tick := Suc (tick t)\<rparr>) \<and>
      records u = records (t\<lparr>drawn := Suc (drawn t), tick := Suc (tick t)\<rparr>)"
    by (rule recorded_key_returned[OF sample_rt_libs_documented sample_runtime_parts(2,1),
          where tool = refund_registered and q = q])
      (use parts2 q(1,2) dec some refund_conforms refund_allowed[OF parts2(4)] refund_registry in simp_all)
  then show thesis using run run2 rt \<open>calls t \<noteq> calls ?s1\<close> by (intro that[of r t]) (auto simp: sample_state_def)
qed

theorem langgraph_retry_same_value_witness:
  "\<exists>v t u. call_tool sample_rt_libs (\<lambda>_. []) sample_facade (refund_tool, ''output'') [PyInt 5]
       [(''trace'', PyInt 1)] (sample_state ()) = (Inr v, t) \<and> calls t \<noteq> calls (sample_state ()) \<and>
     call_tool sample_rt_libs (\<lambda>_. []) sample_facade (refund_tool, ''output'') [PyInt 5]
       [(''trace'', PyInt 2)] t = (Inr v, u) \<and> calls u = calls t"
proof -
  obtain r t u where first: "refund_call [(''trace'', PyInt 1)] (sample_state ()) = (Inr r, t)"
    and ran: "calls t \<noteq> calls (sample_state ())"
    and again: "refund_call [(''trace'', PyInt 2)] t = (Inr r, u)"
    using refund_returns[of 1 2] by blast
  let ?v = "serialize_result sample_rt_libs r ''output''"
  have 1: "call_tool sample_rt_libs (\<lambda>_. []) sample_facade (refund_tool, ''output'') [PyInt 5]
       [(''trace'', PyInt 1)] (sample_state ()) = (Inr ?v, t)"
    and 2: "call_tool sample_rt_libs (\<lambda>_. []) sample_facade (refund_tool, ''output'') [PyInt 5]
       [(''trace'', PyInt 2)] (run_requests sample_rt_libs [] t) = (Inr ?v, u)"
    using first again by (simp_all add: call_tool_Inr)
  have made: "protect_tool (sample_contract MEDIUM) (Some [''amount'']) None ''output'' (Some refund_function)
      (AgentActum int None None None None None [] [] None) =
    (Inr (refund_tool, ''output''), sample_facade)"
    by (simp add: protect_tool_def bindM_def refund_protected)
  have "calls u = calls (run_requests sample_rt_libs [] t)"
  proof (rule langgraph_retry_same_value[OF sample_serializer_documented sample_rt_libs_documented made
        _ _ _ _ _ _ 1 ran 2, THEN conjunct1])
    show "ac_idempotency_backend sample_facade = InMemoryIdempotencyBackend int"
      by (simp add: sample_facade_def AgentActum_def)
    show "tc_idempotency_key_required (sample_contract MEDIUM)"
      "DomainName sample_rt_libs (tc_name (sample_contract MEDIUM)) = Some (tc_name (sample_contract MEDIUM))"
      using refund_name by (simp_all add: sample_contract_def)
    show "bind_json_arguments sample_rt_libs (\<lambda>_. []) (fn_parameters refund_function) [PyInt 5]
        [(''trace'', PyInt i)] = Inr (refund_arguments i)" for i
      using refund_binds[of i] by (simp add: refund_tool_def)
    then show "bind_json_arguments sample_rt_libs (\<lambda>_. []) (fn_parameters refund_function) [PyInt 5]
        [(''trace'', PyInt 2)] = Inr (refund_arguments 2)" .
  qed (simp add: key_fields_def refund_tool_def dict_get_def)
  with 1 2 ran show ?thesis by auto
qed

end
