(* ===== verification/Threads.thy ===== *)
theory Threads
  imports World
begin

text \<open>
  Threads over a shared state. A thread is what remains to be done: the result it ended with,
  or its next atomic step, which changes the state and leaves the rest of the thread. A
  schedule is a list of thread numbers; each entry lets that thread make one step. Between two
  steps of one thread any number of steps of the others may come.
\<close>

section \<open>Threads\<close>

datatype ('s, 'a) thread =
  Ended "'a result"
| Pending "'s \<Rightarrow> ('s, 'a) thread \<times> 's"

definition retT :: "'a \<Rightarrow> ('s, 'a) thread" where
  "retT x = Ended (Inr x)"

definition liftT :: "'a result \<Rightarrow> ('s, 'a) thread" where
  "liftT r = Ended r"

text \<open>An action that runs under a lock, or a call of a user's callable: one step.\<close>

definition atomic :: "('s, 'a) action \<Rightarrow> ('s, 'a) thread" where
  "atomic m = Pending (\<lambda>s. map_prod Ended id (m s))"

primrec bindT :: "('s, 'a) thread \<Rightarrow> ('a \<Rightarrow> ('s, 'b) thread) \<Rightarrow> ('s, 'b) thread" where
  "bindT (Ended r) f = (case r of Inl e \<Rightarrow> Ended (Inl e) | Inr x \<Rightarrow> f x)"
| "bindT (Pending m) f = Pending (map_prod (\<lambda>t. bindT t f) id \<circ> m)"

primrec tryT :: "('s, 'a) thread \<Rightarrow> ('s, 'a option) thread" where
  "tryT (Ended r) = Ended (Inr (case r of Inl _ \<Rightarrow> None | Inr x \<Rightarrow> Some x))"
| "tryT (Pending m) = Pending (map_prod tryT id \<circ> m)"

lemma Pending_fst_snd:
  "bindT (Pending m) f = Pending (\<lambda>s. (bindT (fst (m s)) f, snd (m s)))"
  "tryT (Pending m) = Pending (\<lambda>s. (tryT (fst (m s)), snd (m s)))"
  "atomic n = Pending (\<lambda>s. (Ended (fst (n s)), snd (n s)))"
  by (simp_all add: atomic_def map_prod_def split_def comp_def)

lemma thread_induct [case_names Ended Pending]:
  assumes "\<And>r. P (Ended r)" and "\<And>m. (\<And>s. P (fst (m s))) \<Longrightarrow> P (Pending m)"
  shows "P t"
  using assms by (induction t) (metis fsts.intros prod.collapse rangeI)+

lemma bindT_basic [simp]:
  "bindT (retT x) f = f x"
  "bindT (liftT (Inl e)) f = Ended (Inl e)"
  "bindT (liftT (Inr x)) f = f x"
  by (simp_all add: retT_def liftT_def)

section \<open>A thread alone\<close>

text \<open>Without interruption a thread is an action.\<close>

primrec run_thread :: "('s, 'a) thread \<Rightarrow> ('s, 'a) action" where
  "run_thread (Ended r) = Pair r"
| "run_thread (Pending m) = (\<lambda>s. (\<lambda>(go, s'). go s') ((map_prod run_thread id \<circ> m) s))"

lemma run_thread_Pending: "run_thread (Pending m) s = run_thread (fst (m s)) (snd (m s))"
  by (simp add: map_prod_def split_def)

declare run_thread.simps(2) [simp del] bindT.simps(2) [simp del] tryT.simps(2) [simp del]

lemma bindT_assoc: "bindT (bindT t f) g = bindT t (\<lambda>x. bindT (f x) g)"
  by (induction t rule: thread_induct) (auto simp: Pending_fst_snd split: sum.split)

lemma bindT_retT: "bindT t retT = t"
proof (induction t rule: thread_induct)
  case (Ended r)
  then show ?case by (cases r) (simp_all add: retT_def)
next
  case (Pending m)
  then show ?case by (simp add: Pending_fst_snd)
qed

lemma run_thread_basic [simp]:
  "run_thread (retT x) = retM x"
  "run_thread (liftT r) = liftM r"
  "run_thread (atomic m) = m"
  by (simp_all add: fun_eq_iff retT_def liftT_def Pending_fst_snd run_thread_Pending)

lemma run_thread_bindT [simp]: "run_thread (bindT t f) = bindM (run_thread t) (\<lambda>x. run_thread (f x))"
proof (induction t rule: thread_induct)
  case (Ended r)
  then show ?case by (cases r) (simp_all add: fun_eq_iff bindM_def)
next
  case (Pending m)
  then show ?case by (simp add: fun_eq_iff bindM_cases Pending_fst_snd run_thread_Pending)
qed

lemma run_thread_tryT [simp]: "run_thread (tryT t) = tryM (run_thread t)"
proof (induction t rule: thread_induct)
  case (Ended r)
  then show ?case by (cases r) (simp_all add: fun_eq_iff tryM_def)
next
  case (Pending m)
  then show ?case by (simp add: fun_eq_iff tryM_def Pending_fst_snd run_thread_Pending)
qed

section \<open>Schedules\<close>

type_synonym ('s, 'a) pool = "('s, 'a) thread list \<times> 's"

definition thread_step :: "nat \<Rightarrow> ('s, 'a) pool \<Rightarrow> ('s, 'a) pool" where
  "thread_step i p =
     (if i < length (fst p) then
        (case fst p ! i of
           Ended _ \<Rightarrow> p
         | Pending m \<Rightarrow> (case m (snd p) of (t, s) \<Rightarrow> ((fst p)[i := t], s)))
      else p)"

definition run_schedule :: "nat list \<Rightarrow> ('s, 'a) pool \<Rightarrow> ('s, 'a) pool" where
  "run_schedule = fold thread_step"

lemma run_schedule_simps [simp]:
  "run_schedule [] p = p"
  "run_schedule (i # is) p = run_schedule is (thread_step i p)"
  "run_schedule (is @ js) p = run_schedule js (run_schedule is p)"
  by (simp_all add: run_schedule_def)

lemma thread_step_length [simp]: "length (fst (thread_step i p)) = length (fst p)"
  by (auto simp: thread_step_def split: thread.split prod.split)

lemma run_schedule_length [simp]: "length (fst (run_schedule is p)) = length (fst p)"
  by (induction "is" arbitrary: p) simp_all

lemma thread_step_other: "j \<noteq> i \<Longrightarrow> fst (thread_step i p) ! j = fst p ! j"
  by (simp add: thread_step_def split: thread.split prod.split)

text \<open>The threads of a pool one after the other, each to its end.\<close>

primrec run_in_turn :: "('s, 'a) thread list \<Rightarrow> 's \<Rightarrow> 'a result list \<times> 's" where
  "run_in_turn [] s = ([], s)"
| "run_in_turn (t # ts) s =
     (case run_thread t s of (r, s') \<Rightarrow> (case run_in_turn ts s' of (rs, s'') \<Rightarrow> (r # rs, s'')))"

lemma thread_alone:
  "\<exists>n. run_schedule (replicate n (length us)) (us @ t # ts, s) =
     (us @ Ended (fst (run_thread t s)) # ts, snd (run_thread t s))"
proof (induction t arbitrary: s rule: thread_induct)
  case (Ended r)
  show ?case by (rule exI[of _ 0]) simp
next
  case (Pending m)
  from Pending[of s "snd (m s)"] obtain n where
    "run_schedule (replicate n (length us)) (us @ fst (m s) # ts, snd (m s)) =
      (us @ Ended (fst (run_thread (Pending m) s)) # ts, snd (run_thread (Pending m) s))"
    by (auto simp: run_thread_Pending)
  then show ?case by (intro exI[of _ "Suc n"]) (simp add: thread_step_def split_def)
qed

text \<open>One after the other is one of the schedules.\<close>

lemma in_turn_scheduled:
  "\<exists>is. run_schedule is (map Ended rs @ ts, s) =
     (map Ended (rs @ fst (run_in_turn ts s)), snd (run_in_turn ts s))"
proof (induction ts arbitrary: rs s)
  case Nil
  show ?case by (rule exI[of _ "[]"]) simp
next
  case (Cons t ts)
  obtain r s' where t: "run_thread t s = (r, s')" by (cases "run_thread t s")
  obtain n where "run_schedule (replicate n (length rs)) (map Ended rs @ t # ts, s) =
      (map Ended (rs @ [r]) @ ts, s')"
    using thread_alone[of "map Ended rs" t ts s] t by auto
  moreover obtain "is" where "run_schedule is (map Ended (rs @ [r]) @ ts, s') =
      (map Ended ((rs @ [r]) @ fst (run_in_turn ts s')), snd (run_in_turn ts s'))"
    using Cons.IH[of "rs @ [r]" s'] by blast
  ultimately show ?case
    using t by (intro exI[of _ "replicate n (length rs) @ is"]) (simp split: prod.split)
qed

section \<open>What every step of a thread does\<close>

text \<open>\<open>obeys R t\<close>: whatever the others do between its steps, each step of \<open>t\<close> is related by \<open>R\<close>.\<close>

inductive obeys :: "('s \<Rightarrow> 's \<Rightarrow> bool) \<Rightarrow> ('s, 'a) thread \<Rightarrow> bool" for R where
  Ended: "obeys R (Ended r)"
| Pending: "(\<And>s. R s (snd (m s))) \<Longrightarrow> (\<And>s. obeys R (fst (m s))) \<Longrightarrow> obeys R (Pending m)"

inductive_cases obeys_PendingE: "obeys R (Pending m)"

lemma obeys_basic: "obeys R (retT x)" "obeys R (liftT r)"
  by (simp_all add: retT_def liftT_def obeys.Ended)

lemma obeys_atomic: "along R m \<Longrightarrow> obeys R (atomic m)"
  by (auto simp: Pending_fst_snd along_def intro!: obeys.intros)

lemma obeys_bindT: "obeys R t \<Longrightarrow> (\<And>x. obeys R (f x)) \<Longrightarrow> obeys R (bindT t f)"
  by (induction rule: obeys.induct) (auto simp: Pending_fst_snd intro: obeys.intros split: sum.split)

lemma obeys_tryT: "obeys R t \<Longrightarrow> obeys R (tryT t)"
  by (induction rule: obeys.induct) (auto simp: Pending_fst_snd intro: obeys.intros)

lemma obeys_cases:
  "(c \<Longrightarrow> obeys R t) \<Longrightarrow> (\<not> c \<Longrightarrow> obeys R u) \<Longrightarrow> obeys R (if c then t else u)"
  "(x = None \<Longrightarrow> obeys R t) \<Longrightarrow> (\<And>y. x = Some y \<Longrightarrow> obeys R (f y)) \<Longrightarrow>
     obeys R (case x of None \<Rightarrow> t | Some y \<Rightarrow> f y)"
  "(\<And>a. z = Inl a \<Longrightarrow> obeys R (g a)) \<Longrightarrow> (\<And>b. z = Inr b \<Longrightarrow> obeys R (h b)) \<Longrightarrow>
     obeys R (case z of Inl a \<Rightarrow> g a | Inr b \<Rightarrow> h b)"
  "(\<And>v. obeys R (k v)) \<Longrightarrow> obeys R (let v = w in k v)"
  by (auto split: option.split sum.split)

lemmas obeys_intros = obeys_basic obeys_bindT obeys_tryT obeys_cases

text \<open>\<open>returns Q t\<close>: whatever the others do, the value \<open>t\<close> returns satisfies \<open>Q\<close>.\<close>

inductive returns :: "('a \<Rightarrow> bool) \<Rightarrow> ('s, 'a) thread \<Rightarrow> bool" for Q where
  Ended: "(\<And>x. r = Inr x \<Longrightarrow> Q x) \<Longrightarrow> returns Q (Ended r)"
| Pending: "(\<And>s. returns Q (fst (m s))) \<Longrightarrow> returns Q (Pending m)"

inductive_cases returns_EndedE: "returns Q (Ended r)"
inductive_cases returns_PendingE: "returns Q (Pending m)"

lemma returns_atomic: "(\<And>s x s'. m s = (Inr x, s') \<Longrightarrow> Q x) \<Longrightarrow> returns Q (atomic m)"
  unfolding Pending_fst_snd by (auto intro!: returns.intros) (metis prod.collapse)

lemma returns_any: "returns (\<lambda>_. True) t"
  by (induction t rule: thread_induct) (auto intro: returns.intros)

lemma obeys_bind_returns:
  assumes "obeys R t" and "returns Q t" and "\<And>x. Q x \<Longrightarrow> obeys R (f x)"
  shows "obeys R (bindT t f)"
  using assms(1,2)
proof (induction rule: obeys.induct)
  case (Ended r)
  then show ?case
    using assms(3) by (cases r) (auto elim!: returns_EndedE intro: obeys.Ended)
next
  case (Pending m)
  then show ?case
    unfolding Pending_fst_snd by (intro obeys.Pending) (auto elim: returns_PendingE)
qed

lemma obeys_mono: "obeys R t \<Longrightarrow> (\<And>s s'. R s s' \<Longrightarrow> Q s s') \<Longrightarrow> obeys Q t"
  by (induction rule: obeys.induct) (auto intro: obeys.intros)

lemma thread_step_obeys:
  assumes "list_all (obeys R) (fst p)" and "\<And>s. R s s"
  shows "list_all (obeys R) (fst (thread_step i p)) \<and> R (snd p) (snd (thread_step i p))"
proof (cases "i < length (fst p)")
  case i: True
  show ?thesis
  proof (cases "fst p ! i")
    case (Pending m)
    then have "obeys R (Pending m)" using assms(1) i by (metis list_all_length)
    then have m: "R s (snd (m s))" "obeys R (fst (m s))" for s by (auto elim: obeys_PendingE)
    have "list_all (obeys R) ((fst p)[i := fst (m (snd p))])"
      using assms(1) m(2) i by (auto simp: list_all_length nth_list_update)
    with Pending i m(1)[of "snd p"] show ?thesis by (simp add: thread_step_def split_def)
  qed (use assms i in \<open>simp add: thread_step_def\<close>)
qed (use assms in \<open>simp add: thread_step_def\<close>)

context evolution
begin

lemma alone: "obeys R t \<Longrightarrow> along R (run_thread t)"
  unfolding along_def
proof (induction rule: obeys.induct)
  case (Pending m)
  show ?case
  proof
    fix s
    have "R (snd (m s)) (snd (run_thread (fst (m s)) (snd (m s))))" using Pending.IH[of s] by (rule spec)
    with Pending.hyps(1)[of s] show "R s (snd (run_thread (Pending m) s))"
      unfolding run_thread_Pending by (rule trans)
  qed
qed (simp add: refl)

lemma scheduled:
  "list_all (obeys R) (fst p) \<Longrightarrow> R (snd p) (snd (run_schedule is p))"
proof (induction "is" arbitrary: p)
  case (Cons i "is")
  have "list_all (obeys R) (fst (thread_step i p)) \<and> R (snd p) (snd (thread_step i p))"
    by (rule thread_step_obeys[OF Cons.prems]) (rule refl)
  with Cons.IH[of "thread_step i p"] show ?case by (auto intro: trans)
qed (simp add: refl)

end

end
