(* ===== verification/Credits.thy ===== *)
theory Credits
  imports Threads
begin

text \<open>
  Counting the effectful calls of interleaved threads. A thread may call only on credit, which
  some of its steps earn: the creation of an idempotency record, the recording of an audit
  event. The calls that the chosen threads of a pool make along a schedule are then bounded by
  the credit they earn along it.
\<close>

section \<open>The calls of a thread\<close>

text \<open>
  \<open>spends c n t\<close>: whatever the others do, each step of \<open>t\<close> makes no more effectful calls than
  the \<open>n\<close> it has left and what \<open>c\<close> grants for the step, and leaves the rest to the rest of \<open>t\<close>.
\<close>

inductive spends ::
  "(('e, 'y) world_scheme \<Rightarrow> ('e, 'y) world_scheme \<Rightarrow> nat) \<Rightarrow> nat \<Rightarrow> (('e, 'y) world_scheme, 'a) thread \<Rightarrow> bool"
  for c where
  Ended: "spends c n (Ended r)"
| Pending: "(\<And>s. spends c (left s) (fst (m s))) \<Longrightarrow>
    (\<And>s. left s + (length (calls (snd (m s))) - length (calls s)) \<le> n + c s (snd (m s))) \<Longrightarrow>
    spends c n (Pending m)"

inductive_cases spends_PendingE: "spends c n (Pending m)"

abbreviation quiet :: "('e, 'y) world_scheme \<Rightarrow> ('e, 'y) world_scheme \<Rightarrow> bool" where
  "quiet \<equiv> (\<lambda>s t. calls t = calls s)"

lemma quiet_spends: "obeys quiet t \<Longrightarrow> spends c n t"
proof (induction rule: obeys.induct)
  case (Pending m)
  then show ?case by (intro spends.Pending[where left = "\<lambda>_. n"]) simp_all
qed (rule spends.Ended)

lemma quiet_then: "obeys quiet t \<Longrightarrow> (\<And>x. spends c n (f x)) \<Longrightarrow> spends c n (bindT t f)"
proof (induction rule: obeys.induct)
  case (Pending m)
  then show ?case
    unfolding Pending_fst_snd by (intro spends.Pending[where left = "\<lambda>_. n"]) simp_all
qed (auto intro: spends.Ended split: sum.split)

text \<open>A quiet step that earns one call in those of its outcomes that lead to a call.\<close>

lemma earning_then:
  assumes "keeps calls m" and "\<And>s x t. m s = (Inr x, t) \<Longrightarrow> E x \<Longrightarrow> c s t = 1"
    and "\<And>x. E x \<Longrightarrow> spends c 1 (f x)" and "\<And>x. \<not> E x \<Longrightarrow> spends c 0 (f x)"
  shows "spends c 0 (bindT (atomic m) f)"
  unfolding Pending_fst_snd
proof (rule spends.Pending[where left = "\<lambda>s. case fst (m s) of Inl _ \<Rightarrow> 0 | Inr x \<Rightarrow> if E x then 1 else 0"], goal_cases)
  case (1 s)
  show ?case using assms(3,4) by (auto intro: spends.Ended split: sum.split)
next
  case (2 s)
  then show ?case
    using assms(2)[of s] keeps_snd[OF assms(1), of s] by (cases "m s") (auto split: sum.split)
qed

lemma spends_mono: "spends c n t \<Longrightarrow> n \<le> n' \<Longrightarrow> spends c n' t"
proof (induction arbitrary: n' rule: spends.induct)
  case (Pending left m n)
  then show ?case by (intro spends.Pending[where left = left]) (auto intro: order_trans[OF Pending.hyps(2)])
qed (rule spends.Ended)

lemma spends_grants: "spends c n t \<Longrightarrow> (\<And>s t. c s t \<le> c' s t) \<Longrightarrow> spends c' n t"
proof (induction rule: spends.induct)
  case (Pending left m n)
  then show ?case by (intro spends.Pending[where left = left]) (auto intro: order_trans[OF Pending.hyps(2)])
qed (rule spends.Ended)

lemma spends_then: "spends c k t \<Longrightarrow> (\<And>x. spends c n (f x)) \<Longrightarrow> spends c (k + n) (bindT t f)"
proof (induction rule: spends.induct)
  case (Ended k r)
  then show ?case by (cases r) (auto intro: spends.Ended spends_mono[where n = n])
next
  case (Pending left m k)
  then show ?case
    unfolding Pending_fst_snd by (intro spends.Pending[where left = "\<lambda>s. left s + n"]) (simp_all add: add.assoc add.commute add.left_commute)
qed

lemma spends_tryT: "spends c n t \<Longrightarrow> spends c n (tryT t)"
proof (induction rule: spends.induct)
  case (Pending left m n)
  then show ?case unfolding Pending_fst_snd by (intro spends.Pending[where left = left]) simp_all
qed (simp add: spends.Ended)

lemma spends_cases:
  "(b \<Longrightarrow> spends c n t) \<Longrightarrow> (\<not> b \<Longrightarrow> spends c n u) \<Longrightarrow> spends c n (if b then t else u)"
  "(x = None \<Longrightarrow> spends c n t) \<Longrightarrow> (\<And>y. x = Some y \<Longrightarrow> spends c n (f y)) \<Longrightarrow>
     spends c n (case x of None \<Rightarrow> t | Some y \<Rightarrow> f y)"
  "(\<And>a. z = Inl a \<Longrightarrow> spends c n (g a)) \<Longrightarrow> (\<And>b. z = Inr b \<Longrightarrow> spends c n (h b)) \<Longrightarrow>
     spends c n (case z of Inl a \<Rightarrow> g a | Inr b \<Rightarrow> h b)"
  "(\<And>v. spends c n (l v)) \<Longrightarrow> spends c n (let v = w in l v)"
  by (auto split: option.split sum.split)

section \<open>The calls of a pool\<close>

text \<open>What the chosen threads add to a measure of the state along a schedule.\<close>

fun total :: "('s \<Rightarrow> 's \<Rightarrow> nat) \<Rightarrow> (nat \<Rightarrow> bool) \<Rightarrow> nat list \<Rightarrow> ('s, 'a) pool \<Rightarrow> nat" where
  "total c P [] p = 0"
| "total c P (i # is) p =
     (if P i then c (snd p) (snd (thread_step i p)) else 0) + total c P is (thread_step i p)"

fun calls_made :: "(nat \<Rightarrow> bool) \<Rightarrow> nat list \<Rightarrow> (('e, 'y) world_scheme, 'a) pool \<Rightarrow> nat" where
  "calls_made P [] p = 0"
| "calls_made P (i # is) p =
     (if P i then length (calls (snd (thread_step i p))) - length (calls (snd p)) else 0) +
     calls_made P is (thread_step i p)"

lemma length_calls: "length (calls (snd (run_schedule is p))) \<le> length (calls (snd p)) + calls_made (\<lambda>_. True) is p"
proof (induction "is" arbitrary: p)
  case (Cons i "is")
  from Cons.IH[of "thread_step i p"] show ?case
    unfolding calls_made.simps run_schedule_simps if_True by linarith
qed simp

definition accounted ::
  "(('e, 'y) world_scheme \<Rightarrow> ('e, 'y) world_scheme \<Rightarrow> nat) \<Rightarrow> (nat \<Rightarrow> bool) \<Rightarrow> (nat \<Rightarrow> nat) \<Rightarrow>
   (('e, 'y) world_scheme, 'a) pool \<Rightarrow> bool" where
  "accounted c P n p \<longleftrightarrow> (\<forall>i < length (fst p). P i \<longrightarrow> spends c (n i) (fst p ! i))"

lemma spends_step:
  assumes "spends c n (Pending m)"
  shows "\<exists>l. spends c l (fst (m s)) \<and>
    l + (length (calls (snd (m s))) - length (calls s)) \<le> n + c s (snd (m s))"
  using assms by (rule spends_PendingE) blast

lemma accounted_step:
  assumes "accounted c P n p"
  obtains n' where "accounted c P n' (thread_step i p)"
    and "(\<Sum>j | j < length (fst p) \<and> P j. n' j) +
      (if P i then length (calls (snd (thread_step i p))) - length (calls (snd p)) else 0) \<le>
      (\<Sum>j | j < length (fst p) \<and> P j. n j) + (if P i then c (snd p) (snd (thread_step i p)) else 0)"
proof -
  let ?q = "thread_step i p" and ?I = "{j. j < length (fst p) \<and> P j}"
  show thesis
  proof (cases "i < length (fst p) \<and> P i \<and> (\<exists>m. fst p ! i = Pending m)")
    case False
    then have same: "?q = p \<or> \<not> P i" by (auto simp: thread_step_def split: thread.split)
    then have "accounted c P n ?q"
      using assms thread_step_other[of _ i p] unfolding accounted_def by (metis thread_step_length)
    then show thesis using same by (intro that[of n]) auto
  next
    case True
    then obtain m where i: "i < length (fst p)" "P i" and Pending: "fst p ! i = Pending m" by blast
    let ?t = "snd (m (snd p))"
    have q: "?q = ((fst p)[i := fst (m (snd p))], ?t)"
      using i Pending by (simp add: thread_step_def split_def)
    have "spends c (n i) (Pending m)" using assms i Pending by (auto simp: accounted_def)
    then obtain l where left: "spends c l (fst (m (snd p)))"
      "l + (length (calls ?t) - length (calls (snd p))) \<le> n i + c (snd p) ?t"
      using spends_step by blast
    let ?n = "n(i := l)"
    have "accounted c P ?n ?q"
      using assms left(1) i by (auto simp: accounted_def q nth_list_update)
    moreover have "(\<Sum>j\<in>?I. n j) = n i + (\<Sum>j\<in>?I - {i}. n j)"
      using i by (intro sum.remove) auto
    moreover have "(\<Sum>j\<in>?I. ?n j) = l + (\<Sum>j\<in>?I - {i}. n j)"
      using i by (subst sum.remove[of _ i]) (auto intro: sum.cong)
    ultimately show thesis using left(2) i by (intro that[of ?n]) (simp_all add: q)
  qed
qed

lemma calls_on_credit:
  "accounted c P n p \<Longrightarrow> calls_made P is p \<le> (\<Sum>j | j < length (fst p) \<and> P j. n j) + total c P is p"
proof (induction "is" arbitrary: n p)
  case (Cons i "is")
  obtain n' where n': "accounted c P n' (thread_step i p)"
    "(\<Sum>j | j < length (fst p) \<and> P j. n' j) +
      (if P i then length (calls (snd (thread_step i p))) - length (calls (snd p)) else 0) \<le>
      (\<Sum>j | j < length (fst p) \<and> P j. n j) + (if P i then c (snd p) (snd (thread_step i p)) else 0)"
    by (rule accounted_step[OF Cons.prems])
  from Cons.IH[OF n'(1)] n'(2) show ?case by simp
qed simp

text \<open>
  A measure that only grows, by at least the credit a step grants, bounds the credit granted
  along a schedule.
\<close>

lemma total_bound:
  assumes "list_all (obeys R) (fst p)" and "\<And>s. R s s"
    and "\<And>s t. R s t \<Longrightarrow> c s t + (f s :: nat) \<le> f t"
  shows "total c P is p + f (snd p) \<le> f (snd (run_schedule is p))"
  using assms(1)
proof (induction "is" arbitrary: p)
  case (Cons i "is")
  have step: "list_all (obeys R) (fst (thread_step i p))" "R (snd p) (snd (thread_step i p))"
    using thread_step_obeys[OF Cons.prems assms(2)] by simp_all
  from Cons.IH[OF step(1)] assms(3)[OF step(2)] show ?case by simp
qed simp

end
