(* ===== verification/Runtime_Threads.thy ===== *)
theory Runtime_Threads
  imports Credits Runtime_Safety
begin

text \<open>
  \<^verbatim>\<open>execute\<close> run by several threads at once over the same services. The stages of the runtime
  are written once more, as threads whose steps are what Python makes atomic here: a method of
  an in-memory service, which runs under its lock, one reading of a clock, one drawn
  identifier, and one call of a user's callable. A handler call is two steps, its start and
  the call. Alone, such a thread is the method \<open>execute\<close> of the other theories.
\<close>

section \<open>The pieces\<close>

fun evaluate_loop_thread ::
  "'z libs_scheme \<Rightarrow> 'e policy list \<Rightarrow> action_intent \<Rightarrow> tool_contract \<Rightarrow> json_object \<Rightarrow>
   policy_decision list \<Rightarrow> (('e, 'y) world_scheme, policy_decision) thread" where
  "evaluate_loop_thread L [] action contract context decisions = atomic (compose L action contract decisions)"
| "evaluate_loop_thread L (p # ps) action contract context decisions =
     bindT (tryT (atomic (policy_evaluate L p action contract context))) (\<lambda>answer.
     case answer of
       None \<Rightarrow> atomic (engine_denial L action contract ''Policy evaluation failed closed.'')
     | Some NotADecision \<Rightarrow> atomic (engine_denial L action contract ''Policy returned an invalid decision.'')
     | Some (Decision d) \<Rightarrow>
         if pd_intent_id d \<noteq> ai_intent_id action then
           atomic (engine_denial L action contract ''Policy decision was bound to the wrong action intent.'')
         else evaluate_loop_thread L ps action contract context (decisions @ [d]))"

definition evaluate_thread ::
  "'z libs_scheme \<Rightarrow> 'e policy list \<Rightarrow> action_intent \<Rightarrow> tool_contract option \<Rightarrow> json_object \<Rightarrow>
   (('e, 'y) world_scheme, policy_decision) thread" where
  "evaluate_thread L policies action contract context =
     (case contract of
        None \<Rightarrow>
          atomic (decision L action DENY CRITICAL ''policy_engine''
            (''Unknown tool denied: '' @ ai_tool_name action @ ''.'') [])
      | Some c \<Rightarrow>
          if \<not> action_matches_contract action c then
            atomic (engine_denial L action c ''Action intent does not match the supplied contract.'')
          else evaluate_loop_thread L policies action c context [])"

fun checks_thread ::
  "'e runtime_check list \<Rightarrow> action_intent \<Rightarrow> tool_contract \<Rightarrow> json_object \<Rightarrow>
   (('e, 'y) world_scheme, bool) thread" where
  "checks_thread [] action contract context = retT True"
| "checks_thread (check # checks) action contract context =
     bindT (tryT (atomic (call_user (check action contract context)))) (\<lambda>passed.
     if passed = Some True then checks_thread checks action contract context else retT False)"

definition call_handler_thread ::
  "'e registered_tool \<Rightarrow> action_intent \<Rightarrow> (('e, 'y) world_scheme, pyval) thread" where
  "call_handler_thread tool action =
     bindT (atomic (note_call (HandlerCall (ai_tool_name action) (ai_arguments action)))) (\<lambda>_.
     atomic (call_user (rg_handler tool (ai_arguments action))))"

definition append_event_thread ::
  "'z libs_scheme \<Rightarrow> 'e runtime \<Rightarrow> action_intent \<Rightarrow> string \<Rightarrow> uuid option \<Rightarrow> json_object option \<Rightarrow>
   (('e, 'y) idem_world_scheme, bool) thread" where
  "append_event_thread L rt action event_type transaction_id details =
     atomic (append_event L rt action event_type transaction_id details)"

definition failure_thread ::
  "'z libs_scheme \<Rightarrow> 'e runtime \<Rightarrow> action_intent \<Rightarrow> attempt \<Rightarrow> string \<Rightarrow> string \<Rightarrow> pyval \<Rightarrow> bool option \<Rightarrow>
   (('e, 'y) idem_world_scheme, execution_result) thread" where
  "failure_thread L rt action att code message output postcondition_verified =
     atomic (failure L rt action att code message output postcondition_verified)"

definition complete_claim_thread ::
  "'z rt_libs_scheme \<Rightarrow> 'e runtime \<Rightarrow> idempotency_claim option \<Rightarrow> execution_result \<Rightarrow>
   (('e, 'y) idem_world_scheme, unit) thread" where
  "complete_claim_thread L rt held result = atomic (complete_claim L rt held result)"

section \<open>The stages, from the last to the first\<close>

definition succeed_thread ::
  "'z rt_libs_scheme \<Rightarrow> 'e runtime \<Rightarrow> action_intent \<Rightarrow> attempt \<Rightarrow> idempotency_claim option \<Rightarrow> pyval \<Rightarrow>
   (('e, 'y) idem_world_scheme, execution_result) thread" where
  "succeed_thread L rt action att held raw_output =
     bindT (atomic (read_clock (rt_clock rt))) (\<lambda>completed_at.
     bindT (liftT (json_or_raise raw_output ''$'')) (\<lambda>output.
     bindT (liftT (ExecutionResult L
       \<lparr>er_execution_id = at_execution_id att, er_transaction_id = at_transaction_id att,
        er_intent_id = ai_intent_id action, er_succeeded = True,
        er_started_at = at_started_at att, er_completed_at = completed_at, er_output = output,
        er_error = None, er_postcondition_verified = Some True\<rparr>)) (\<lambda>result.
     bindT (append_event_thread L rt action ''execution_succeeded'' (Some (at_transaction_id att)) None) (\<lambda>_.
     bindT (complete_claim_thread L rt held result) (\<lambda>_. retT result)))))"

definition check_postconditions_thread ::
  "'z rt_libs_scheme \<Rightarrow> 'e runtime \<Rightarrow> action_intent \<Rightarrow> json_object \<Rightarrow> tool_contract \<Rightarrow> attempt \<Rightarrow>
   idempotency_claim option \<Rightarrow> pyval \<Rightarrow> (('e, 'y) idem_world_scheme, execution_result) thread" where
  "check_postconditions_thread L rt action context contract att held raw_output =
     bindT (checks_thread (rt_postconditions rt) action contract context) (\<lambda>passed.
     if \<not> passed then
       bindT (failure_thread L rt action att ''postcondition_failed''
         ''A postcondition failed after execution.'' (json_or_none raw_output) (Some False)) (\<lambda>result.
       bindT (append_event_thread L rt action ''postcondition_failed'' (Some (at_transaction_id att)) None) (\<lambda>_.
       bindT (complete_claim_thread L rt held result) (\<lambda>_. retT result)))
     else succeed_thread L rt action att held raw_output)"

definition check_output_thread ::
  "'z rt_libs_scheme \<Rightarrow> 'e runtime \<Rightarrow> action_intent \<Rightarrow> json_object \<Rightarrow> tool_contract \<Rightarrow> attempt \<Rightarrow>
   idempotency_claim option \<Rightarrow> pyval \<Rightarrow> (('e, 'y) idem_world_scheme, execution_result) thread" where
  "check_output_thread L rt action context contract att held raw_output =
     (case validate_against_schema L raw_output (ts_document (tc_output_schema contract)) of
        Some output_error \<Rightarrow>
          bindT (failure_thread L rt action att ''output_validation_failed'' output_error
            (json_or_none raw_output) (Some False)) (\<lambda>result.
          bindT (append_event_thread L rt action ''output_validation_failed'' (Some (at_transaction_id att))
            (Some [(PyStr ''message'', PyStr output_error)])) (\<lambda>_.
          bindT (complete_claim_thread L rt held result) (\<lambda>_. retT result)))
      | None \<Rightarrow> check_postconditions_thread L rt action context contract att held raw_output)"

definition run_handler_thread ::
  "'z rt_libs_scheme \<Rightarrow> 'e runtime \<Rightarrow> action_intent \<Rightarrow> json_object \<Rightarrow> 'e registered_tool \<Rightarrow> attempt \<Rightarrow>
   idempotency_claim option \<Rightarrow> (('e, 'y) idem_world_scheme, execution_result) thread" where
  "run_handler_thread L rt action context tool att held =
     bindT (tryT (call_handler_thread tool action)) (\<lambda>raw_output.
     case raw_output of
       None \<Rightarrow>
         bindT (failure_thread L rt action att ''tool_execution_failed'' ''Tool handler raised an exception.''
           PyNone (Some False)) (\<lambda>result.
         bindT (append_event_thread L rt action ''execution_failed'' (Some (at_transaction_id att))
           (Some [(PyStr ''code'', PyStr (case er_error result of
              Some detail \<Rightarrow> fd_code detail | None \<Rightarrow> ''unknown''))])) (\<lambda>_.
         bindT (complete_claim_thread L rt held result) (\<lambda>_. retT result)))
     | Some output \<Rightarrow> check_output_thread L rt action context (rg_contract tool) att held output)"

definition start_execution_thread ::
  "'z rt_libs_scheme \<Rightarrow> 'e runtime \<Rightarrow> action_intent \<Rightarrow> json_object \<Rightarrow> 'e registered_tool \<Rightarrow> attempt \<Rightarrow>
   idempotency_claim option \<Rightarrow> (('e, 'y) idem_world_scheme, execution_result) thread" where
  "start_execution_thread L rt action context tool att held =
     bindT (append_event_thread L rt action ''execution_started'' (Some (at_transaction_id att)) None) (\<lambda>recorded.
     if \<not> recorded then
       bindT (failure_thread L rt action att ''ledger_error'' ''Audit ledger failed before execution.''
         PyNone None) (\<lambda>result.
       bindT (complete_claim_thread L rt held result) (\<lambda>_. retT result))
     else run_handler_thread L rt action context tool att held)"

definition check_preconditions_thread ::
  "'z rt_libs_scheme \<Rightarrow> 'e runtime \<Rightarrow> action_intent \<Rightarrow> json_object \<Rightarrow> 'e registered_tool \<Rightarrow> attempt \<Rightarrow>
   idempotency_claim option \<Rightarrow> (('e, 'y) idem_world_scheme, execution_result) thread" where
  "check_preconditions_thread L rt action context tool att held =
     bindT (checks_thread (rt_preconditions rt) action (rg_contract tool) context) (\<lambda>passed.
     if \<not> passed then
       bindT (append_event_thread L rt action ''precondition_failed'' None None) (\<lambda>_.
       bindT (failure_thread L rt action att ''precondition_failed''
         ''A precondition failed before execution.'' PyNone None) (\<lambda>result.
       bindT (complete_claim_thread L rt held result) (\<lambda>_. retT result)))
     else start_execution_thread L rt action context tool att held)"

definition replay_thread ::
  "'z rt_libs_scheme \<Rightarrow> 'e runtime \<Rightarrow> action_intent \<Rightarrow> attempt \<Rightarrow> idempotency_record \<Rightarrow>
   (('e, 'y) idem_world_scheme, execution_result) thread" where
  "replay_thread L rt action att existing =
     bindT (append_event_thread L rt action ''idempotency_replayed'' None
       (Some [(PyStr ''status'', PyStr (status_value (ir_status existing)))])) (\<lambda>_.
     if ir_status existing = COMPLETED \<and> ir_result existing \<noteq> PyNone then
       liftT (decode_execution_result L (ir_result existing))
     else
       failure_thread L rt action att ''idempotency_in_progress''
         ''An action with this idempotency key is already in progress.'' PyNone None)"

definition reserve_key_thread ::
  "'z rt_libs_scheme \<Rightarrow> 'e runtime \<Rightarrow> action_intent \<Rightarrow> json_object \<Rightarrow> 'e registered_tool \<Rightarrow> attempt \<Rightarrow>
   (('e, 'y) idem_world_scheme, execution_result) thread" where
  "reserve_key_thread L rt action context tool att =
     (if tc_idempotency_key_required (rg_contract tool) \<and> ai_idempotency_key action = None then
        bindT (append_event_thread L rt action ''idempotency_key_missing'' None None) (\<lambda>_.
        failure_thread L rt action att ''idempotency_key_missing''
          ''The registered contract requires an idempotency key.'' PyNone None)
      else
        (case ai_idempotency_key action of
           None \<Rightarrow> check_preconditions_thread L rt action context tool att None
         | Some key \<Rightarrow>
             bindT (atomic (claim L (rt_idempotency rt) key)) (\<lambda>c.
             if \<not> ic_acquired c then replay_thread L rt action att (ic_record c)
             else check_preconditions_thread L rt action context tool att (Some c))))"

definition check_approval_thread ::
  "'z rt_libs_scheme \<Rightarrow> 'e runtime \<Rightarrow> action_intent \<Rightarrow> json_object \<Rightarrow> 'e registered_tool \<Rightarrow> attempt \<Rightarrow>
   policy_decision \<Rightarrow> (('e, 'y) idem_world_scheme, execution_result) thread" where
  "check_approval_thread L rt action context tool att verdict =
     (if pd_decision_type verdict = DENY then
        failure_thread L rt action att ''policy_denied'' (pd_reason verdict) PyNone None
      else if pd_decision_type verdict = REQUIRE_APPROVAL then
        bindT (tryT (atomic (is_approved (rt_approval_checker rt) action (rg_contract tool) verdict
          context))) (\<lambda>approved.
        if approved \<noteq> Some True then
          bindT (append_event_thread L rt action ''approval_required'' None
            (Some [(PyStr ''decision_id'', PyStr (uuid_str (pd_decision_id verdict)))])) (\<lambda>_.
          failure_thread L rt action att ''approval_required'' ''Approval is required before execution.''
            PyNone None)
        else reserve_key_thread L rt action context tool att)
      else reserve_key_thread L rt action context tool att)"

definition check_policy_thread ::
  "'z rt_libs_scheme \<Rightarrow> 'e runtime \<Rightarrow> action_intent \<Rightarrow> json_object \<Rightarrow> 'e registered_tool \<Rightarrow> attempt \<Rightarrow>
   (('e, 'y) idem_world_scheme, execution_result) thread" where
  "check_policy_thread L rt action context tool att =
     bindT (append_event_thread L rt action ''contract_validated'' None
       (Some [(PyStr ''contract_id'', PyStr (uuid_str (tc_contract_id (rg_contract tool))))])) (\<lambda>_.
     bindT (evaluate_thread L (rt_policy_engine rt) action (Some (rg_contract tool)) context) (\<lambda>decision.
     bindT (append_event_thread L rt action ''policy_evaluated'' None
       (Some [(PyStr ''decision_type'', PyStr (policy_decision_type_value (pd_decision_type decision))),
              (PyStr ''risk_level'', PyStr (risk_level_value (pd_risk_level decision)))])) (\<lambda>_.
     check_approval_thread L rt action context tool att decision)))"

definition check_contract_thread ::
  "'z rt_libs_scheme \<Rightarrow> 'e runtime \<Rightarrow> action_intent \<Rightarrow> json_object \<Rightarrow> 'e registered_tool \<Rightarrow> attempt \<Rightarrow>
   (('e, 'y) idem_world_scheme, execution_result) thread" where
  "check_contract_thread L rt action context tool att =
     (if \<not> action_matches_contract action (rg_contract tool) then
        bindT (append_event_thread L rt action ''contract_mismatch'' None
          (Some [(PyStr ''tool_name'', PyStr (ai_tool_name action))])) (\<lambda>_.
        failure_thread L rt action att ''contract_mismatch''
          ''Action intent does not match the registered contract.'' PyNone None)
      else
        (case validate_against_schema L (PyDict (ai_arguments action))
           (ts_document (tc_input_schema (rg_contract tool))) of
           Some input_error \<Rightarrow>
             bindT (append_event_thread L rt action ''input_validation_failed'' None
               (Some [(PyStr ''message'', PyStr input_error)])) (\<lambda>_.
             failure_thread L rt action att ''input_validation_failed'' input_error PyNone None)
         | None \<Rightarrow> check_policy_thread L rt action context tool att))"

definition execute_thread ::
  "'z rt_libs_scheme \<Rightarrow> 'e runtime \<Rightarrow> action_intent \<Rightarrow> json_object \<Rightarrow>
   (('e, 'y) idem_world_scheme, execution_result) thread" where
  "execute_thread L rt action context =
     bindT (atomic uuid4) (\<lambda>execution_id.
     bindT (atomic uuid4) (\<lambda>transaction_id.
     bindT (atomic (read_clock (rt_clock rt))) (\<lambda>started_at.
     let att = \<lparr>at_execution_id = execution_id, at_transaction_id = transaction_id,
               at_started_at = started_at\<rparr>
     in bindT (append_event_thread L rt action ''action_received'' None
          (Some [(PyStr ''tool_name'', PyStr (ai_tool_name action))])) (\<lambda>recorded.
     if \<not> recorded then
       failure_thread L rt action att ''ledger_error'' ''Audit ledger failed before tool resolution.'' PyNone None
     else
       (case get_tool (rt_registry rt) (ai_tool_name action) of
          Inl _ \<Rightarrow>
            bindT (evaluate_thread L (rt_policy_engine rt) action None context) (\<lambda>decision.
            bindT (append_event_thread L rt action ''tool_unknown'' None
              (Some [(PyStr ''decision_type'',
                PyStr (policy_decision_type_value (pd_decision_type decision)))])) (\<lambda>_.
            failure_thread L rt action att ''unknown_tool''
              (''Tool is not registered: '' @ ai_tool_name action @ ''.'') PyNone None))
        | Inr tool \<Rightarrow> check_contract_thread L rt action context tool att)))))"

section \<open>A thread alone is the method\<close>

lemma run_thread_cases [simp]:
  "run_thread (if c then t else u) = (if c then run_thread t else run_thread u)"
  "run_thread (case x of None \<Rightarrow> t | Some y \<Rightarrow> f y) = (case x of None \<Rightarrow> run_thread t | Some y \<Rightarrow> run_thread (f y))"
  "run_thread (case z of Inl a \<Rightarrow> g a | Inr b \<Rightarrow> h b) =
     (case z of Inl a \<Rightarrow> run_thread (g a) | Inr b \<Rightarrow> run_thread (h b))"
  "run_thread (case q of NotADecision \<Rightarrow> t | Decision d \<Rightarrow> k d) =
     (case q of NotADecision \<Rightarrow> run_thread t | Decision d \<Rightarrow> run_thread (k d))"
  "run_thread (Let v l) = (let w = v in run_thread (l w))"
  by (simp_all split: option.split sum.split policy_answer.split)

lemmas branch_congs = if_cong option.case_cong sum.case_cong policy_answer.case_cong

lemma run_evaluate_loop_thread: "run_thread (evaluate_loop_thread L ps a c x ds) = evaluate_loop L ps a c x ds"
  by (induction ps arbitrary: ds) (simp_all cong: branch_congs)

lemma run_checks_thread: "run_thread (checks_thread cs a c x) = checks_pass cs a c x"
  by (induction cs) (simp_all cong: branch_congs)

lemmas run_pieces = run_evaluate_loop_thread run_checks_thread evaluate_thread_def evaluate_def
  call_handler_thread_def call_handler_def append_event_thread_def failure_thread_def complete_claim_thread_def

lemma run_run_handler_thread:
  "run_thread (run_handler_thread L rt a x tool att held) = run_handler L rt a x tool att held"
  by (simp add: run_handler_thread_def run_handler_def check_output_thread_def check_output_def
      check_postconditions_thread_def check_postconditions_def succeed_thread_def succeed_def run_pieces cong: branch_congs)

lemma run_reserve_key_thread:
  "run_thread (reserve_key_thread L rt a x tool att) = reserve_key L rt a x tool att"
  by (simp add: reserve_key_thread_def reserve_key_def replay_thread_def replay_def
      check_preconditions_thread_def check_preconditions_def start_execution_thread_def start_execution_def
      run_run_handler_thread run_pieces cong: branch_congs)

lemma run_execute_thread: "run_thread (execute_thread L rt a x) = execute L rt a x"
  by (simp add: execute_thread_def execute_def check_contract_thread_def check_contract_def
      check_policy_thread_def check_policy_def check_approval_thread_def check_approval_def
      run_reserve_key_thread run_pieces Let_def cong: branch_congs)

section \<open>What the steps of an execution do\<close>

text \<open>
  The interface to a relation that every step of an execution keeps, whatever the other
  threads do in between: the steps outside the services leave them alone, and each method of
  a service is within the relation. The handler's start is a step of its own, which some
  relations exclude.
\<close>

locale outside_relation =
  fixes L :: "'z rt_libs_scheme" and rt :: "'e runtime" and a :: action_intent
    and R :: "('e, 'y) idem_world_scheme \<Rightarrow> ('e, 'y) idem_world_scheme \<Rightarrow> bool"
  assumes outside: "beyond s = beyond t \<Longrightarrow> R s t"
    and appends: "R s (snd (append_event L rt a ty tid ds s))"
begin

lemma outside_along:
  fixes m :: "(('e, 'y) idem_world_scheme, 'a) action"
  shows "keeps beyond m \<Longrightarrow> along R m"
  by (simp add: along_def keeps_def outside)

lemma outside_atomic:
  fixes m :: "(('e, 'y) idem_world_scheme, 'a) action"
  shows "keeps beyond m \<Longrightarrow> obeys R (atomic m)"
  by (rule obeys_atomic, rule outside_along)

lemma pieces:
  "obeys R (append_event_thread L rt a ty tid ds)"
  "obeys R (failure_thread L rt a att code msg out pv)"
proof -
  show "obeys R (append_event_thread L rt a ty tid ds)"
    unfolding append_event_thread_def by (rule obeys_atomic) (simp add: along_def appends)
  show "obeys R (failure_thread L rt a att code msg out pv)"
    unfolding failure_thread_def failure_def by (intro outside_atomic keeps_intros)
qed

lemma checks: "obeys R (checks_thread cs a c x)"
  by (induction cs) (auto intro!: obeys_intros outside_atomic keeps_intros)

lemma evaluation: "obeys R (evaluate_thread L ps a c x)"
proof -
  have "obeys R (evaluate_loop_thread L ps a c x ds)" for ps c ds
    by (induction ps arbitrary: ds)
      (auto intro!: obeys_intros outside_atomic keeps_policies split: policy_answer.split option.split)
  then show ?thesis
    unfolding evaluate_thread_def by (intro obeys_intros outside_atomic keeps_policies)
qed

lemma approval: "obeys R (atomic (is_approved ch a c d x))"
  by (rule outside_atomic) (cases ch; auto simp: is_approved_def intro!: keeps_intros)

lemma clocks: "obeys R (atomic uuid4)" "obeys R (atomic (read_clock clk))"
  by (intro outside_atomic keeps_intros)+

lemma replaying: "obeys R (replay_thread L rt a att rec)"
  unfolding replay_thread_def by (intro obeys_intros pieces)

end

locale quiet_relation = outside_relation +
  assumes completes: "R s (snd (complete_claim L rt held r s))"
begin

lemma completing: "obeys R (complete_claim_thread L rt held r)"
  unfolding complete_claim_thread_def by (rule obeys_atomic) (simp add: along_def completes)

lemmas rules = obeys_intros pieces completing checks evaluation approval clocks

lemma after_handler: "obeys R (check_output_thread L rt a x c att held out)"
  unfolding check_output_thread_def check_postconditions_thread_def succeed_thread_def by (intro rules)

lemma handler_outcome:
  "obeys R (case out of
       None \<Rightarrow>
         bindT (failure_thread L rt a att c1 m1 o1 p1) (\<lambda>result.
         bindT (append_event_thread L rt a ty tid (ds result)) (\<lambda>_.
         bindT (complete_claim_thread L rt held result) (\<lambda>_. retT result)))
     | Some v \<Rightarrow> check_output_thread L rt a x c att held v)"
  by (intro rules after_handler)

end

locale step_relation = quiet_relation +
  assumes starts: "R s (s\<lparr>calls := calls s @ [HandlerCall (ai_tool_name a) (ai_arguments a)]\<rparr>)"
    and claims: "R s (snd (claim L (rt_idempotency rt) key s))"
begin

lemma handler: "obeys R (run_handler_thread L rt a x tool att held)"
proof -
  have "obeys R (atomic (note_call (HandlerCall (ai_tool_name a) (ai_arguments a))))"
    by (rule obeys_atomic) (simp add: along_def note_call_def starts)
  then have "obeys R (call_handler_thread tool a)"
    unfolding call_handler_thread_def
    by (rule obeys_bindT) (rule outside_atomic, rule keeps_beyond)
  then show ?thesis unfolding run_handler_thread_def by (intro rules after_handler)
qed

lemma from_claim: "obeys R (reserve_key_thread L rt a x tool att)"
proof -
  have "obeys R (atomic (claim L (rt_idempotency rt) key))" for key
    by (rule obeys_atomic) (simp add: along_def claims)
  then show ?thesis
    unfolding reserve_key_thread_def check_preconditions_thread_def start_execution_thread_def
    by (intro rules replaying handler)
qed

lemma execution: "obeys R (execute_thread L rt a x)"
  unfolding execute_thread_def check_contract_thread_def check_policy_thread_def check_approval_thread_def
  by (intro rules from_claim)

end

lemma beyond_evolves:
  fixes s t :: "('e, 'y) idem_world_scheme"
  assumes "beyond s = beyond t"
  shows "records_evolve s t" and "audit_extends i s t"
  using assms by (cases s; cases t; simp add: records_evolve_def audit_extends_def beyond_def)+

lemma noted_evolves:
  "records_evolve s (s\<lparr>calls := cs\<rparr>)" "audit_extends i s (s\<lparr>calls := cs\<rparr>)"
  by (simp_all add: records_evolve_def audit_extends_def)

interpretation records_thread: step_relation L rt a records_evolve
  by unfold_locales
    (erule beyond_evolves, rule along_snd[OF keeps_records_evolve[OF append_event_records]],
      rule along_snd[OF complete_claim_evolves], rule noted_evolves, rule along_snd[OF claim_evolves])

interpretation audit_thread: step_relation L rt a "audit_extends (ai_intent_id a)"
  by unfold_locales
    (erule beyond_evolves, rule along_snd[OF append_event_audit],
      rule along_snd[OF keeps_audit[OF complete_claim_events]], rule noted_evolves,
      rule along_snd[OF keeps_audit_world(3)])

interpretation quiet_thread: quiet_relation L rt a "\<lambda>s t. calls t = calls s"
  by unfold_locales (auto simp: beyond_def keeps_snd[OF keeps_runtime_calls(1)] keeps_snd[OF keeps_runtime_calls(3)])

section \<open>How many calls an execution makes\<close>

lemmas quiet_rules = quiet_thread.pieces quiet_thread.completing quiet_thread.checks
  quiet_thread.evaluation quiet_thread.approval quiet_thread.clocks quiet_thread.replaying

lemma noted_first:
  "bindT (tryT (bindT (atomic (note_call c)) (\<lambda>_. t))) f =
     Pending (\<lambda>s. (bindT (tryT t) f, s\<lparr>calls := calls s @ [c]\<rparr>))"
  by (simp add: Pending_fst_snd note_call_def)

lemma quiet_after_start:
  "obeys quiet (bindT (tryT (atomic (call_user (rg_handler tool (ai_arguments a))))) (\<lambda>out.
     case out of
       None \<Rightarrow>
         bindT (failure_thread L rt a att ''tool_execution_failed'' ''Tool handler raised an exception.''
           PyNone (Some False)) (\<lambda>result.
         bindT (append_event_thread L rt a ''execution_failed'' (Some (at_transaction_id att))
           (Some [(PyStr ''code'', PyStr (case er_error result of
              Some detail \<Rightarrow> fd_code detail | None \<Rightarrow> ''unknown''))])) (\<lambda>_.
         bindT (complete_claim_thread L rt held result) (\<lambda>_. retT result)))
     | Some v \<Rightarrow> check_output_thread L rt a x (rg_contract tool) att held v))"
  by (intro obeys_bindT obeys_tryT quiet_thread.outside_atomic keeps_beyond quiet_thread.handler_outcome)

lemma handler_spends: "spends c 1 (run_handler_thread L rt a x tool att held)"
  unfolding run_handler_thread_def call_handler_thread_def noted_first
  using quiet_spends[OF quiet_after_start] by (intro spends.Pending[where left = "\<lambda>_. 0"]) simp_all

text \<open>On the credit of a new record of the key.\<close>

definition creates :: "string \<Rightarrow> ('e, 'y) idem_world_scheme \<Rightarrow> ('e, 'y) idem_world_scheme \<Rightarrow> nat" where
  "creates k s t = (if records s k = None \<and> records t k \<noteq> None then 1 else 0)"

lemma check_preconditions_spends: "spends c 1 (check_preconditions_thread L rt a x tool att held)"
  unfolding check_preconditions_thread_def start_execution_thread_def
  by (intro quiet_then quiet_rules spends_cases handler_spends quiet_spends obeys_basic)

lemma claim_creates:
  "claim L (InMemoryIdempotencyBackend clk) k s = (Inr c, t) \<Longrightarrow> ic_acquired c \<Longrightarrow> creates k s t = 1"
  by (cases "records s k")
    (auto simp: claim_def in_memory_claim_old in_memory_claim_new creates_def Let_def
      split: sum.splits prod.splits)

lemma reserve_key_spends:
  assumes mem: "rt_idempotency rt = InMemoryIdempotencyBackend clk" and k: "ai_idempotency_key a = Some k"
  shows "spends (creates k) 0 (reserve_key_thread L rt a x tool att)"
proof -
  have "spends (creates k) 0 (bindT (atomic (claim L (rt_idempotency rt) k)) (\<lambda>c.
      if \<not> ic_acquired c then replay_thread L rt a att (ic_record c)
      else check_preconditions_thread L rt a x tool att (Some c)))"
    unfolding mem
    by (rule earning_then[where E = ic_acquired], intro keeps_intros, erule (1) claim_creates)
      (simp_all only: not_True_eq_False not_False_eq_True if_True if_False
        check_preconditions_spends quiet_spends[OF quiet_thread.replaying])
  moreover have "spends (creates k) 0 (bindT (append_event_thread L rt a ''idempotency_key_missing'' None None)
      (\<lambda>_. failure_thread L rt a att ''idempotency_key_missing''
          ''The registered contract requires an idempotency key.'' PyNone None))"
    by (intro quiet_then quiet_rules quiet_spends)
  ultimately show ?thesis unfolding reserve_key_thread_def by (simp add: k)
qed

lemma execute_spends:
  assumes "rt_idempotency rt = InMemoryIdempotencyBackend clk" and "ai_idempotency_key a = Some k"
  shows "spends (creates k) 0 (execute_thread L rt a x)"
  unfolding execute_thread_def check_contract_thread_def check_policy_thread_def check_approval_thread_def
  by (intro quiet_then quiet_rules obeys_tryT spends_cases reserve_key_spends[OF assms] quiet_spends)

end
