(* ===== verification/Concurrency.thy ===== *)
theory Concurrency
  imports Runtime_Threads Runtime_Samples
begin

text \<open>
  What the runtime promises when any number of executions run at once over one in-memory
  idempotency store and one ledger: under every schedule a key leads to at most one handler
  call, and ledger and store only go forward. Running the executions one after the other is
  one of the schedules.
\<close>

section \<open>Pools of executions\<close>

type_synonym 'e request = "'e runtime \<times> action_intent \<times> json_object"

definition execution_pool ::
  "'z rt_libs_scheme \<Rightarrow> 'e request list \<Rightarrow> ('e, 'y) idem_world_scheme \<Rightarrow>
   (('e, 'y) idem_world_scheme, execution_result) pool" where
  "execution_pool L qs s = (map (\<lambda>(rt, a, x). execute_thread L rt a x) qs, s)"

definition request_key :: "'e request list \<Rightarrow> nat \<Rightarrow> string option" where
  "request_key qs i = (if i < length qs then ai_idempotency_key (fst (snd (qs ! i))) else None)"

text \<open>A record is created once and does not disappear, so its creation is granted once.\<close>

definition occupied :: "string \<Rightarrow> ('e, 'y) idem_world_scheme \<Rightarrow> nat" where
  "occupied k s = (if records s k = None then 0 else 1)"

lemma occupied_step: "records_evolve s t \<Longrightarrow> creates k s t + occupied k s \<le> occupied k t"
  using records_evolve_found[of s t k] by (auto simp: occupied_def creates_def)

lemma pool_evolves: "list_all (obeys records_evolve) (fst (execution_pool L qs s))"
  by (auto simp: execution_pool_def list_all_iff records_thread.execution)

lemma execution_pool_accounted:
  assumes "\<And>rt a x. (rt, a, x) \<in> set qs \<Longrightarrow> P a \<Longrightarrow> spends c 0 (execute_thread L rt a x)"
  shows "accounted c (\<lambda>i. i < length qs \<and> P (fst (snd (qs ! i)))) (\<lambda>_. 0) (execution_pool L qs s)"
  using assms nth_mem by (fastforce simp: accounted_def execution_pool_def split: prod.split)

lemma keyed_calls_made:
  assumes "\<forall>(rt, a, x) \<in> set qs. in_memory_keys rt"
  shows "calls_made (\<lambda>i. request_key qs i = Some k) schedule (execution_pool L qs s) \<le>
    (if records s k = None then 1 else 0)"
proof -
  let ?P = "\<lambda>i. request_key qs i = Some k" and ?p = "execution_pool L qs s"
  have P: "?P = (\<lambda>i. i < length qs \<and> ai_idempotency_key (fst (snd (qs ! i))) = Some k)"
    by (auto simp: fun_eq_iff request_key_def)
  have "spends (creates k) 0 (execute_thread L rt a x)"
    if "(rt, a, x) \<in> set qs" "ai_idempotency_key a = Some k" for rt a x
    using assms that by (fastforce simp: in_memory_keys_def intro: execute_spends)
  then have "accounted (creates k) ?P (\<lambda>_. 0) ?p"
    unfolding P by (rule execution_pool_accounted)
  from calls_on_credit[OF this, of schedule]
  have "calls_made ?P schedule ?p \<le> total (creates k) ?P schedule ?p" by simp
  moreover have "total (creates k) ?P schedule ?p + occupied k (snd ?p) \<le>
      occupied k (snd (run_schedule schedule ?p))"
    by (rule total_bound[OF pool_evolves]) (rule recs.refl, rule occupied_step)
  ultimately show ?thesis by (simp add: occupied_def execution_pool_def split: if_splits)
qed

text \<open>
  At most once, under every interleaving. However many executions of whatever actions run
  at once over one in-memory idempotency store, and however their steps are interleaved, the
  executions whose actions carry a given key call a handler at most once in total, and not at
  all if the store already had a record for the key.
\<close>

theorem concurrent_at_most_once:
  assumes "\<forall>(rt, a, x) \<in> set qs. in_memory_keys rt"
  shows "calls_made (\<lambda>i. request_key qs i = Some k) schedule (execution_pool L qs s) \<le>
    (if records s k = None then 1 else 0)"
  using assms by (rule keyed_calls_made)

text \<open>Two executions of one action with a key at once.\<close>

abbreviation sample_requests :: "unit request list" where
  "sample_requests \<equiv>
     [(sample_runtime LOW [] echo_amount, sample_action (Some ''k''), []),
      (sample_runtime LOW [] echo_amount, sample_action (Some ''k''), [])]"

theorem concurrent_at_most_once_witness:
  "calls_made (\<lambda>i. request_key sample_requests i = Some ''k'') [0, 1, 1, 0, 0, 1, 0, 1, 1, 1, 0, 0, 1, 0, 1, 0]
     (execution_pool sample_rt_libs sample_requests (sample_state ())) \<le> 1"
  using concurrent_at_most_once[of sample_requests "''k''" "[0, 1, 1, 0, 0, 1, 0, 1, 1, 1, 0, 0, 1, 0, 1, 0]"
      sample_rt_libs "sample_state ()"]
  by (simp add: in_memory_keys_def sample_state_def del: calls_made.simps)

section \<open>One after the other\<close>

primrec run_all :: "'z rt_libs_scheme \<Rightarrow> 'e request list \<Rightarrow> ('e, 'y) idem_world_scheme \<Rightarrow>
    execution_result result list \<times> ('e, 'y) idem_world_scheme" where
  "run_all L [] s = ([], s)"
| "run_all L (q # qs) s =
     (case q of (rt, a, x) \<Rightarrow> (case execute L rt a x s of (r, s') \<Rightarrow>
       (case run_all L qs s' of (rs, s'') \<Rightarrow> (r # rs, s''))))"

lemma run_all_in_turn: "run_in_turn (map (\<lambda>(rt, a, x). execute_thread L rt a x) qs) s = run_all L qs s"
  by (induction qs arbitrary: s) (auto simp: run_execute_thread split: prod.split)

text \<open>
  The calls one after the other are one of the schedules, so that what is shown of all
  schedules is shown of them.
\<close>

lemma run_all_scheduled:
  "\<exists>schedule. run_schedule schedule (execution_pool L qs s) =
     (map Ended (fst (run_all L qs s)), snd (run_all L qs s))"
  using in_turn_scheduled[of "[]" "map (\<lambda>(rt, a, x). execute_thread L rt a x) qs" s]
  by (simp add: execution_pool_def run_all_in_turn)

section \<open>The services\<close>

definition audit_grows :: "uuid set \<Rightarrow> ('e, 'y) ledger_world_scheme \<Rightarrow> ('e, 'y) ledger_world_scheme \<Rightarrow> bool" where
  "audit_grows ids s t \<longleftrightarrow> (\<exists>new. events t = events s @ new \<and>
     (ledger_inv (events s) \<longrightarrow> ledger_inv (events t)) \<and> (\<forall>e \<in> set new. le_correlation_id e \<in> ids))"

interpretation grows: evolution "audit_grows ids"
  by unfold_locales (fastforce simp: audit_grows_def)+

lemma pool_grows:
  "list_all (obeys (audit_grows ((\<lambda>(rt, a, x). ai_intent_id a) ` set qs))) (fst (execution_pool L qs s))"
proof -
  have "obeys (audit_grows ((\<lambda>(rt, a, x). ai_intent_id a) ` set qs)) (execute_thread L rt a x)"
    if "(rt, a, x) \<in> set qs" for rt a x
    using audit_thread.execution
    by (rule obeys_mono) (use that in \<open>force simp: audit_extends_def audit_grows_def\<close>)
  then show ?thesis by (auto simp: execution_pool_def list_all_iff)
qed

text \<open>
  C20: Ledger and store only go forward, under every interleaving. Whatever executions run at
  once and however their steps are interleaved, the ledger is extended at its end, its
  sequence stays gapless, each new event belongs to one of the intents; every
  idempotency record stays, with its owner, and a completed record never changes.
\<close>

theorem concurrent_services_evolve:
  assumes "run_schedule schedule (execution_pool L qs s) = (ts, t)"
  shows "\<exists>new. events t = events s @ new \<and> (ledger_inv (events s) \<longrightarrow> ledger_inv (events t)) \<and>
      (\<forall>e \<in> set new. \<exists>(rt, a, x) \<in> set qs. le_correlation_id e = ai_intent_id a) \<and>
      (\<forall>k r. records s k = Some r \<longrightarrow> (\<exists>r'. records t k = Some r' \<and>
         ir_owner_token r' = ir_owner_token r \<and> (ir_status r = COMPLETED \<longrightarrow> r' = r)))"
proof -
  from evolution.scheduled[OF recs.evolution_axioms pool_evolves, of L qs s schedule] have "records_evolve s t"
    by (simp add: assms) (simp add: execution_pool_def)
  moreover have "audit_grows ((\<lambda>(rt, a, x). ai_intent_id a) ` set qs) s t"
    using grows.scheduled[OF pool_grows[of qs L s], of schedule] by (simp add: assms) (simp add: execution_pool_def)
  ultimately show ?thesis unfolding records_evolve_def audit_grows_def by fastforce
qed

text \<open>One execution that calls the handler, and another that finds its key.\<close>

lemma sample_sequence_calls:
  "calls (snd (run_all sample_rt_libs sample_requests (sample_state ()))) =
     [HandlerCall ''refund'' [(PyStr ''amount'', PyInt 5)]]"
proof (rule sample_first)
  fix t
  assume t: "sample_execute (sample_state ()) = (Inr sample_result, t)"
    and c: "calls t = [HandlerCall ''refund'' [(PyStr ''amount'', PyInt 5)]]"
  note run = t[unfolded sample_execute_def]
  let ?rt = "sample_runtime LOW [] echo_amount :: unit runtime"
  have keys: "in_memory_keys ?rt" by (simp add: in_memory_keys_def)
  have "calls (sample_state ()) = []" by (simp add: sample_state_def)
  with run c have "length (calls (snd (execute sample_rt_libs ?rt (sample_action (Some ''k'')) [] (sample_state ())))) -
      length (calls (sample_state ())) \<noteq> 0" by simp
  from execute_keyed_call(2)[OF keys sample_key this] run have found: "records t ''k'' \<noteq> None" by simp
  have "length (calls (snd (execute sample_rt_libs ?rt (sample_action (Some ''k'')) [] t))) - length (calls t) = 0"
    (is "?n = 0")
  proof (rule ccontr)
    assume "?n \<noteq> 0"
    from execute_keyed_call(1)[OF keys sample_key this] found show False by simp
  qed
  then have "calls (snd (execute sample_rt_libs ?rt (sample_action (Some ''k'')) [] t)) = calls t"
    using execute_calls[of sample_rt_libs ?rt "sample_action (Some ''k'')" "[]" t] by auto
  with run c show ?thesis by (simp add: split_def)
qed

theorem concurrent_services_evolve_witness:
  "\<exists>schedule ts t. run_schedule schedule (execution_pool sample_rt_libs sample_requests (sample_state ())) = (ts, t) \<and>
     calls t = [HandlerCall ''refund'' [(PyStr ''amount'', PyInt 5)]] \<and> ledger_inv (events t)"
proof -
  obtain schedule ts t where run: "run_schedule schedule (execution_pool sample_rt_libs sample_requests (sample_state ())) = (ts, t)"
    and c: "calls t = [HandlerCall ''refund'' [(PyStr ''amount'', PyInt 5)]]"
    using run_all_scheduled[of sample_rt_libs sample_requests "sample_state ()"] sample_sequence_calls by blast
  have "ledger_inv (events (sample_state ()))" by (simp add: sample_state_def ledger_inv_def)
  then have "ledger_inv (events t)" using concurrent_services_evolve[OF run] by blast
  with run c show ?thesis by blast
qed

end
