(* ===== verification/Agreement.thy ===== *)
theory Agreement
  imports Concurrency
begin

text \<open>
  All callers of one key are told the same. The executions run at once; each thread knows
  something about the record of its key that the others cannot change: that it holds the
  record, still in progress, or that the record is completed. From this follows that a success
  is only ever reported when the store holds that very result.
\<close>

section \<open>What a thread knows about the record of its key\<close>

datatype knowledge = Nothing | Holding idempotency_record | Completed idempotency_record

fun knows :: "string \<Rightarrow> knowledge \<Rightarrow> ('e, 'y) idem_world_scheme \<Rightarrow> bool" where
  "knows k Nothing s \<longleftrightarrow> True"
| "knows k (Holding q) s \<longleftrightarrow> records s k = Some q \<and> ir_status q = IN_PROGRESS"
| "knows k (Completed q) s \<longleftrightarrow> records s k = Some q \<and> ir_status q = COMPLETED"

fun is_holding :: "knowledge \<Rightarrow> bool" where
  "is_holding (Holding q) = True"
| "is_holding _ = False"

text \<open>Who does not hold the record leaves it alone, and can only come to hold a new one.\<close>

definition permits ::
  "string \<Rightarrow> knowledge \<Rightarrow> knowledge \<Rightarrow> ('e, 'y) idem_world_scheme \<Rightarrow> ('e, 'y) idem_world_scheme \<Rightarrow> bool" where
  "permits k h n s t \<longleftrightarrow> is_holding h \<or>
     ((records s k \<noteq> None \<longrightarrow> records t k = records s k) \<and> (is_holding n \<longrightarrow> records s k = None))"

definition recorded ::
  "'z rt_libs_scheme \<Rightarrow> string \<Rightarrow> execution_result \<Rightarrow> ('e, 'y) idem_world_scheme \<Rightarrow> bool" where
  "recorded L k r s \<longleftrightarrow> (\<exists>q. records s k = Some q \<and> ir_status q = COMPLETED \<and>
     decode_execution_result L (ir_result q) = Inr r)"

inductive truthful ::
  "'z rt_libs_scheme \<Rightarrow> string \<Rightarrow> knowledge \<Rightarrow> (('e, 'y) idem_world_scheme, execution_result) thread \<Rightarrow> bool"
  for L k where
  Ended: "(\<And>r s :: ('e, 'y) idem_world_scheme. res = Inr r \<Longrightarrow> er_succeeded r \<Longrightarrow> knows k h s \<Longrightarrow> recorded L k r s) \<Longrightarrow>
    truthful L k h (Ended res)"
| Pending: "(\<And>s. knows k h s \<Longrightarrow> truthful L k (after s) (fst (m s))) \<Longrightarrow>
    (\<And>s. knows k h s \<Longrightarrow> knows k (after s) (snd (m s)) \<and> permits k h (after s) s (snd (m s))) \<Longrightarrow>
    truthful L k h (Pending m)"

inductive_cases truthful_EndedE: "truthful L k h (Ended res)"
inductive_cases truthful_PendingE: "truthful L k h (Pending m)"

section \<open>Rules\<close>

abbreviation same_records :: "('e, 'y) idem_world_scheme \<Rightarrow> ('e, 'y) idem_world_scheme \<Rightarrow> bool" where
  "same_records \<equiv> (\<lambda>s t. records t = records s)"

lemma knows_same: "records t k = records s k \<Longrightarrow> knows k h s \<Longrightarrow> knows k h t"
  by (cases h) simp_all

lemma permits_same: "records t k = records s k \<Longrightarrow> knows k h s \<Longrightarrow> permits k h h s t"
  by (cases h) (simp_all add: permits_def)

lemma truthful_error: "truthful L k h (Ended (Inl e))"
  by (rule truthful.Ended) simp

lemma truthful_failed: "\<not> er_succeeded r \<Longrightarrow> truthful L k h (retT r)"
  unfolding retT_def by (rule truthful.Ended) simp

lemma truthful_then:
  assumes "obeys same_records t" and "returns Q t" and "\<And>x. Q x \<Longrightarrow> truthful L k h (f x)"
  shows "truthful L k h (bindT t f)"
  using assms(1,2)
proof (induction rule: obeys.induct)
  case (Ended r)
  then show ?case
    using assms(3) by (cases r) (auto elim!: returns_EndedE intro: truthful_error)
next
  case (Pending m)
  then have same: "records (snd (m s)) k = records s k" for s by simp
  from Pending show ?case
    unfolding Pending_fst_snd
    by (intro truthful.Pending[where after = "\<lambda>_. h"])
      (auto elim: returns_PendingE intro: knows_same permits_same)
qed

lemma truthful_step: "obeys same_records t \<Longrightarrow> (\<And>x. truthful L k h (f x)) \<Longrightarrow> truthful L k h (bindT t f)"
  by (rule truthful_then[OF _ returns_any])

lemma truthful_liftT: "(\<And>x. res = Inr x \<Longrightarrow> truthful L k h (f x)) \<Longrightarrow> truthful L k h (bindT (liftT res) f)"
  by (cases res) (simp_all add: truthful_error)

lemma truthful_last:
  assumes "obeys same_records t" and "returns (\<lambda>r. \<not> er_succeeded r) t"
  shows "truthful L k h t"
proof -
  have "truthful L k h (bindT t retT)"
    using assms by (rule truthful_then) (rule truthful_failed)
  then show ?thesis by (simp only: bindT_retT)
qed

lemma truthful_cases:
  "(c \<Longrightarrow> truthful L k h t) \<Longrightarrow> (\<not> c \<Longrightarrow> truthful L k h u) \<Longrightarrow> truthful L k h (if c then t else u)"
  "(x = None \<Longrightarrow> truthful L k h t) \<Longrightarrow> (\<And>y. x = Some y \<Longrightarrow> truthful L k h (f y)) \<Longrightarrow>
     truthful L k h (case x of None \<Rightarrow> t | Some y \<Rightarrow> f y)"
  "(\<And>a. z = Inl a \<Longrightarrow> truthful L k h (g a)) \<Longrightarrow> (\<And>b. z = Inr b \<Longrightarrow> truthful L k h (h' b)) \<Longrightarrow>
     truthful L k h (case z of Inl a \<Rightarrow> g a | Inr b \<Rightarrow> h' b)"
  "(\<And>v. truthful L k h (l v)) \<Longrightarrow> truthful L k h (let v = w in l v)"
  by (auto split: option.split sum.split)

section \<open>The stages\<close>

interpretation same_thread: outside_relation L rt a same_records
  by unfold_locales (drule beyond_same, simp, rule keeps_snd[OF append_event_records])

lemma failure_fails: "returns (\<lambda>r. \<not> er_succeeded r) (failure_thread L rt a att code msg out pv)"
  unfolding failure_thread_def by (rule returns_atomic) (rule failure_Inr(1))

lemmas same_rules = same_thread.pieces same_thread.checks same_thread.evaluation same_thread.approval
  same_thread.clocks obeys_tryT

text \<open>The holder completes its record, and then knows the result that is recorded.\<close>

lemma truthful_complete:
  assumes ser: "serializer_documented L" and mem: "rt_idempotency rt = InMemoryIdempotencyBackend clk"
    and key: "ir_key (ic_record c) = k" and r: "er_succeeded r \<longrightarrow> storable L r"
  shows "truthful L k (Holding (ic_record c)) (bindT (complete_claim_thread L rt (Some c) r) (\<lambda>_. retT r))"
  unfolding complete_claim_thread_def Pending_fst_snd
proof (rule truthful.Pending[where after = "\<lambda>s. case fst (complete_claim L rt (Some c) r s) of
      Inl _ \<Rightarrow> Nothing | Inr _ \<Rightarrow> Completed (the (records (snd (complete_claim L rt (Some c) r s)) k))"], goal_cases)
  case (1 s)
  show ?case
  proof (cases "complete_claim L rt (Some c) r s")
    case (Pair res t)
    show ?thesis
    proof (cases res)
      case (Inr u)
      have "\<exists>q. records t k = Some q \<and> ir_status q = COMPLETED \<and> ir_result q = model_dump L r"
        using complete_claim_record[of L rt c r s t, OF _ mem] Pair Inr 1 key by auto
      then obtain q where q: "records t k = Some q" "ir_result q = model_dump L r" by blast
      have "truthful L k (Completed q) (retT r)"
        unfolding retT_def using ser r q(2)
        by (intro truthful.Ended) (auto simp: recorded_def serializer_documented_def)
      then show ?thesis using Pair Inr q(1) by simp
    qed (simp add: Pair truthful_error)
  qed
next
  case (2 s)
  show ?case
  proof (cases "complete_claim L rt (Some c) r s")
    case (Pair res t)
    show ?thesis
    proof (cases res)
      case (Inr u)
      have "\<exists>q. records t k = Some q \<and> ir_status q = COMPLETED \<and> ir_result q = model_dump L r"
        using complete_claim_record[of L rt c r s t, OF _ mem] Pair Inr 2 key by auto
      then show ?thesis using Pair Inr by (auto simp: permits_def)
    qed (simp add: Pair permits_def)
  qed
qed

lemma truthful_failure:
  assumes "serializer_documented L" and "rt_idempotency rt = InMemoryIdempotencyBackend clk"
    and "ir_key (ic_record c) = k"
  shows "truthful L k (Holding (ic_record c)) (bindT (failure_thread L rt a att code msg out pv) (\<lambda>result.
      bindT (complete_claim_thread L rt (Some c) result) (\<lambda>_. retT result)))"
    and "truthful L k (Holding (ic_record c)) (bindT (failure_thread L rt a att code msg out pv) (\<lambda>result.
      bindT (append_event_thread L rt a ty tid (ds result)) (\<lambda>_.
      bindT (complete_claim_thread L rt (Some c) result) (\<lambda>_. retT result))))"
  by (rule truthful_then[OF same_thread.pieces(2) failure_fails];
      (rule truthful_step[OF same_thread.pieces(1)])?, rule truthful_complete[OF assms], simp)+

lemma truthful_succeed:
  assumes "serializer_documented L" and "rt_idempotency rt = InMemoryIdempotencyBackend clk"
    and "ir_key (ic_record c) = k"
  shows "truthful L k (Holding (ic_record c)) (succeed_thread L rt a att (Some c) out)"
  unfolding succeed_thread_def
  by (intro truthful_step same_rules truthful_liftT truthful_complete[OF assms])
    (auto simp: storable_def ExecutionResult_iff json_or_raise_def split: if_splits)

lemma handler_same_records: "obeys same_records (tryT (call_handler_thread tool a))"
  unfolding call_handler_thread_def
  by (intro obeys_tryT obeys_bindT obeys_atomic)
    (auto simp: along_def keeps_snd[OF keeps_records_world(3)] keeps_snd[OF keeps_records_note])

lemma truthful_handler:
  assumes "serializer_documented L" and "rt_idempotency rt = InMemoryIdempotencyBackend clk"
    and "ir_key (ic_record c) = k"
  shows "truthful L k (Holding (ic_record c)) (run_handler_thread L rt a x tool att (Some c))"
  unfolding run_handler_thread_def check_output_thread_def check_postconditions_thread_def
  by (intro truthful_failure[OF assms] truthful_succeed[OF assms] truthful_cases
      truthful_step[OF handler_same_records] truthful_step[OF same_thread.checks])

lemma truthful_preconditions:
  assumes "serializer_documented L" and "rt_idempotency rt = InMemoryIdempotencyBackend clk"
    and "ir_key (ic_record c) = k"
  shows "truthful L k (Holding (ic_record c)) (check_preconditions_thread L rt a x tool att (Some c))"
  unfolding check_preconditions_thread_def start_execution_thread_def
  by (intro truthful_failure[OF assms] truthful_handler[OF assms] truthful_cases truthful_step
      same_thread.checks same_thread.pieces(1))

text \<open>What a claim tells its caller.\<close>

fun told :: "idempotency_claim result \<Rightarrow> knowledge" where
  "told (Inl e) = Nothing"
| "told (Inr c) =
     (if ic_acquired c then Holding (ic_record c)
      else if ir_status (ic_record c) = COMPLETED then Completed (ic_record c) else Nothing)"

lemma claim_told:
  assumes "ShortText L k = Some k"
  shows "knows k (told (fst (claim L (InMemoryIdempotencyBackend clk) k s)))
      (snd (claim L (InMemoryIdempotencyBackend clk) k s))"
    and "permits k Nothing (told (fst (claim L (InMemoryIdempotencyBackend clk) k s))) s
      (snd (claim L (InMemoryIdempotencyBackend clk) k s))"
    and "fst (claim L (InMemoryIdempotencyBackend clk) k s) = Inr c \<Longrightarrow> ic_acquired c \<Longrightarrow> ir_key (ic_record c) = k"
  using assms
  by (cases "records s k"; auto simp: claim_def in_memory_claim_old in_memory_claim_new Let_def
      permits_def IdempotencyRecord_IN_PROGRESS split: sum.splits if_splits)+

lemma truthful_replay:
  "truthful L k (if ir_status q = COMPLETED then Completed q else Nothing) (replay_thread L rt a att q)"
  unfolding replay_thread_def
proof (intro truthful_step[OF same_thread.pieces(1)] truthful_cases)
  assume "ir_status q = COMPLETED \<and> ir_result q \<noteq> PyNone"
  then show "truthful L k (if ir_status q = COMPLETED then Completed q else Nothing)
      (liftT (decode_execution_result L (ir_result q)))"
    unfolding liftT_def by (intro truthful.Ended) (auto simp: recorded_def)
qed (rule truthful_last[OF same_thread.pieces(2) failure_fails])

lemma truthful_reserve_key:
  assumes "serializer_documented L" and mem: "rt_idempotency rt = InMemoryIdempotencyBackend clk"
    and k: "ai_idempotency_key a = Some k" and short: "ShortText L k = Some k"
  shows "truthful L k Nothing (reserve_key_thread L rt a x tool att)"
proof -
  let ?cont = "\<lambda>c. if \<not> ic_acquired c then replay_thread L rt a att (ic_record c)
      else check_preconditions_thread L rt a x tool att (Some c)"
  have "truthful L k Nothing (bindT (atomic (claim L (rt_idempotency rt) k)) ?cont)"
    unfolding Pending_fst_snd mem
  proof (rule truthful.Pending[where after = "\<lambda>s. told (fst (claim L (InMemoryIdempotencyBackend clk) k s))"], goal_cases)
    case (1 s)
    let ?claim = "claim L (InMemoryIdempotencyBackend clk) k s"
    show ?case
    proof (cases "fst ?claim")
      case (Inr c)
      show ?thesis
      proof (cases "ic_acquired c")
        case True
        then show ?thesis
          using truthful_preconditions[OF assms(1) mem claim_told(3)[OF short Inr True]] by (simp add: Inr)
      next
        case False
        then show ?thesis using truthful_replay[of L k "ic_record c" rt a att] by (simp add: Inr)
      qed
    qed (simp add: truthful_error)
  qed (simp add: claim_told[OF short])
  moreover have "truthful L k Nothing (bindT (append_event_thread L rt a ''idempotency_key_missing'' None None)
      (\<lambda>_. failure_thread L rt a att ''idempotency_key_missing''
          ''The registered contract requires an idempotency key.'' PyNone None))"
    by (intro truthful_step[OF same_thread.pieces(1)] truthful_last[OF same_thread.pieces(2) failure_fails])
  ultimately show ?thesis unfolding reserve_key_thread_def by (simp add: k)
qed

lemma truthful_execute:
  assumes "serializer_documented L" and "rt_idempotency rt = InMemoryIdempotencyBackend clk"
    and "ai_idempotency_key a = Some k" and "ShortText L k = Some k"
  shows "truthful L k Nothing (execute_thread L rt a x)"
  unfolding execute_thread_def check_contract_thread_def check_policy_thread_def check_approval_thread_def
  by (intro truthful_reserve_key[OF assms] truthful_cases truthful_last[OF same_thread.pieces(2) failure_fails]
      truthful_step same_rules)

section \<open>The executions of other keys\<close>

interpretation other_key: outside_relation L rt a "\<lambda>s t. records t k = records s k"
  by unfold_locales (drule beyond_same, simp, simp add: keeps_snd[OF append_event_records])

lemma claim_other:
  assumes "k' \<noteq> k"
  shows "obeys (\<lambda>s t. records t k = records s k) (atomic (claim L (InMemoryIdempotencyBackend clk) k'))"
proof (rule obeys_atomic, unfold along_def, rule allI)
  fix s :: "('e, 'y) idem_world_scheme"
  show "records (snd (claim L (InMemoryIdempotencyBackend clk) k' s)) k = records s k"
    using assms
    by (cases "records s k'") (auto simp: claim_def in_memory_claim_old in_memory_claim_new Let_def split: sum.splits)
qed

lemma complete_other:
  assumes "rt_idempotency rt = InMemoryIdempotencyBackend clk"
    and "\<And>c. held = Some c \<Longrightarrow> ir_key (ic_record c) \<noteq> k"
  shows "obeys (\<lambda>s t. records t k = records s k) (complete_claim_thread L rt held r)"
  unfolding complete_claim_thread_def
proof (rule obeys_atomic, unfold along_def, rule allI)
  fix s
  show "records (snd (complete_claim L rt held r s)) k = records s k"
    using assms
    by (cases held) (auto simp: complete_claim_def mark_completed_def in_memory_mark_completed_cases bindM_cases
        split: option.splits sum.splits)
qed

lemma handler_other: "obeys (\<lambda>s t. records t k = records s k) (tryT (call_handler_thread tool a))"
  by (rule obeys_mono[OF handler_same_records]) simp

lemma preconditions_other:
  assumes "rt_idempotency rt = InMemoryIdempotencyBackend clk"
    and "\<And>c. held = Some c \<Longrightarrow> ir_key (ic_record c) \<noteq> k"
  shows "obeys (\<lambda>s t. records t k = records s k) (check_preconditions_thread L rt a x tool att held)"
  unfolding check_preconditions_thread_def start_execution_thread_def run_handler_thread_def
    check_output_thread_def check_postconditions_thread_def succeed_thread_def
  by (intro obeys_basic obeys_bindT[OF handler_other] obeys_bindT obeys_cases other_key.pieces other_key.checks
      other_key.clocks complete_other[OF assms])

lemma execute_other:
  assumes mem: "rt_idempotency rt = InMemoryIdempotencyBackend clk" and "ai_idempotency_key a \<noteq> Some k"
    and short: "\<And>k'. ai_idempotency_key a = Some k' \<Longrightarrow> ShortText L k' = Some k'"
  shows "obeys (\<lambda>s t. records t k = records s k) (execute_thread L rt a x)"
proof -
  have claimed: "obeys (\<lambda>s t. records t k = records s k) (bindT (atomic (claim L (rt_idempotency rt) k')) (\<lambda>c.
      if \<not> ic_acquired c then replay_thread L rt a att (ic_record c)
      else check_preconditions_thread L rt a x tool att (Some c)))"
    if k': "ai_idempotency_key a = Some k'" for k' tool att
  proof (rule obeys_bind_returns[where Q = "\<lambda>c. ic_acquired c \<longrightarrow> ir_key (ic_record c) = k'"])
    show "obeys (\<lambda>s t. records t k = records s k) (atomic (claim L (rt_idempotency rt) k'))"
      unfolding mem using assms(2) k' by (intro claim_other) simp
    show "returns (\<lambda>c. ic_acquired c \<longrightarrow> ir_key (ic_record c) = k') (atomic (claim L (rt_idempotency rt) k'))"
      unfolding mem
    proof (rule returns_atomic)
      fix s c s'
      assume "claim L (InMemoryIdempotencyBackend clk) k' s = (Inr c, s')"
      then show "ic_acquired c \<longrightarrow> ir_key (ic_record c) = k'"
        using claim_told(3)[OF short[OF k'], of clk s c] by simp
    qed
    show "obeys (\<lambda>s t. records t k = records s k) (if \<not> ic_acquired c then replay_thread L rt a att (ic_record c)
        else check_preconditions_thread L rt a x tool att (Some c))"
      if "ic_acquired c \<longrightarrow> ir_key (ic_record c) = k'" for c
      using that assms(2) k' by (intro obeys_cases other_key.replaying preconditions_other[OF mem]) auto
  qed
  have unclaimed: "obeys (\<lambda>s t. records t k = records s k) (check_preconditions_thread L rt a x tool att None)" for tool att
    by (rule preconditions_other[OF mem]) simp
  have "obeys (\<lambda>s t. records t k = records s k) (reserve_key_thread L rt a x tool att)" for tool att
    unfolding reserve_key_thread_def by (intro claimed unclaimed obeys_cases obeys_bindT other_key.pieces)
  then show ?thesis
    unfolding execute_thread_def check_contract_thread_def check_policy_thread_def check_approval_thread_def
    by (intro obeys_intros other_key.pieces other_key.evaluation other_key.approval other_key.clocks)
qed

section \<open>Pools\<close>

text \<open>What the threads of \<open>k\<close> know holds, and at most one of them holds the record.\<close>

definition agreeing ::
  "'z rt_libs_scheme \<Rightarrow> string \<Rightarrow> (nat \<Rightarrow> bool) \<Rightarrow> (nat \<Rightarrow> knowledge) \<Rightarrow>
   (('e, 'y) idem_world_scheme, execution_result) pool \<Rightarrow> bool" where
  "agreeing L k P h p \<longleftrightarrow> list_all (obeys records_evolve) (fst p) \<and>
     (\<forall>i < length (fst p). \<not> P i \<longrightarrow> obeys (\<lambda>s t. records t k = records s k) (fst p ! i)) \<and>
     (\<forall>i < length (fst p). P i \<longrightarrow> truthful L k (h i) (fst p ! i) \<and> knows k (h i) (snd p)) \<and>
     (\<forall>i j. i < length (fst p) \<and> j < length (fst p) \<and> P i \<and> P j \<and> is_holding (h i) \<and> is_holding (h j) \<longrightarrow> i = j)"

lemma knows_holding: "knows k h s \<Longrightarrow> is_holding h \<Longrightarrow> records s k \<noteq> None"
  by (cases h) simp_all

lemma knows_permitted:
  assumes "records_evolve s t" and "permits k h n s t" and "knows k h' s" and "is_holding h' \<Longrightarrow> \<not> is_holding h"
  shows "knows k h' t"
  using assms records_evolve_completed[OF assms(1)] by (cases h') (auto simp: permits_def)

lemma agreeing_step:
  assumes inv: "agreeing L k P h p"
  shows "\<exists>h'. agreeing L k P h' (thread_step i p)"
proof -
  let ?q = "thread_step i p"
  have step: "list_all (obeys records_evolve) (fst ?q) \<and> records_evolve (snd p) (snd ?q)"
    using inv by (intro thread_step_obeys) (simp_all add: agreeing_def recs.refl)
  show ?thesis
  proof (cases "i < length (fst p) \<and> (\<exists>m. fst p ! i = Pending m)")
    case False
    then have "?q = p" by (auto simp: thread_step_def split: thread.split)
    then show ?thesis using inv by auto
  next
    case True
    then obtain m where i: "i < length (fst p)" and m: "fst p ! i = Pending m" by blast
    let ?t = "snd (m (snd p))"
    have q: "?q = ((fst p)[i := fst (m (snd p))], ?t)"
      using i m by (simp add: thread_step_def split_def)
    note now = inv[unfolded agreeing_def]
    show ?thesis
    proof (cases "P i")
      case False
      then have "obeys (\<lambda>s t. records t k = records s k) (Pending m)" using now i m by metis
      then have same: "records ?t k = records (snd p) k"
        "obeys (\<lambda>s t. records t k = records s k) (fst (m (snd p)))" by (auto elim: obeys_PendingE)
      have "agreeing L k P h ?q"
        unfolding agreeing_def using step now i same False by (auto simp: q nth_list_update knows_same)
      then show ?thesis by blast
    next
      case True
      then have "truthful L k (h i) (Pending m)" and known: "knows k (h i) (snd p)" using now i m by metis+
      then obtain n where n: "truthful L k n (fst (m (snd p)))" "knows k n ?t" "permits k (h i) n (snd p) ?t"
        by (auto elim!: truthful_PendingE)
      have others: "knows k (h j) ?t" if j: "j < length (fst p)" "P j" "j \<noteq> i" for j
      proof (rule knows_permitted[OF _ n(3)])
        show "records_evolve (snd p) ?t" using step by (simp add: q)
        show "knows k (h j) (snd p)" using now j by blast
        show "\<not> is_holding (h i)" if "is_holding (h j)" using now i j True that by blast
      qed
      have alone: "\<not> is_holding (h j)" if "is_holding n" "j < length (fst p)" "P j" "j \<noteq> i" for j
        using now i that True n(3) knows_holding[of k "h j" "snd p"] by (auto simp: permits_def)
      have "agreeing L k P (h(i := n)) ?q"
        unfolding agreeing_def using step now i True n(1,2) others alone
        by (auto simp: q nth_list_update)
      then show ?thesis by blast
    qed
  qed
qed

lemma agreeing_schedule: "agreeing L k P h p \<Longrightarrow> \<exists>h'. agreeing L k P h' (run_schedule is p)"
proof (induction "is" arbitrary: h p)
  case (Cons i "is")
  from agreeing_step[OF Cons.prems] Cons.IH show ?case by fastforce
qed auto

text \<open>The executions of a pool, those of a key and the others.\<close>

lemma pool_by_key:
  assumes "\<forall>(rt, a, x) \<in> set qs. in_memory_keys rt \<and> (\<forall>k. ai_idempotency_key a = Some k \<longrightarrow> ShortText L k = Some k)"
    and i: "i < length qs"
    and "\<And>rt clk a x. rt_idempotency rt = InMemoryIdempotencyBackend clk \<Longrightarrow> ai_idempotency_key a = Some k \<Longrightarrow>
      ShortText L k = Some k \<Longrightarrow> Q (execute_thread L rt a x)"
  shows "if request_key qs i = Some k then Q (fst (execution_pool L qs s) ! i)
    else obeys (\<lambda>s t. records t k = records s k) (fst (execution_pool L qs s) ! i)"
proof -
  obtain rt a x where q: "qs ! i = (rt, a, x)" by (cases "qs ! i")
  then have "(rt, a, x) \<in> set qs" using i nth_mem by fastforce
  with assms(1) obtain clk where mem: "rt_idempotency rt = InMemoryIdempotencyBackend clk"
    and short: "\<And>k. ai_idempotency_key a = Some k \<Longrightarrow> ShortText L k = Some k"
    by (fastforce simp: in_memory_keys_def)
  show ?thesis
    using q i execute_other[OF mem _ short, where k = k and x = x] assms(3)[OF mem _ short]
    by (auto simp: execution_pool_def request_key_def)
qed

lemma execution_pool_agreeing:
  assumes "serializer_documented L"
    and "\<forall>(rt, a, x) \<in> set qs. in_memory_keys rt \<and> (\<forall>k. ai_idempotency_key a = Some k \<longrightarrow> ShortText L k = Some k)"
  shows "agreeing L k (\<lambda>i. request_key qs i = Some k) (\<lambda>_. Nothing) (execution_pool L qs s)"
proof -
  have "if request_key qs i = Some k then truthful L k Nothing (fst (execution_pool L qs s) ! i)
      else obeys (\<lambda>s t. records t k = records s k) (fst (execution_pool L qs s) ! i)" if "i < length qs" for i
    by (rule pool_by_key[OF assms(2) that], rule truthful_execute[OF assms(1)])
  moreover have "length (fst (execution_pool L qs s)) = length qs" by (simp add: execution_pool_def)
  ultimately show ?thesis by (simp add: agreeing_def pool_evolves)
qed

lemma agreeing_recorded:
  fixes t :: "('e, 'y) idem_world_scheme"
  assumes "agreeing L k P h (ts, t)" and "i < length ts" and "P i" and "ts ! i = Ended (Inr r)" and "er_succeeded r"
  shows "recorded L k r t"
proof -
  have "\<forall>i < length ts. P i \<longrightarrow> truthful L k (h i) (ts ! i) \<and> knows k (h i) t"
    using assms(1) by (simp add: agreeing_def)
  with assms(2,3) have "truthful L k (h i) (ts ! i)" and known: "knows k (h i) t" by blast+
  then have "truthful L k (h i) (Ended (Inr r) :: (('e, 'y) idem_world_scheme, execution_result) thread)"
    by (simp only: assms(4))
  then show ?thesis using known assms(5) by (auto elim: truthful_EndedE)
qed

lemma pool_success_recorded:
  assumes "serializer_documented L"
    and "\<forall>(rt, a, x) \<in> set qs. in_memory_keys rt \<and> (\<forall>k. ai_idempotency_key a = Some k \<longrightarrow> ShortText L k = Some k)"
    and run: "run_schedule schedule (execution_pool L qs s) = (ts, t)"
    and i: "request_key qs i = Some k" and "ts ! i = Ended (Inr r)" and "er_succeeded r"
  shows "recorded L k r t"
proof -
  obtain h where h: "agreeing L k (\<lambda>i. request_key qs i = Some k) h (ts, t)"
    using agreeing_schedule[OF execution_pool_agreeing[OF assms(1,2), of k s], of schedule] run by auto
  have "length ts = length qs"
    using run_schedule_length[of schedule "execution_pool L qs s"] unfolding run by (simp add: execution_pool_def)
  then have "i < length ts" using i by (auto simp: request_key_def split: if_splits)
  from agreeing_recorded[OF h this i assms(5,6)] show ?thesis .
qed

lemma sample_requests_scheduled:
  obtains schedule t where "run_schedule schedule (execution_pool sample_rt_libs sample_requests (sample_state ())) =
    ([Ended (Inr sample_result), Ended (Inr sample_result)], t)"
proof (rule sample_first)
  fix t
  assume run: "sample_execute (sample_state ()) = (Inr sample_result, t)"
    and "fst (sample_execute t) = Inr sample_result"
  then obtain u where u: "sample_execute t = (Inr sample_result, u)" by (metis prod.collapse)
  from run u have "run_all sample_rt_libs sample_requests (sample_state ()) = ([Inr sample_result, Inr sample_result], u)"
    by (simp add: sample_execute_def)
  then show thesis
    using run_all_scheduled[of sample_rt_libs sample_requests "sample_state ()"] by (auto intro: that)
qed

text \<open>
  C6: All callers of a key are told the same, under every interleaving. Executions of whatever
  actions run at once over one in-memory store, from whatever store. When an execution has
  ended with a success under a key, the store holds a completed record of the key whose result
  decodes to the very result that was returned; so any two of them that report success under
  one key report the same result.
\<close>

theorem concurrent_agreement:
  assumes "serializer_documented L"
    and "\<forall>(rt, a, x) \<in> set qs. in_memory_keys rt \<and> (\<forall>k. ai_idempotency_key a = Some k \<longrightarrow> ShortText L k = Some k)"
    and "run_schedule schedule (execution_pool L qs s) = (ts, t)"
    and "request_key qs i = Some k" and "ts ! i = Ended (Inr r)" and "er_succeeded r"
    and "request_key qs j = Some k" and "ts ! j = Ended (Inr r')" and "er_succeeded r'"
  shows "(\<exists>q. records t k = Some q \<and> ir_status q = COMPLETED \<and> decode_execution_result L (ir_result q) = Inr r) \<and> r' = r"
proof -
  note recorded = pool_success_recorded[OF assms(1-3)]
  have "recorded L k r t" "recorded L k r' t"
    using recorded[OF assms(4-6)] recorded[OF assms(7-9)] by simp_all
  then show ?thesis by (auto simp: recorded_def)
qed

theorem concurrent_agreement_witness:
  "\<exists>schedule ts t q. run_schedule schedule (execution_pool sample_rt_libs sample_requests (sample_state ())) = (ts, t) \<and>
     ts = [Ended (Inr sample_result), Ended (Inr sample_result)] \<and> records t ''k'' = Some q \<and> ir_status q = COMPLETED"
proof -
  obtain schedule t where s: "run_schedule schedule (execution_pool sample_rt_libs sample_requests (sample_state ())) =
      ([Ended (Inr sample_result), Ended (Inr sample_result)], t)" by (rule sample_requests_scheduled)
  have "er_succeeded sample_result" by (simp add: sample_result_def)
  then have "\<exists>q. records t ''k'' = Some q \<and> ir_status q = COMPLETED"
    using concurrent_agreement[OF sample_serializer_documented _ s, of 0 "''k''" sample_result 1 sample_result]
      sample_short by (auto simp: in_memory_keys_def request_key_def sample_key)
  with s show ?thesis by blast
qed

end
