(* ===== verification/Exactly_Once.thy ===== *)
theory Exactly_Once
  imports Agreement
begin

text \<open>
  At most once and at least once together. A success is stored under a key only by a thread
  that has called the handler; so when an execution of a new key ends with a success, the
  handler has been called exactly once by all the executions of the key together.
\<close>

section \<open>A stored success has been earned\<close>

definition success_stored :: "'z rt_libs_scheme \<Rightarrow> string \<Rightarrow> ('e, 'y) idem_world_scheme \<Rightarrow> bool" where
  "success_stored L k s \<longleftrightarrow> (\<exists>r. recorded L k r s \<and> er_succeeded r)"

text \<open>
  \<open>earned L k b t\<close>: of the steps of \<open>t\<close>, only those after an effectful call of \<open>t\<close> store a
  success under \<open>k\<close>; \<open>b\<close> tells whether \<open>t\<close> has made such a call.
\<close>

inductive earned ::
  "'z rt_libs_scheme \<Rightarrow> string \<Rightarrow> bool \<Rightarrow> (('e, 'y) idem_world_scheme, 'a) thread \<Rightarrow> bool"
  for L k where
  Ended: "earned L k b (Ended r)"
| Pending: "(\<And>s. earned L k (calling s) (fst (m s))) \<Longrightarrow>
    (\<And>s. calling s \<Longrightarrow> b \<or> length (calls s) < length (calls (snd (m s)))) \<Longrightarrow>
    (\<And>s. success_stored L k (snd (m s)) \<Longrightarrow> success_stored L k s \<or> b) \<Longrightarrow>
    earned L k b (Pending m)"

inductive_cases earned_PendingE: "earned L k b (Pending m)"

lemma earned_called: "earned L k True t"
proof (induction t rule: thread_induct)
  case (Pending m)
  then show ?case by (intro earned.Pending[where calling = "\<lambda>_. True"]) simp_all
qed (rule earned.Ended)

lemma stored_same: "records t k = records s k \<Longrightarrow> success_stored L k t \<longleftrightarrow> success_stored L k s"
  by (simp add: success_stored_def recorded_def)

lemma stored_noted: "success_stored L k (s\<lparr>calls := cs\<rparr>) \<longleftrightarrow> success_stored L k s"
  by (rule stored_same) simp

lemma earned_then:
  assumes "obeys same_records t" and "returns Q t" and "\<And>x. Q x \<Longrightarrow> earned L k False (f x)"
  shows "earned L k False (bindT t f)"
  using assms(1,2)
proof (induction rule: obeys.induct)
  case (Ended r)
  then show ?case
    using assms(3) by (cases r) (auto elim!: returns_EndedE intro: earned.Ended)
next
  case (Pending m)
  then have same: "success_stored L k (snd (m s)) = success_stored L k s" for s
    by (intro stored_same) simp
  from Pending show ?case
    unfolding Pending_fst_snd
    by (intro earned.Pending[where calling = "\<lambda>_. False"]) (auto elim: returns_PendingE simp: same)
qed

lemma earned_step: "obeys same_records t \<Longrightarrow> (\<And>x. earned L k False (f x)) \<Longrightarrow> earned L k False (bindT t f)"
  by (rule earned_then[OF _ returns_any])

lemma earned_last: "obeys same_records t \<Longrightarrow> earned L k False t"
proof (induction rule: obeys.induct)
  case (Pending m)
  then have same: "success_stored L k (snd (m s)) = success_stored L k s" for s
    by (intro stored_same) simp
  from Pending show ?case
    by (intro earned.Pending[where calling = "\<lambda>_. False"]) (auto simp: same)
qed (rule earned.Ended)

lemma earned_cases:
  "(c \<Longrightarrow> earned L k b t) \<Longrightarrow> (\<not> c \<Longrightarrow> earned L k b u) \<Longrightarrow> earned L k b (if c then t else u)"
  "(x = None \<Longrightarrow> earned L k b t) \<Longrightarrow> (\<And>y. x = Some y \<Longrightarrow> earned L k b (f y)) \<Longrightarrow>
     earned L k b (case x of None \<Rightarrow> t | Some y \<Rightarrow> f y)"
  "(\<And>a. z = Inl a \<Longrightarrow> earned L k b (g a)) \<Longrightarrow> (\<And>c. z = Inr c \<Longrightarrow> earned L k b (h c)) \<Longrightarrow>
     earned L k b (case z of Inl a \<Rightarrow> g a | Inr c \<Rightarrow> h c)"
  "(\<And>v. earned L k b (l v)) \<Longrightarrow> earned L k b (let v = w in l v)"
  by (auto split: option.split sum.split)

section \<open>The stages\<close>

text \<open>A claim stores a record in progress, and the completion of a failure stores the failure.\<close>

lemma claim_stores:
  "success_stored L k (snd (claim L (InMemoryIdempotencyBackend clk) k' s)) \<Longrightarrow> success_stored L k s"
  by (cases "records s k'")
    (auto simp: claim_def in_memory_claim_old in_memory_claim_new Let_def success_stored_def recorded_def
      IdempotencyRecord_IN_PROGRESS split: sum.splits if_splits option.splits)

lemma failure_stores:
  assumes "serializer_documented L" and "rt_idempotency rt = InMemoryIdempotencyBackend clk"
    and "\<not> er_succeeded r" and "storable L r"
    and "success_stored L k (snd (complete_claim L rt held r s))"
  shows "success_stored L k s"
proof -
  have "decode_execution_result L (model_dump L r) = Inr r"
    using assms(1,4) by (simp add: serializer_documented_def)
  then show ?thesis
    using assms(2,3,5)
    by (cases held) (auto simp: complete_claim_def mark_completed_def in_memory_mark_completed_cases bindM_cases
        success_stored_def recorded_def elim!: IdempotencyRecord_elim split: option.splits sum.splits if_splits)
qed

lemma earned_claim:
  "(\<And>c. earned L k False (f c)) \<Longrightarrow>
   earned L k False (bindT (atomic (claim L (InMemoryIdempotencyBackend clk) k')) f)"
  unfolding Pending_fst_snd
  by (intro earned.Pending[where calling = "\<lambda>_. False"])
    (auto intro: earned.Ended dest: claim_stores split: sum.split)

lemma earned_failure:
  assumes "serializer_documented L" and "rt_idempotency rt = InMemoryIdempotencyBackend clk"
  shows "earned L k False (bindT (failure_thread L rt a att code msg PyNone pv) (\<lambda>result.
      bindT (complete_claim_thread L rt held result) (\<lambda>_. retT result)))"
proof (rule earned_then[OF same_thread.pieces(2)])
  show "returns (\<lambda>r. \<not> er_succeeded r \<and> storable L r) (failure_thread L rt a att code msg PyNone pv)"
    unfolding failure_thread_def by (rule returns_atomic) (auto simp: failure_Inr storable_def)
  show "earned L k False (bindT (complete_claim_thread L rt held r) (\<lambda>_. retT r))"
    if "\<not> er_succeeded r \<and> storable L r" for r
    unfolding complete_claim_thread_def Pending_fst_snd using failure_stores[OF assms] that
    by (intro earned.Pending[where calling = "\<lambda>_. False"])
      (auto simp: retT_def intro: earned.Ended split: sum.split)
qed

lemma earned_handler: "earned L k False (run_handler_thread L rt a x tool att held)"
  unfolding run_handler_thread_def call_handler_thread_def noted_first
  by (rule earned.Pending[where calling = "\<lambda>_. True"]) (simp_all add: earned_called stored_noted)

lemma earned_preconditions:
  assumes "serializer_documented L" and "rt_idempotency rt = InMemoryIdempotencyBackend clk"
  shows "earned L k False (check_preconditions_thread L rt a x tool att held)"
  unfolding check_preconditions_thread_def start_execution_thread_def
  by (intro earned_failure[OF assms] earned_handler earned_cases earned_step
      same_thread.checks same_thread.pieces(1))

lemma earned_execute:
  assumes "serializer_documented L" and mem: "rt_idempotency rt = InMemoryIdempotencyBackend clk"
  shows "earned L k False (execute_thread L rt a x)"
  unfolding execute_thread_def check_contract_thread_def check_policy_thread_def check_approval_thread_def
    reserve_key_thread_def mem
  by (intro earned_claim earned_preconditions[OF assms] earned_cases earned_last[OF same_thread.pieces(2)]
      earned_last[OF same_thread.replaying] earned_step same_rules)

section \<open>Pools\<close>

definition earning ::
  "'z rt_libs_scheme \<Rightarrow> string \<Rightarrow> (nat \<Rightarrow> bool) \<Rightarrow> (nat \<Rightarrow> bool) \<Rightarrow>
   (('e, 'y) idem_world_scheme, 'a) pool \<Rightarrow> bool" where
  "earning L k P b p \<longleftrightarrow>
     (\<forall>i < length (fst p). if P i then earned L k (b i) (fst p ! i)
        else obeys (\<lambda>s t. records t k = records s k) (fst p ! i))"

lemma earning_step:
  assumes inv: "earning L k P b p"
  obtains b' where "earning L k P b' (thread_step i p)"
    and "\<And>j. P j \<Longrightarrow> b' j \<Longrightarrow> b j \<or> calls_made P [i] p > 0"
    and "success_stored L k (snd (thread_step i p)) \<Longrightarrow> success_stored L k (snd p) \<or> P i \<and> b i"
proof (cases "i < length (fst p) \<and> (\<exists>m. fst p ! i = Pending m)")
  case False
  then have "thread_step i p = p" by (auto simp: thread_step_def split: thread.split)
  then show thesis using inv by (intro that[of b]) auto
next
  case True
  then obtain m where i: "i < length (fst p)" and m: "fst p ! i = Pending m" by blast
  let ?t = "snd (m (snd p))"
  have q: "thread_step i p = ((fst p)[i := fst (m (snd p))], ?t)"
    using i m by (simp add: thread_step_def split_def)
  show thesis
  proof (cases "P i")
    case False
    then have "obeys (\<lambda>s t. records t k = records s k) (Pending m)"
      using inv i m unfolding earning_def by metis
    then have same: "records ?t k = records (snd p) k"
      "obeys (\<lambda>s t. records t k = records s k) (fst (m (snd p)))" by (auto elim: obeys_PendingE)
    have "earning L k P b (thread_step i p)"
      using inv i same(2) False by (auto simp: earning_def q nth_list_update)
    then show thesis using stored_same[OF same(1), of L] by (intro that[of b]) (simp_all add: q)
  next
    case P: True
    then have "earned L k (b i) (Pending m)" using inv i m unfolding earning_def by metis
    then obtain l where l: "earned L k l (fst (m (snd p)))"
      "l \<Longrightarrow> b i \<or> length (calls (snd p)) < length (calls ?t)"
      "success_stored L k ?t \<Longrightarrow> success_stored L k (snd p) \<or> b i"
      by (rule earned_PendingE) blast
    have "earning L k P (b(i := l)) (thread_step i p)"
      using inv i l(1) P by (auto simp: earning_def q nth_list_update)
    then show thesis using l(2,3) P by (intro that[of "b(i := l)"]) (auto simp: q split: if_splits)
  qed
qed

lemma earning_calls:
  "earning L k P b p \<Longrightarrow> success_stored L k (snd (run_schedule is p)) \<Longrightarrow>
   success_stored L k (snd p) \<or> (\<exists>i. P i \<and> b i) \<or> calls_made P is p > 0"
proof (induction "is" arbitrary: b p)
  case (Cons i "is")
  obtain b' where b': "earning L k P b' (thread_step i p)"
    "\<And>j. P j \<Longrightarrow> b' j \<Longrightarrow> b j \<or> calls_made P [i] p > 0"
    "success_stored L k (snd (thread_step i p)) \<Longrightarrow> success_stored L k (snd p) \<or> P i \<and> b i"
    using earning_step[OF Cons.prems(1)] by metis
  have "calls_made P [i] p > 0 \<Longrightarrow> calls_made P (i # is) p > 0" by simp
  with Cons.IH[OF b'(1)] Cons.prems(2) b'(2,3) show ?case by fastforce
qed simp

lemma execution_pool_earning:
  assumes "serializer_documented L"
    and "\<forall>(rt, a, x) \<in> set qs. in_memory_keys rt \<and> (\<forall>k. ai_idempotency_key a = Some k \<longrightarrow> ShortText L k = Some k)"
  shows "earning L k (\<lambda>i. request_key qs i = Some k) (\<lambda>_. False) (execution_pool L qs s)"
proof -
  have "if request_key qs i = Some k then earned L k False (fst (execution_pool L qs s) ! i)
      else obeys (\<lambda>s t. records t k = records s k) (fst (execution_pool L qs s) ! i)" if "i < length qs" for i
    by (rule pool_by_key[OF assms(2) that], rule earned_execute[OF assms(1)])
  moreover have "length (fst (execution_pool L qs s)) = length qs" by (simp add: execution_pool_def)
  ultimately show ?thesis by (simp add: earning_def)
qed

text \<open>
  C5: Exactly once. Executions run at once over one in-memory store that has no record of the
  key, and are interleaved in any way. When any of the executions of the key has ended with a
  success, then all of them together have called a handler exactly once.
\<close>

theorem concurrent_exactly_once:
  assumes "serializer_documented L"
    and "\<forall>(rt, a, x) \<in> set qs. in_memory_keys rt \<and> (\<forall>k. ai_idempotency_key a = Some k \<longrightarrow> ShortText L k = Some k)"
    and "records s k = None"
    and "run_schedule schedule (execution_pool L qs s) = (ts, t)"
    and "request_key qs i = Some k" and "ts ! i = Ended (Inr r)" and "er_succeeded r"
  shows "calls_made (\<lambda>i. request_key qs i = Some k) schedule (execution_pool L qs s) = 1"
proof -
  let ?P = "\<lambda>i. request_key qs i = Some k" and ?p = "execution_pool L qs s"
  have "recorded L k r t" using assms by (intro pool_success_recorded)
  with assms(4,7) have "success_stored L k (snd (run_schedule schedule ?p))" by (auto simp: success_stored_def)
  from earning_calls[OF execution_pool_earning[OF assms(1,2)] this]
  have "calls_made ?P schedule ?p > 0"
    using assms(3) by (auto simp: execution_pool_def success_stored_def recorded_def)
  moreover have "\<forall>(rt, a, x) \<in> set qs. in_memory_keys rt" using assms(2) by auto
  from keyed_calls_made[OF this, of k schedule L s] have "calls_made ?P schedule ?p \<le> 1"
    using assms(3) by simp
  ultimately show ?thesis by simp
qed

theorem concurrent_exactly_once_witness:
  "\<exists>schedule. fst (run_schedule schedule (execution_pool sample_rt_libs sample_requests (sample_state ()))) =
       [Ended (Inr sample_result), Ended (Inr sample_result)] \<and>
     calls_made (\<lambda>i. request_key sample_requests i = Some ''k'') schedule
       (execution_pool sample_rt_libs sample_requests (sample_state ())) = 1"
proof -
  obtain schedule t where s: "run_schedule schedule (execution_pool sample_rt_libs sample_requests (sample_state ())) =
      ([Ended (Inr sample_result), Ended (Inr sample_result)], t)" by (rule sample_requests_scheduled)
  have "er_succeeded sample_result" "records (sample_state ()) ''k'' = None"
    by (simp_all add: sample_result_def sample_state_def)
  then have "calls_made (\<lambda>i. request_key sample_requests i = Some ''k'') schedule
      (execution_pool sample_rt_libs sample_requests (sample_state ())) = 1"
    using concurrent_exactly_once[OF sample_serializer_documented _ _ s, of "''k''" 0 sample_result]
      sample_short by (auto simp: in_memory_keys_def request_key_def sample_key)
  with s show ?thesis by (intro exI[of _ schedule]) simp
qed

end
