(* ===== verification/Audit_First.thy ===== *)
theory Audit_First
  imports Concurrency Runtime_Audit
begin

text \<open>
  The audit comes first, under every interleaving: an execution calls a handler only on the
  credit of an \<^verbatim>\<open>execution_started\<close> event that it has recorded itself.
\<close>

section \<open>Calls on the credit of recorded starts\<close>

definition start_event :: "uuid \<Rightarrow> ledger_event \<Rightarrow> bool" where
  "start_event i e \<longleftrightarrow> le_event_type e = ''execution_started'' \<and> le_correlation_id e = i"

definition starts :: "uuid \<Rightarrow> ('e, 'y) ledger_world_scheme \<Rightarrow> nat" where
  "starts i s = length (filter (start_event i) (events s))"

definition grants :: "uuid \<Rightarrow> ('e, 'y) ledger_world_scheme \<Rightarrow> ('e, 'y) ledger_world_scheme \<Rightarrow> nat" where
  "grants i s t = starts i t - starts i s"

lemma grants_step: "audit_grows ids s t \<Longrightarrow> grants i s t + starts i s \<le> starts i t"
  by (auto simp: audit_grows_def grants_def starts_def)

lemma start_granted:
  assumes "pydantic_documented L" and "rt_ledger rt = InMemoryLedger clk"
    and "append_event L rt a ''execution_started'' tid ds s = (Inr True, t)"
  shows "grants (ai_intent_id a) s t = 1"
  using append_event_recorded[OF assms(3,2) runtime_event_names(4)[OF assms(1)]]
  by (auto simp: grants_def starts_def start_event_def runtime_event_def)

lemma start_execution_spends:
  assumes "pydantic_documented L" and "rt_ledger rt = InMemoryLedger clk"
  shows "spends (grants (ai_intent_id a)) 0 (start_execution_thread L rt a x tool att held)"
  unfolding start_execution_thread_def append_event_thread_def
  by (rule earning_then[where E = "\<lambda>recorded. recorded"], rule keeps_runtime_calls,
      simp add: start_granted[OF assms])
    (simp_all only: not_True_eq_False not_False_eq_True if_True if_False, rule handler_spends,
      intro quiet_then quiet_rules quiet_spends obeys_basic)

lemma claim_quiet: "obeys quiet (atomic (claim L b k))"
  by (rule obeys_atomic) (auto simp: along_def intro!: keeps_snd keeps_intros)

lemma execute_audited:
  assumes "pydantic_documented L" and "rt_ledger rt = InMemoryLedger clk"
  shows "spends (grants (ai_intent_id a)) 0 (execute_thread L rt a x)"
  unfolding execute_thread_def check_contract_thread_def check_policy_thread_def check_approval_thread_def
    reserve_key_thread_def check_preconditions_thread_def
  by (intro start_execution_spends[OF assms] quiet_then quiet_rules claim_quiet obeys_tryT obeys_basic
      spends_cases quiet_spends)

text \<open>
  The audit comes first, under every interleaving. Executions run at once, those of an
  intent over an in-memory ledger, from whatever state. At every moment the executions of the
  intent have made at most as many handler calls as there are new \<^verbatim>\<open>execution_started\<close>
  events of the intent in the ledger: no call is made before its event is recorded.
\<close>

theorem concurrent_calls_audited:
  assumes "pydantic_documented L"
    and "\<forall>(rt, a, x) \<in> set qs. ai_intent_id a = i \<longrightarrow> (\<exists>clk. rt_ledger rt = InMemoryLedger clk)"
    and "run_schedule schedule (execution_pool L qs s) = (ts, t)"
  shows "calls_made (\<lambda>j. j < length qs \<and> ai_intent_id (fst (snd (qs ! j))) = i) schedule (execution_pool L qs s) \<le>
    length (filter (\<lambda>e. le_event_type e = ''execution_started'' \<and> le_correlation_id e = i)
      (drop (length (events s)) (events t)))"
proof -
  let ?P = "\<lambda>j. j < length qs \<and> ai_intent_id (fst (snd (qs ! j))) = i" and ?p = "execution_pool L qs s"
  have "spends (grants i) 0 (execute_thread L rt a x)" if "(rt, a, x) \<in> set qs" "ai_intent_id a = i" for rt a x
    using assms(1,2) that execute_audited by fastforce
  then have "accounted (grants i) ?P (\<lambda>_. 0) ?p" by (rule execution_pool_accounted)
  from calls_on_credit[OF this, of schedule]
  have "calls_made ?P schedule ?p \<le> total (grants i) ?P schedule ?p" by simp
  moreover have "total (grants i) ?P schedule ?p + starts i (snd ?p) \<le> starts i (snd (run_schedule schedule ?p))"
    by (rule total_bound[OF pool_grows]) (rule grows.refl, rule grants_step)
  then have "total (grants i) ?P schedule ?p + starts i s \<le> starts i t"
    unfolding assms(3) by (simp add: execution_pool_def)
  moreover have "audit_grows ((\<lambda>(rt, a, x). ai_intent_id a) ` set qs) s t"
    using grows.scheduled[OF pool_grows[of qs L s], of schedule] unfolding assms(3) by (simp add: execution_pool_def)
  then obtain new where "events t = events s @ new" by (auto simp: audit_grows_def)
  ultimately show ?thesis by (simp add: starts_def start_event_def[abs_def])
qed

text \<open>Two executions at once that record their starts before the handler is called.\<close>

theorem concurrent_calls_audited_witness:
  "\<exists>ts t. run_schedule [0, 1, 1, 0, 0, 1, 0, 1, 0, 0, 0, 0, 0, 0, 1, 0]
       (execution_pool sample_rt_libs sample_requests (sample_state ())) = (ts, t) \<and>
     calls_made (\<lambda>j. j < 2 \<and> ai_intent_id (fst (snd (sample_requests ! j))) = 40)
       [0, 1, 1, 0, 0, 1, 0, 1, 0, 0, 0, 0, 0, 0, 1, 0]
       (execution_pool sample_rt_libs sample_requests (sample_state ())) \<le>
     length (filter (\<lambda>e. le_event_type e = ''execution_started'' \<and> le_correlation_id e = 40) (events t))"
proof -
  let ?schedule = "[0, 1, 1, 0, 0, 1, 0, 1, 0, 0, 0, 0, 0, 0, 1, 0]"
  obtain ts t where run: "run_schedule ?schedule (execution_pool sample_rt_libs sample_requests (sample_state ())) = (ts, t)"
    by (metis prod.collapse)
  have "\<forall>(rt, a, x) \<in> set sample_requests. ai_intent_id a = 40 \<longrightarrow> (\<exists>clk. rt_ledger rt = InMemoryLedger clk)"
    by simp
  moreover have "events (sample_state ()) = []" by (simp add: sample_state_def)
  ultimately show ?thesis
    using run concurrent_calls_audited[OF sample_rt_libs_documented _ run, of 40]
    by (simp add: numeral_2_eq_2 del: calls_made.simps run_schedule_simps)
qed


end
