(* ===== verification/Runtime_Reentrancy.thy ===== *)
theory Runtime_Reentrancy
  imports Concurrency
begin

text \<open>
  Handlers that call \<^verbatim>\<open>execute\<close> again. The runtime holds no lock while a handler runs, so a
  handler may itself execute further actions, its own among them. A handler is here a script
  of such executions, run between the start of the call and its return, while other threads
  go on; fuel bounds the depth of the nesting. With keys, the nesting ends by itself.
\<close>

section \<open>Handlers that execute\<close>

datatype 'e body =
  Leaves
| Acts "'e \<Rightarrow> 'e body \<times> 'e"
| Executes "'e request" "execution_result option \<Rightarrow> 'e body"

text \<open>\<open>None\<close> is what a nested \<^verbatim>\<open>execute\<close> that raises comes to, as the handler catches it.\<close>

primrec body_thread ::
  "('e request \<Rightarrow> (('e, 'y) idem_world_scheme, execution_result) thread) \<Rightarrow> 'e body \<Rightarrow>
   (('e, 'y) idem_world_scheme, unit) thread" where
  "body_thread ex Leaves = retT ()"
| "body_thread ex (Acts f) =
     Pending (\<lambda>s. (\<lambda>(go, e). (go, s\<lparr>ext := e\<rparr>)) ((map_prod (body_thread ex) id \<circ> f) (ext s)))"
| "body_thread ex (Executes q k) = bindT (tryT (ex q)) (body_thread ex \<circ> k)"

lemma body_thread_Acts:
  "body_thread ex (Acts f) = Pending (\<lambda>s. (body_thread ex (fst (f (ext s))), s\<lparr>ext := snd (f (ext s))\<rparr>))"
  by (simp add: map_prod_def split_def)

declare body_thread.simps(2) [simp del] body_thread_Acts [simp]

lemma body_induct [case_names Leaves Acts Executes]:
  assumes "P Leaves" and "\<And>f. (\<And>e. P (fst (f e))) \<Longrightarrow> P (Acts f)"
    and "\<And>q k. (\<And>r. P (k r)) \<Longrightarrow> P (Executes q k)"
  shows "P b"
  using assms by (induction b) (metis fsts.intros prod.collapse rangeI)+

text \<open>Every action that the body may execute is one of \<open>P\<close>.\<close>

inductive executes_by :: "('e request \<Rightarrow> bool) \<Rightarrow> 'e body \<Rightarrow> bool" for P where
  Leaves: "executes_by P Leaves"
| Acts: "(\<And>e. executes_by P (fst (f e))) \<Longrightarrow> executes_by P (Acts f)"
| Executes: "P q \<Longrightarrow> (\<And>r. executes_by P (k r)) \<Longrightarrow> executes_by P (Executes q k)"

text \<open>A thread in which each step that starts a call is followed by what the called handler does.\<close>

primrec reenter ::
  "(call \<Rightarrow> (('e, 'y) world_scheme, unit) thread) \<Rightarrow> (('e, 'y) world_scheme, 'a) thread \<Rightarrow>
   (('e, 'y) world_scheme, 'a) thread" where
  "reenter h (Ended r) = Ended r"
| "reenter h (Pending m) =
     Pending (\<lambda>s. (\<lambda>(go, s'). (if length (calls s') \<le> length (calls s) then go
        else bindT (tryT (h (last (calls s')))) (\<lambda>_. go), s')) ((map_prod (reenter h) id \<circ> m) s))"

lemma reenter_Pending:
  "reenter h (Pending m) = Pending (\<lambda>s. (if length (calls (snd (m s))) \<le> length (calls s) then reenter h (fst (m s))
     else bindT (tryT (h (last (calls (snd (m s)))))) (\<lambda>_. reenter h (fst (m s))), snd (m s)))"
  by (simp add: map_prod_def split_def cong: if_cong)

declare reenter.simps(2) [simp del] reenter_Pending [simp]

text \<open>
  \<^verbatim>\<open>execute\<close> with handlers that behave as \<open>hs\<close> says: \<open>hs c\<close> is what the handler of the call
  \<open>c\<close> executes before it returns. At the limit of the depth a handler executes nothing.
\<close>

fun execute_reentrant ::
  "'z rt_libs_scheme \<Rightarrow> (call \<Rightarrow> 'e body) \<Rightarrow> nat \<Rightarrow> 'e request \<Rightarrow>
   (('e, 'y) idem_world_scheme, execution_result) thread" where
  "execute_reentrant L hs 0 (rt, a, x) = execute_thread L rt a x"
| "execute_reentrant L hs (Suc n) (rt, a, x) =
     reenter (\<lambda>c. body_thread (execute_reentrant L hs n) (hs c)) (execute_thread L rt a x)"

text \<open>Handlers that execute nothing leave the runtime as it was.\<close>

lemma reenter_nothing: "reenter (\<lambda>_. retT ()) t = t"
proof (induction t rule: thread_induct)
  case (Pending m)
  then show ?case by (simp add: retT_def cong: if_cong)
qed simp

lemma execute_reentrant_plain: "execute_reentrant L (\<lambda>_. Leaves) n (rt, a, x) = execute_thread L rt a x"
  by (cases n) (simp_all add: reenter_nothing)

section \<open>What the steps of a re-entered thread do\<close>

lemma obeys_reenter: "obeys R t \<Longrightarrow> (\<And>c. obeys R (h c)) \<Longrightarrow> obeys R (reenter h t)"
  by (induction rule: obeys.induct) (auto intro!: obeys.intros obeys_bindT obeys_tryT)

lemma obeys_body:
  assumes "\<And>q. obeys R (ex q)" and "\<And>s e. R s (s\<lparr>ext := e\<rparr>)"
  shows "obeys R (body_thread ex b)"
  by (induction b rule: body_induct) (auto intro!: obeys_intros obeys.Pending assms)

lemma ext_evolves: "records_evolve s (s\<lparr>ext := e\<rparr>)"
  by (rule beyond_evolves(1)) (simp add: beyond_def)

lemma reentrant_evolves: "obeys records_evolve (execute_reentrant L hs n q)"
proof (induction n arbitrary: q)
  case 0
  show ?case by (cases q) (simp add: records_thread.execution)
next
  case (Suc n)
  then show ?case
    by (cases q) (auto intro!: obeys_reenter obeys_body records_thread.execution ext_evolves)
qed

section \<open>The calls of a re-entered thread\<close>

lemma spends_reenter:
  assumes "spends c n t" and "\<And>x. spends c 0 (h x)"
  shows "spends c n (reenter h t)"
  using assms(1)
proof (induction rule: spends.induct)
  case (Pending left m n)
  have "spends c (left s) (bindT (tryT (h x)) (\<lambda>_. reenter h (fst (m s))))" for x s
    using spends_then[OF spends_tryT[OF assms(2)] Pending.IH] by simp
  with Pending show ?case by (simp, intro spends.Pending[where left = left]) auto
qed (simp add: spends.Ended)

section \<open>Calls on the credit of new keys\<close>

definition keyed_in :: "string set \<Rightarrow> 'e request \<Rightarrow> bool" where
  "keyed_in K q \<longleftrightarrow> in_memory_keys (fst q) \<and> (\<exists>k \<in> K. ai_idempotency_key (fst (snd q)) = Some k)"

abbreviation executes_in :: "string set \<Rightarrow> 'e body \<Rightarrow> bool" where
  "executes_in K \<equiv> executes_by (keyed_in K)"

definition new_keys :: "string set \<Rightarrow> ('e, 'y) idem_world_scheme \<Rightarrow> ('e, 'y) idem_world_scheme \<Rightarrow> nat" where
  "new_keys K s t = card {k \<in> K. records s k = None \<and> records t k \<noteq> None}"

definition used_keys :: "string set \<Rightarrow> ('e, 'y) idem_world_scheme \<Rightarrow> nat" where
  "used_keys K s = card {k \<in> K. records s k \<noteq> None}"

definition free_keys :: "string set \<Rightarrow> ('e, 'y) idem_world_scheme \<Rightarrow> nat" where
  "free_keys K s = card {k \<in> K. records s k = None}"

lemma creates_new: "finite K \<Longrightarrow> k \<in> K \<Longrightarrow> creates k s t \<le> new_keys K s t"
  by (auto simp: creates_def new_keys_def Suc_le_eq card_gt_0_iff)

lemma used_step:
  assumes "finite K" and "records_evolve s t"
  shows "used_keys K t = used_keys K s + new_keys K s t"
proof -
  have "{k \<in> K. records t k \<noteq> None} = {k \<in> K. records s k \<noteq> None} \<union> {k \<in> K. records s k = None \<and> records t k \<noteq> None}"
    using records_evolve_found[OF assms(2)] by auto
  then show ?thesis
    unfolding used_keys_def new_keys_def using assms(1) by (simp add: card_Un_disjoint disjoint_iff)
qed

lemma free_step:
  assumes "finite K" and "records_evolve s t"
  shows "free_keys K s = free_keys K t + new_keys K s t"
proof -
  have "records s k = None" if "records t k = None" for k
    using records_evolve_found[OF assms(2), of k] that by blast
  then have "{k \<in> K. records s k = None} = {k \<in> K. records t k = None} \<union> {k \<in> K. records s k = None \<and> records t k \<noteq> None}"
    by auto
  then show ?thesis
    unfolding free_keys_def new_keys_def using assms(1) by (simp add: card_Un_disjoint disjoint_iff)
qed

lemma keyed_spends:
  assumes "finite K" and "keyed_in K (rt, a, x)"
  shows "spends (new_keys K) 0 (execute_thread L rt a x)"
proof -
  obtain k where k: "k \<in> K" "ai_idempotency_key a = Some k" and mem: "in_memory_keys rt"
    using assms(2) by (auto simp: keyed_in_def)
  then obtain clk where "rt_idempotency rt = InMemoryIdempotencyBackend clk" by (auto simp: in_memory_keys_def)
  from execute_spends[OF this k(2)] creates_new[OF assms(1) k(1)] show ?thesis by (rule spends_grants)
qed

lemma body_spends:
  assumes "executes_in K b" and "\<And>q. keyed_in K q \<Longrightarrow> spends c 0 (ex q)"
  shows "spends c 0 (body_thread ex b)"
  using assms(1)
proof (induction rule: executes_by.induct)
  case Leaves
  show ?case by (simp add: retT_def spends.Ended)
next
  case (Acts f)
  then show ?case by (simp, intro spends.Pending[where left = "\<lambda>_. 0"]) simp_all
next
  case (Executes q k)
  then show ?case using spends_then[where f = "body_thread ex \<circ> k" and n = 0, OF spends_tryT[OF assms(2)[OF Executes(1)]]] by simp
qed

lemma reentrant_spends:
  assumes "finite K" and "\<And>c. executes_in K (hs c)" and "keyed_in K q"
  shows "spends (new_keys K) 0 (execute_reentrant L hs n q)"
  using assms(3)
proof (induction n arbitrary: q)
  case 0
  then show ?case by (cases q) (simp add: keyed_spends[OF assms(1)])
next
  case (Suc n)
  then show ?case
    by (cases q) (auto intro!: spends_reenter keyed_spends[OF assms(1)] body_spends[OF assms(2)])
qed

section \<open>At most once, re-entrant handlers included\<close>

text \<open>
  C3: At most one call per key, re-entrant handlers included. Handlers may themselves execute any
  actions, to any depth, their own among them, and any number of executions and of their
  nested executions may interleave. If all of them carry keys of a finite set and use the
  in-memory store, then the handler calls made in total are at most as many as keys that got
  their record on the way; with one key, a handler that executes its own action again is
  called once.
\<close>

theorem reentrant_at_most_once:
  assumes "finite K" and "\<forall>c. executes_in K (hs c)" and "\<forall>q \<in> set qs. keyed_in K q"
    and "run_schedule schedule (map (execute_reentrant L hs n) qs, s) = (ts, t)"
  shows "length (calls t) \<le> length (calls s) + card {k \<in> K. records s k = None \<and> records t k \<noteq> None}"
proof -
  let ?p = "(map (execute_reentrant L hs n) qs, s)"
  have "accounted (new_keys K) (\<lambda>_. True) (\<lambda>_. 0) ?p"
    using assms(1-3) by (simp add: accounted_def reentrant_spends)
  from calls_on_credit[OF this, of schedule]
  have "calls_made (\<lambda>_. True) schedule ?p \<le> total (new_keys K) (\<lambda>_. True) schedule ?p" by simp
  moreover have evolves: "list_all (obeys records_evolve) (fst ?p)"
    by (simp add: list_all_iff reentrant_evolves)
  have "total (new_keys K) (\<lambda>_. True) schedule ?p + used_keys K s \<le> used_keys K t"
    using total_bound[where f = "used_keys K" and c = "new_keys K" and P = "\<lambda>_. True", OF evolves recs.refl, of schedule]
    by (simp add: assms(4) used_step[OF assms(1)])
  moreover have "records_evolve s t"
    using evolution.scheduled[OF recs.evolution_axioms evolves, of schedule] by (simp add: assms(4))
  then have "used_keys K t = used_keys K s + new_keys K s t" by (rule used_step[OF assms(1)])
  moreover have "length (calls t) \<le> length (calls s) + calls_made (\<lambda>_. True) schedule ?p"
    using length_calls[of schedule ?p] by (simp add: assms(4))
  ultimately show ?thesis by (simp add: new_keys_def)
qed

text \<open>A handler that executes its own action again, twice at once.\<close>

abbreviation sample_request :: "unit request" where
  "sample_request \<equiv> (sample_runtime LOW [] echo_amount, sample_action (Some ''k''), [])"

lemma sample_keyed: "keyed_in {''k''} sample_request"
  by (simp add: keyed_in_def in_memory_keys_def sample_key)

lemma sample_executes: "executes_in {''k''} (Executes sample_request (\<lambda>_. Leaves))"
  by (intro executes_by.intros sample_keyed)

theorem reentrant_at_most_once_witness:
  "\<exists>ts t. run_schedule (replicate 30 0 @ replicate 30 1)
      (map (execute_reentrant sample_rt_libs (\<lambda>_. Executes sample_request (\<lambda>_. Leaves)) 3)
        [sample_request, sample_request], sample_state ()) = (ts, t) \<and> length (calls t) \<le> 1"
proof -
  obtain ts t where run: "run_schedule (replicate 30 0 @ replicate 30 1)
      (map (execute_reentrant sample_rt_libs (\<lambda>_. Executes sample_request (\<lambda>_. Leaves)) 3)
        [sample_request, sample_request], sample_state ()) = (ts, t)" by (metis prod.collapse)
  have "card {k \<in> {''k''}. records (sample_state ()) k = None \<and> records t k \<noteq> None} \<le> card {''k''}"
    by (rule card_mono) auto
  moreover have "length (calls (sample_state ())) = 0" by (simp add: sample_state_def)
  ultimately show ?thesis
    using run reentrant_at_most_once[OF _ _ _ run, of "{''k''}"] sample_executes sample_keyed by auto
qed

section \<open>The nesting ends\<close>

text \<open>
  The body of a handler starts only after its key got a record: what two behaviours do alike
  where fewer keys are free, they do alike in a re-entered thread.
\<close>

lemma bindM_tryM_ignored: "bindM (tryM m) (\<lambda>_. k) s = k (snd (m s))"
  by (simp add: bindM_def tryM_def split: prod.split sum.split)

lemma reenter_alike:
  assumes "finite K" and "spends (new_keys K) n t" and "obeys records_evolve t"
    and "n + free_keys K s \<le> N"
    and alike: "\<And>c u. free_keys K u < N \<Longrightarrow> run_thread (h c) u = run_thread (h' c) u"
    and evolves: "\<And>c. along records_evolve (run_thread (h c))"
  shows "run_thread (reenter h t) s = run_thread (reenter h' t) s"
  using assms(2-4)
proof (induction arbitrary: s rule: spends.induct)
  case (Pending left m n)
  let ?s = "snd (m s)"
  have ob: "records_evolve s ?s" "obeys records_evolve (fst (m s))"
    using Pending.prems(1) by (auto elim: obeys_PendingE)
  have room: "left s + (length (calls ?s) - length (calls s)) + free_keys K ?s \<le> N"
    using Pending.hyps(2)[of s] Pending.prems(2) free_step[OF assms(1) ob(1)] by linarith
  have rest: "run_thread (reenter h (fst (m s))) u = run_thread (reenter h' (fst (m s))) u"
    if "records_evolve ?s u" for u
    using room free_step[OF assms(1) that] by (intro Pending.IH ob(2)) linarith
  show ?case
  proof (cases "length (calls ?s) \<le> length (calls s)")
    case True
    with rest[OF recs.refl] show ?thesis by (simp add: run_thread_Pending)
  next
    case False
    let ?c = "last (calls ?s)"
    have "run_thread (h ?c) ?s = run_thread (h' ?c) ?s" using False room by (intro alike) linarith
    moreover have "records_evolve ?s (snd (run_thread (h ?c) ?s))" using evolves by (simp add: along_def)
    ultimately show ?thesis using False rest by (simp add: run_thread_Pending bindM_tryM_ignored)
  qed
qed simp

lemma body_alike:
  assumes "executes_in K b" and "finite K" and "free_keys K s < N"
    and alike: "\<And>q u. keyed_in K q \<Longrightarrow> free_keys K u < N \<Longrightarrow> run_thread (ex q) u = run_thread (ex' q) u"
    and evolves: "\<And>q. along records_evolve (run_thread (ex q))"
  shows "run_thread (body_thread ex b) s = run_thread (body_thread ex' b) s"
  using assms(1,3)
proof (induction arbitrary: s rule: executes_by.induct)
  case (Acts f)
  have "free_keys K (s\<lparr>ext := e\<rparr>) = free_keys K s" for e by (simp add: free_keys_def)
  with Acts show ?case by (simp add: run_thread_Pending)
next
  case (Executes q k)
  let ?u = "snd (run_thread (ex q) s)"
  have "records_evolve s ?u" using evolves by (simp add: along_def)
  then have "free_keys K ?u < N" using free_step[OF assms(2)] Executes(4) by fastforce
  then have "run_thread (body_thread ex (k r)) ?u = run_thread (body_thread ex' (k r)) ?u" for r by (rule Executes(3))
  with alike[OF Executes(1,4)] show ?case
    by (cases "run_thread (ex' q) s") (simp add: bindM_def tryM_def split: sum.split)
qed simp

text \<open>What a handler does at depth \<open>n\<close>.\<close>

definition handler_body ::
  "'z rt_libs_scheme \<Rightarrow> (call \<Rightarrow> 'e body) \<Rightarrow> nat \<Rightarrow> call \<Rightarrow> (('e, 'y) idem_world_scheme, unit) thread" where
  "handler_body L hs n c = (case n of 0 \<Rightarrow> retT () | Suc m \<Rightarrow> body_thread (execute_reentrant L hs m) (hs c))"

lemma execute_reentrant_eq:
  "execute_reentrant L hs n (rt, a, x) = reenter (handler_body L hs n) (execute_thread L rt a x)"
  by (cases n) (simp_all add: handler_body_def[abs_def] reenter_nothing)

lemma handler_body_evolves: "along records_evolve (run_thread (handler_body L hs n c))"
  by (rule evolution.alone[OF recs.evolution_axioms])
    (auto simp: handler_body_def split: nat.split intro!: obeys_basic obeys_body reentrant_evolves ext_evolves)

lemma reentrant_along: "along records_evolve (run_thread (execute_reentrant L hs n q))"
  by (rule evolution.alone[OF recs.evolution_axioms]) (rule reentrant_evolves)

lemma nesting_alike:
  fixes s :: "('e, 'y) idem_world_scheme"
  assumes "finite K" and "\<And>c. executes_in K (hs c)"
  shows "keyed_in K q \<Longrightarrow> free_keys K s \<le> n \<Longrightarrow> free_keys K s \<le> n' \<Longrightarrow>
    run_thread (execute_reentrant L hs n q) s = run_thread (execute_reentrant L hs n' q) s"
proof (induction n arbitrary: n' q s rule: less_induct)
  case (less n)
  obtain rt a x where q: "q = (rt, a, x)" by (cases q)
  have "run_thread (handler_body L hs n c) u = run_thread (handler_body L hs n' c) u"
    if u: "free_keys K u < free_keys K s" for c and u :: "('e, 'y) idem_world_scheme"
  proof -
    from u less.prems(2,3) obtain m m' where n: "n = Suc m" "n' = Suc m'"
      by (metis bot_nat_0.extremum_strict le_0_eq not0_implies_Suc)
    have "run_thread (body_thread (execute_reentrant L hs m) (hs c)) u =
        run_thread (body_thread (execute_reentrant L hs m') (hs c)) u"
      using assms(2,1) u
    proof (rule body_alike)
      show "run_thread (execute_reentrant L hs m p) v = run_thread (execute_reentrant L hs m' p) v"
        if "keyed_in K p" "free_keys K v < free_keys K s" for p and v :: "('e, 'y) idem_world_scheme"
        using that less.prems(2,3) n by (intro less.IH) simp_all
    qed (rule reentrant_along)
    then show ?thesis by (simp add: n handler_body_def)
  qed
  then show ?case
    unfolding q execute_reentrant_eq
    using less.prems(1)[unfolded q]
    by (intro reenter_alike[OF assms(1) keyed_spends[OF assms(1)] records_thread.execution, where N = "free_keys K s"])
      (simp_all add: handler_body_evolves)
qed

text \<open>
  C7: The nesting of handlers that execute ends. If every execution carries a key of a finite
  set and uses the in-memory store, a handler body runs only after one more of these keys got
  its record, so that nestings are never deeper than keys without a record: every limit on
  the depth from this number on gives the same run, result and state.
\<close>

theorem reentrant_nesting_ends:
  assumes "finite K" and "\<forall>c. executes_in K (hs c)" and "keyed_in K q"
    and "card {k \<in> K. records s k = None} \<le> n"
  shows "run_thread (execute_reentrant L hs n q) s =
    run_thread (execute_reentrant L hs (card {k \<in> K. records s k = None}) q) s"
  using assms by (intro nesting_alike[where K = K]) (simp_all add: free_keys_def)

theorem reentrant_nesting_ends_witness:
  "run_thread (execute_reentrant sample_rt_libs (\<lambda>_. Executes sample_request (\<lambda>_. Leaves)) 5 sample_request)
     (sample_state ()) =
   run_thread (execute_reentrant sample_rt_libs (\<lambda>_. Executes sample_request (\<lambda>_. Leaves)) 1 sample_request)
     (sample_state ())"
proof -
  have "{k \<in> {''k''}. records (sample_state ()) k = None} = {''k''}" by (auto simp: sample_state_def)
  then have "card {k \<in> {''k''}. records (sample_state ()) k = None} = 1" by simp
  with reentrant_nesting_ends[of "{''k''}" "\<lambda>_. Executes sample_request (\<lambda>_. Leaves)" sample_request
      "sample_state ()" 5] sample_executes sample_keyed
  show ?thesis by simp
qed

end
