(* ===== verification/Guarded_Calls.thy ===== *)
theory Guarded_Calls
  imports Credits "HOL-Library.Sublist"
begin

text \<open>
  Calls that have to pass gates. The trail of a thread is the list of the states in which it
  made its own steps, in order; a gate is a question to one state. A guarded thread makes at
  most one effectful call, and only when its trail has passed the gates of the call.
\<close>

section \<open>Gates along a trail\<close>

definition passes :: "('s \<Rightarrow> bool) list \<Rightarrow> 's list \<Rightarrow> bool" where
  "passes gs tr \<longleftrightarrow> (\<exists>us. subseq us tr \<and> list_all2 (\<lambda>g u. g u) gs us)"

lemma passes_Nil [simp]: "passes [] tr"
  by (simp add: passes_def)

lemma passes_further: "passes gs tr \<Longrightarrow> passes gs (tr @ us)"
  unfolding passes_def by (blast intro: subseq_rev_drop_many)

lemma passes_gate:
  assumes "passes gs tr" and "g s"
  shows "passes (gs @ [g]) (tr @ [s])"
proof -
  obtain us where "subseq us tr" "list_all2 (\<lambda>g u. g u) gs us" using assms(1) by (auto simp: passes_def)
  with assms(2) show ?thesis
    unfolding passes_def by (intro exI[of _ "us @ [s]"]) (simp add: list_all2_appendI)
qed

lemma passes_member:
  assumes "passes gs tr" and "g \<in> set gs"
  shows "\<exists>u \<in> set tr. g u"
proof -
  obtain us where us: "subseq us tr" "list_all2 (\<lambda>g u. g u) gs us" using assms(1) by (auto simp: passes_def)
  from assms(2) obtain i where "i < length gs" "gs ! i = g" by (auto simp: in_set_conv_nth)
  with us(2) have "g (us ! i)" "us ! i \<in> set us" by (auto simp: list_all2_conv_all_nth)
  moreover have "set us \<subseteq> set tr" using us(1) by (auto dest: list_emb_set)
  ultimately show ?thesis by blast
qed

section \<open>Guarded threads\<close>

text \<open>
  \<open>guarded G tr t\<close>: \<open>t\<close>, which has come along \<open>tr\<close> without a call, makes at most one call,
  and the call and the trail to it satisfy \<open>G\<close>, whatever the others do.
\<close>

inductive guarded ::
  "(call \<Rightarrow> ('e, 'y) world_scheme list \<Rightarrow> bool) \<Rightarrow> ('e, 'y) world_scheme list \<Rightarrow>
   (('e, 'y) world_scheme, 'a) thread \<Rightarrow> bool" for G where
  Ended: "guarded G tr (Ended r)"
| Pending: "(\<And>s. (calls (snd (m s)) = calls s \<and> guarded G (tr @ [s]) (fst (m s))) \<or>
      (\<exists>c. calls (snd (m s)) = calls s @ [c] \<and> G c (tr @ [s]) \<and> obeys quiet (fst (m s)))) \<Longrightarrow>
    guarded G tr (Pending m)"

inductive_cases guarded_PendingE: "guarded G tr (Pending m)"

lemma guarded_quiet: "obeys quiet t \<Longrightarrow> guarded G tr t"
  by (induction arbitrary: tr rule: obeys.induct) (auto intro: guarded.intros)

lemma guarded_step:
  assumes "keeps calls m" and "\<And>s x. fst (m s) = Inr x \<Longrightarrow> guarded G (tr @ [s]) (f x)"
  shows "guarded G tr (bindT (atomic m) f)"
  unfolding Pending_fst_snd
  by (rule guarded.Pending)
    (use assms in \<open>auto simp: keeps_snd intro: guarded.Ended split: sum.split\<close>)

lemma try_atomic: "tryT (atomic m) = atomic (tryM m)"
  unfolding Pending_fst_snd by (auto simp: tryM_def fun_eq_iff split: sum.split prod.split)

lemma guarded_cases:
  "(b \<Longrightarrow> guarded G tr t) \<Longrightarrow> (\<not> b \<Longrightarrow> guarded G tr u) \<Longrightarrow> guarded G tr (if b then t else u)"
  "(x = None \<Longrightarrow> guarded G tr t) \<Longrightarrow> (\<And>y. x = Some y \<Longrightarrow> guarded G tr (f y)) \<Longrightarrow>
     guarded G tr (case x of None \<Rightarrow> t | Some y \<Rightarrow> f y)"
  "(\<And>a. z = Inl a \<Longrightarrow> guarded G tr (g a)) \<Longrightarrow> (\<And>b. z = Inr b \<Longrightarrow> guarded G tr (h b)) \<Longrightarrow>
     guarded G tr (case z of Inl a \<Rightarrow> g a | Inr b \<Rightarrow> h b)"
  "(\<And>v. guarded G tr (l v)) \<Longrightarrow> guarded G tr (let v = w in l v)"
  by (auto split: option.split sum.split)

text \<open>A thread whose gates cannot be passed makes no call.\<close>

lemma guarded_never: "guarded (\<lambda>_ _. False) tr t \<Longrightarrow> obeys quiet t"
  by (induction rule: guarded.induct) (auto intro: obeys.intros)

lemma guarded_mono: "guarded G tr t \<Longrightarrow> (\<And>c us. G c us \<Longrightarrow> H c us) \<Longrightarrow> guarded H tr t"
proof (induction rule: guarded.induct)
  case (Pending m tr)
  then show ?case by (intro guarded.Pending) blast
qed (rule guarded.Ended)

section \<open>The calls of a pool of guarded threads\<close>

text \<open>The states in which thread \<open>j\<close> gets its turns.\<close>

fun moments :: "nat \<Rightarrow> nat list \<Rightarrow> ('s, 'a) pool \<Rightarrow> 's list" where
  "moments j [] p = []"
| "moments j (i # is) p = (if i = j then [snd p] else []) @ moments j is (thread_step i p)"

text \<open>One turn: \<open>b\<close> says whether thread \<open>i\<close>, one of those outside \<open>C\<close>, uses it for its call.\<close>

lemma guarded_turn:
  fixes tr :: "nat \<Rightarrow> ('e, 'y) world_scheme list" and i :: nat
  assumes "\<And>j. j < length (fst p) \<Longrightarrow> j \<in> C \<Longrightarrow> obeys quiet (fst p ! j)"
    and "\<And>j. j < length (fst p) \<Longrightarrow> j \<notin> C \<Longrightarrow> guarded (G j) (tr j) (fst p ! j)"
  defines "tr' \<equiv> \<lambda>j. tr j @ (if i = j then [snd p] else [])"
  obtains b cs where "calls (snd (thread_step i p)) = calls (snd p) @ cs"
    and "if b then i < length (fst p) \<and> i \<notin> C \<and> (\<exists>c. cs = [c] \<and> G i c (tr' i)) else cs = []"
    and "\<And>j. j < length (fst p) \<Longrightarrow> (if j \<in> (if b then insert i C else C)
      then obeys quiet (fst (thread_step i p) ! j) else guarded (G j) (tr' j) (fst (thread_step i p) ! j))"
proof -
  let ?q = "thread_step i p"
  note result = that
  have own: thesis if "calls (snd ?q) = calls (snd p) @ cs"
    and "if b then i < length (fst p) \<and> i \<notin> C \<and> (\<exists>c. cs = [c] \<and> G i c (tr' i)) else cs = []"
    and i: "i < length (fst p) \<Longrightarrow> if i \<in> (if b then insert i C else C)
      then obeys quiet (fst ?q ! i) else guarded (G i) (tr' i) (fst ?q ! i)" for b cs
  proof (rule result[OF that(1,2)])
    fix j
    assume j: "j < length (fst p)"
    show "if j \<in> (if b then insert i C else C) then obeys quiet (fst ?q ! j)
        else guarded (G j) (tr' j) (fst ?q ! j)"
    proof (cases "j = i")
      case True
      with i j show ?thesis by simp
    next
      case False
      with assms(1,2)[OF j] thread_step_other[of j i p] show ?thesis by (simp add: tr'_def)
    qed
  qed
  show thesis
  proof (cases "i < length (fst p) \<and> (\<exists>m. fst p ! i = Pending m)")
    case False
    then have "?q = p" by (cases "fst p ! i") (auto simp: thread_step_def)
    moreover have "guarded (G i) us (fst p ! i)" if "i < length (fst p)" for us
      using that False by (cases "fst p ! i") (auto intro: guarded.Ended)
    ultimately show thesis using assms(1)[of i] by (intro own[of "[]" False]) auto
  next
    case True
    then obtain m where i: "i < length (fst p)" and m: "fst p ! i = Pending m" by blast
    then have q: "?q = ((fst p)[i := fst (m (snd p))], snd (m (snd p)))"
      by (simp add: thread_step_def split_def)
    consider (called) "i \<in> C" "calls (snd ?q) = calls (snd p)" "obeys quiet (fst ?q ! i)"
      | (quiet) "i \<notin> C" "calls (snd ?q) = calls (snd p)" "guarded (G i) (tr' i) (fst ?q ! i)"
      | (calls) c where "i \<notin> C" "calls (snd ?q) = calls (snd p) @ [c]" "G i c (tr' i)" "obeys quiet (fst ?q ! i)"
      using assms(1,2)[OF i] i unfolding m q tr'_def
      by (auto elim!: obeys_PendingE guarded_PendingE dest: spec[of _ "snd p"])
    then show thesis
    proof cases
      case called
      then show thesis by (intro own[of "[]" False]) auto
    next
      case quiet
      then show thesis by (intro own[of "[]" False]) auto
    next
      case calls
      with i show thesis by (intro own[of "[c]" True]) auto
    qed
  qed
qed

text \<open>
  The calls along a schedule are calls of different threads, each with a trail that leads to
  it: \<open>js\<close> are the threads that call, in the order of their calls.
\<close>

lemma guarded_pool:
  assumes "\<And>j c us vs. G j c us \<Longrightarrow> G j c (us @ vs)"
    and "\<And>j. j < length (fst p) \<Longrightarrow> j \<in> C \<Longrightarrow> obeys quiet (fst p ! j)"
    and "\<And>j. j < length (fst p) \<Longrightarrow> j \<notin> C \<Longrightarrow> guarded (G j) (tr j) (fst p ! j)"
  shows "\<exists>js cs. calls (snd (run_schedule is p)) = calls (snd p) @ cs \<and> distinct js \<and>
    set js \<subseteq> {..<length (fst p)} - C \<and> list_all2 (\<lambda>j c. G j c (tr j @ moments j is p)) js cs"
  using assms(2,3)
proof (induction "is" arbitrary: p C tr)
  case Nil
  show ?case by (intro exI[of _ "[]"]) simp
next
  case (Cons i "is")
  let ?q = "thread_step i p" and ?tr = "\<lambda>j. tr j @ (if i = j then [snd p] else [])"
  obtain b ds where ds: "calls (snd ?q) = calls (snd p) @ ds"
      "if b then i < length (fst p) \<and> i \<notin> C \<and> (\<exists>c. ds = [c] \<and> G i c (?tr i)) else ds = []"
    and step: "\<And>j. j < length (fst p) \<Longrightarrow> (if j \<in> (if b then insert i C else C)
      then obeys quiet (fst ?q ! j) else guarded (G j) (?tr j) (fst ?q ! j))"
    by (rule guarded_turn[OF Cons.prems, where i = i]) blast+
  let ?C = "if b then insert i C else C"
  have "\<exists>js cs. calls (snd (run_schedule is ?q)) = calls (snd ?q) @ cs \<and> distinct js \<and>
      set js \<subseteq> {..<length (fst ?q)} - ?C \<and> list_all2 (\<lambda>j c. G j c (?tr j @ moments j is ?q)) js cs"
  proof (rule Cons.IH)
    fix j
    assume "j < length (fst ?q)"
    then show "j \<in> ?C \<Longrightarrow> obeys quiet (fst ?q ! j)" "j \<notin> ?C \<Longrightarrow> guarded (G j) (?tr j) (fst ?q ! j)"
      using step[of j] by simp_all
  qed
  then obtain js cs where "calls (snd (run_schedule is ?q)) = calls (snd ?q) @ cs" "distinct js"
      "set js \<subseteq> {..<length (fst p)} - ?C" "list_all2 (\<lambda>j c. G j c (?tr j @ moments j is ?q)) js cs"
    by auto
  moreover have "G i c (tr i @ snd p # us)" if "G i c (tr i @ [snd p])" for c us
    using assms(1)[OF that, of us] by simp
  ultimately show ?case
    using ds by (intro exI[of _ "(if b then [i] else []) @ js"] exI[of _ "ds @ cs"]) (auto split: if_splits)
qed

end
