(* ===== verification/Concurrent_Gates.thy ===== *)
theory Concurrent_Gates
  imports Guarded_Calls Concurrency
begin

text \<open>
  The gates of \<open>execute\<close> when executions run at once. The other threads may change the services
  and the users' state between any two steps, so each gate is asked in a state of its own:
  every handler call of a schedule is the call of an execution of the pool whose own steps
  have passed all its gates, in the order of the code.
\<close>

section \<open>The gates\<close>

definition says :: "('s, 'a) action \<Rightarrow> ('a \<Rightarrow> bool) \<Rightarrow> 's \<Rightarrow> bool" where
  "says m E s \<longleftrightarrow> (\<exists>x. fst (m s) = Inr x \<and> E x)"

text \<open>
  The questions on the way to the handler of \<open>tool\<close>, given the decisions \<open>ds\<close> that the policies
  answer and the verdict \<open>v\<close> that the engine composes from them.
\<close>

definition policy_gates ::
  "'z libs_scheme \<Rightarrow> 'e policy list \<Rightarrow> action_intent \<Rightarrow> tool_contract \<Rightarrow> json_object \<Rightarrow>
   policy_decision list \<Rightarrow> (('e, 'y) world_scheme \<Rightarrow> bool) list" where
  "policy_gates L ps a c x ds = map2 (\<lambda>p d. says (policy_evaluate L p a c x) (\<lambda>ans. ans = Decision d)) ps ds"

definition approval_gates ::
  "'e runtime \<Rightarrow> action_intent \<Rightarrow> tool_contract \<Rightarrow> policy_decision \<Rightarrow> json_object \<Rightarrow>
   (('e, 'y) world_scheme \<Rightarrow> bool) list" where
  "approval_gates rt a c v x =
     (if pd_decision_type v = REQUIRE_APPROVAL
      then [says (is_approved (rt_approval_checker rt) a c v x) (\<lambda>approved. approved)] else [])"

text \<open>The gates from the reservation of the key on.\<close>

definition key_gates ::
  "'z rt_libs_scheme \<Rightarrow> 'e runtime \<Rightarrow> action_intent \<Rightarrow> json_object \<Rightarrow> 'e registered_tool \<Rightarrow> uuid \<Rightarrow>
   (('e, 'y) idem_world_scheme \<Rightarrow> bool) list" where
  "key_gates L rt a x tool tid =
     (case ai_idempotency_key a of None \<Rightarrow> [] | Some k \<Rightarrow> [says (claim L (rt_idempotency rt) k) ic_acquired]) @
     map (\<lambda>f. says (call_user (f a (rg_contract tool) x)) (\<lambda>passed. passed)) (rt_preconditions rt) @
     [says (append_event L rt a ''execution_started'' (Some tid) None) (\<lambda>recorded. recorded)]"

definition execution_gates ::
  "'z rt_libs_scheme \<Rightarrow> 'e runtime \<Rightarrow> action_intent \<Rightarrow> json_object \<Rightarrow> 'e registered_tool \<Rightarrow>
   policy_decision list \<Rightarrow> policy_decision \<Rightarrow> uuid \<Rightarrow> (('e, 'y) idem_world_scheme \<Rightarrow> bool) list" where
  "execution_gates L rt a x tool ds v tid =
     [says (received_event L rt a) (\<lambda>recorded. recorded)] @
     policy_gates L (rt_policy_engine rt) a (rg_contract tool) x ds @
     [says (compose L a (rg_contract tool) ds) (\<lambda>w. w = v)] @
     approval_gates rt a (rg_contract tool) v x @ key_gates L rt a x tool tid"

definition earned_call ::
  "'z rt_libs_scheme \<Rightarrow> 'e runtime \<Rightarrow> action_intent \<Rightarrow> json_object \<Rightarrow> call \<Rightarrow>
   ('e, 'y) idem_world_scheme list \<Rightarrow> bool" where
  "earned_call L rt a x c tr \<longleftrightarrow> c = HandlerCall (ai_tool_name a) (ai_arguments a) \<and>
     (\<exists>tool ds v tid. get_tool (rt_registry rt) (ai_tool_name a) = Inr tool \<and>
        action_matches_contract a (rg_contract tool) \<and>
        validate_against_schema L (PyDict (ai_arguments a)) (ts_document (tc_input_schema (rg_contract tool))) = None \<and>
        length ds = length (rt_policy_engine rt) \<and> (\<forall>d \<in> set ds. pd_intent_id d = ai_intent_id a) \<and>
        pd_decision_type v \<noteq> DENY \<and>
        (tc_idempotency_key_required (rg_contract tool) \<longrightarrow> ai_idempotency_key a \<noteq> None) \<and>
        passes (execution_gates L rt a x tool ds v tid) tr)"

section \<open>Steps at a gate\<close>

lemma guarded_gate:
  assumes "keeps calls m" and "passes gs tr"
    and "\<And>x tr'. E x \<Longrightarrow> passes (gs @ [says m (F x)]) tr' \<Longrightarrow> guarded G tr' (f x)"
    and "\<And>x. E x \<Longrightarrow> F x x" and "\<And>x. \<not> E x \<Longrightarrow> obeys quiet (f x)"
  shows "guarded G tr (bindT (atomic m) f)"
proof (rule guarded_step[OF assms(1)])
  fix s x
  assume "fst (m s) = Inr x"
  then have "says m (F x) s" if "E x" using that assms(4) by (auto simp: says_def)
  then show "guarded G (tr @ [s]) (f x)"
    using assms(3)[of x "tr @ [s]"] assms(5)[of x] passes_gate[OF assms(2), of "says m (F x)" s]
    by (cases "E x") (auto intro: guarded_quiet)
qed

lemma guarded_try_gate:
  assumes "keeps calls m" and "passes gs tr"
    and "\<And>x tr'. E x \<Longrightarrow> passes (gs @ [says m (F x)]) tr' \<Longrightarrow> guarded G tr' (f (Some x))"
    and "\<And>x. E x \<Longrightarrow> F x x" and "\<And>y. \<forall>x. y = Some x \<longrightarrow> \<not> E x \<Longrightarrow> obeys quiet (f y)"
  shows "guarded G tr (bindT (tryT (atomic m)) f)"
  unfolding try_atomic
proof (rule guarded_step)
  show "keeps calls (tryM m)" using assms(1) by (rule keeps_tryM)
  fix s y
  assume y: "fst (tryM m s) = Inr y"
  show "guarded G (tr @ [s]) (f y)"
  proof (cases "\<exists>x. y = Some x \<and> E x")
    case True
    then obtain x where x: "y = Some x" "E x" by blast
    with y assms(4) have "says m (F x) s" by (auto simp: says_def tryM_def split: prod.splits sum.splits)
    from assms(3)[OF x(2) passes_gate[where g = "says m (F x)", OF assms(2) this]] x(1) show ?thesis by simp
  qed (use assms(5) in \<open>auto intro: guarded_quiet\<close>)
qed

lemma guarded_silent:
  assumes "keeps calls m" and "passes gs tr" and "\<And>x tr'. passes gs tr' \<Longrightarrow> guarded G tr' (f x)"
  shows "guarded G tr (bindT (atomic m) f)"
  using assms(1) by (rule guarded_step) (auto intro: assms(3) passes_further[OF assms(2)])

lemma append_gate:
  fixes L :: "'z rt_libs_scheme"
  assumes "passes gs tr"
    and "\<And>tr'. passes (gs @ [says (append_event L rt a ty tid ds) (\<lambda>recorded. recorded)]) tr' \<Longrightarrow> guarded G tr' (f True)"
    and "obeys quiet (f False)"
  shows "guarded G tr (bindT (append_event_thread L rt a ty tid ds) f)"
  unfolding append_event_thread_def
  by (rule guarded_gate[where E = "\<lambda>b. b" and F = "\<lambda>_ b. b", OF _ assms(1)], rule keeps_runtime_calls)
    (use assms in \<open>auto\<close>)

lemma append_silent:
  fixes L :: "'z rt_libs_scheme"
  assumes "passes gs tr" and "\<And>x tr'. passes gs tr' \<Longrightarrow> guarded G tr' (f x)"
  shows "guarded G tr (bindT (append_event_thread L rt a ty tid ds) f)"
  unfolding append_event_thread_def using keeps_runtime_calls(1) assms by (rule guarded_silent)

section \<open>The stages, from the last to the first\<close>

lemma handler_guarded:
  assumes "passes gs tr" and "\<And>tr'. passes gs tr' \<Longrightarrow> G (HandlerCall (ai_tool_name a) (ai_arguments a)) tr'"
  shows "guarded G tr (run_handler_thread L rt a x tool att held)"
  unfolding run_handler_thread_def call_handler_thread_def noted_first
  using assms quiet_after_start by (intro guarded.Pending) (simp add: passes_further)

lemma start_guarded:
  assumes "passes gs tr"
    and "\<And>tr'. passes (gs @ [says (append_event L rt a ''execution_started'' (Some (at_transaction_id att)) None)
        (\<lambda>recorded. recorded)]) tr' \<Longrightarrow> G (HandlerCall (ai_tool_name a) (ai_arguments a)) tr'"
  shows "guarded G tr (start_execution_thread L rt a x tool att held)"
  unfolding start_execution_thread_def
  by (rule append_gate[OF assms(1)]) (auto intro: handler_guarded assms(2) obeys_intros quiet_rules)

lemma checks_guarded:
  assumes "passes gs tr"
    and "\<And>tr'. passes (gs @ map (\<lambda>f. says (call_user (f a c x)) (\<lambda>passed. passed)) cs) tr' \<Longrightarrow>
      guarded G tr' (k True)"
    and "obeys quiet (k False)"
  shows "guarded G tr (bindT (checks_thread cs a c x) k)"
  using assms
proof (induction cs arbitrary: gs tr)
  case (Cons f cs)
  show ?case
    unfolding checks_thread.simps bindT_assoc
  proof (rule guarded_try_gate[where E = "\<lambda>b. b" and F = "\<lambda>_ b. b", OF _ Cons.prems(1)])
    show "guarded G tr' (bindT (if Some b = Some True then checks_thread cs a c x else retT False) k)"
      if "b" "passes (gs @ [says (call_user (f a c x)) (\<lambda>b. b)]) tr'" for b tr'
      using that Cons.IH[OF that(2)] Cons.prems(2,3) by simp
  qed (use Cons.prems(3) in \<open>auto intro: keeps_calls\<close>)
qed simp

lemma preconditions_guarded:
  assumes "passes gs tr"
    and "\<And>tr'. passes (gs @ map (\<lambda>f. says (call_user (f a (rg_contract tool) x)) (\<lambda>passed. passed)) (rt_preconditions rt) @
        [says (append_event L rt a ''execution_started'' (Some (at_transaction_id att)) None)
          (\<lambda>recorded. recorded)]) tr' \<Longrightarrow> G (HandlerCall (ai_tool_name a) (ai_arguments a)) tr'"
  shows "guarded G tr (check_preconditions_thread L rt a x tool att held)"
  unfolding check_preconditions_thread_def
proof (rule checks_guarded[OF assms(1)], goal_cases)
  case (1 tr')
  then show ?case by (simp, elim start_guarded) (simp add: assms(2))
next
  case 2
  show ?case by simp (intro obeys_intros quiet_rules)
qed

lemma reserve_guarded:
  assumes "passes gs tr"
    and "\<And>tr'. (tc_idempotency_key_required (rg_contract tool) \<longrightarrow> ai_idempotency_key a \<noteq> None) \<Longrightarrow>
      passes (gs @ key_gates L rt a x tool (at_transaction_id att)) tr' \<Longrightarrow>
      G (HandlerCall (ai_tool_name a) (ai_arguments a)) tr'"
  shows "guarded G tr (reserve_key_thread L rt a x tool att)"
proof (cases "ai_idempotency_key a")
  case None
  show ?thesis
  proof (cases "tc_idempotency_key_required (rg_contract tool)")
    case True
    with None show ?thesis
      by (simp add: reserve_key_thread_def) (intro guarded_quiet obeys_intros quiet_rules)
  next
    case False
    with None assms show ?thesis
      by (auto simp: reserve_key_thread_def key_gates_def intro: preconditions_guarded)
  qed
next
  case (Some k)
  show ?thesis
    unfolding reserve_key_thread_def
  proof (simp add: Some, rule guarded_gate[where E = ic_acquired and F = "\<lambda>_. ic_acquired", OF _ assms(1)], goal_cases)
    case 1
    show ?case by (intro keeps_intros)
  next
    case (2 c tr')
    from 2(2) show ?case
      by (simp add: 2(1)) (elim preconditions_guarded, rule assms(2), simp_all add: Some key_gates_def)
  qed (simp_all add: quiet_thread.replaying)
qed

lemma approval_guarded:
  assumes "passes gs tr"
    and "\<And>tr'. pd_decision_type v \<noteq> DENY \<Longrightarrow>
      (tc_idempotency_key_required (rg_contract tool) \<longrightarrow> ai_idempotency_key a \<noteq> None) \<Longrightarrow>
      passes (gs @ approval_gates rt a (rg_contract tool) v x @ key_gates L rt a x tool (at_transaction_id att)) tr' \<Longrightarrow>
      G (HandlerCall (ai_tool_name a) (ai_arguments a)) tr'"
  shows "guarded G tr (check_approval_thread L rt a x tool att v)"
proof (cases "pd_decision_type v = REQUIRE_APPROVAL")
  case True
  then show ?thesis
    unfolding check_approval_thread_def
  proof (simp, intro guarded_try_gate[where E = "\<lambda>b. b" and F = "\<lambda>_ b. b", OF _ assms(1)], goal_cases)
    case (2 b tr')
    then have "guarded G tr' (reserve_key_thread L rt a x tool att)"
      by (elim reserve_guarded) (rule assms(2), simp_all add: True approval_gates_def)
    with 2 show ?case by simp
  qed (auto intro!: keeps_is_approved obeys_intros quiet_rules)
next
  case False
  then show ?thesis
    unfolding check_approval_thread_def
    using assms by (auto simp: approval_gates_def intro: reserve_guarded guarded_quiet[OF quiet_thread.pieces(2)])
qed

lemma engine_denial_DENY: "fst (engine_denial L a c rs s) = Inr d \<Longrightarrow> pd_decision_type d = DENY"
  by (cases "engine_denial L a c rs s") (auto simp: engine_denial_def dest: decision_Inr)

lemma policies_quiet: "keeps calls (engine_denial L a c rs)" "keeps calls (compose L a c ds)"
    "keeps calls (policy_evaluate L p a c x)"
  by (rule beyond_calls, rule keeps_policies)+

lemma denial_guarded:
  assumes "\<And>v. pd_decision_type v = DENY \<Longrightarrow> obeys quiet (f v)"
  shows "guarded G tr (bindT (atomic (engine_denial L a c rs)) f)"
  by (rule guarded_step[OF policies_quiet(1)]) (auto intro: guarded_quiet assms dest: engine_denial_DENY)

lemma policies_guarded:
  assumes "passes gs tr" and "\<And>v. pd_decision_type v = DENY \<Longrightarrow> obeys quiet (f v)"
    and "\<And>ds v tr'. length ds = length ps \<Longrightarrow> \<forall>d \<in> set ds. pd_intent_id d = ai_intent_id a \<Longrightarrow>
      passes (gs @ policy_gates L ps a c x ds @ [says (compose L a c (before @ ds)) (\<lambda>w. w = v)]) tr' \<Longrightarrow>
      guarded G tr' (f v)"
  shows "guarded G tr (bindT (evaluate_loop_thread L ps a c x before) f)"
  using assms
proof (induction ps arbitrary: gs tr before)
  case Nil
  show ?case
    unfolding evaluate_loop_thread.simps
    by (rule guarded_gate[where E = "\<lambda>_. True" and F = "\<lambda>v w. w = v", OF policies_quiet(2) Nil.prems(1)])
      (use Nil.prems(3)[of "[]"] in \<open>simp_all add: policy_gates_def\<close>)
next
  case (Cons p ps)
  show ?case
    unfolding evaluate_loop_thread.simps bindT_assoc
  proof (rule guarded_step[where m = "tryM (policy_evaluate L p a c x)", folded try_atomic], goal_cases)
    case 1
    show ?case by (intro keeps_tryM policies_quiet)
  next
    case (2 s ans)
    show ?case
    proof (cases "\<exists>d. ans = Some (Decision d) \<and> pd_intent_id d = ai_intent_id a")
      case False
      then show ?thesis
        by (cases ans) (auto intro!: denial_guarded Cons.prems(2) split: policy_answer.split)
    next
      case True
      then obtain d where d: "ans = Some (Decision d)" "pd_intent_id d = ai_intent_id a" by blast
      with 2 have "says (policy_evaluate L p a c x) (\<lambda>ans. ans = Decision d) s"
        by (auto simp: says_def tryM_def split: prod.splits sum.splits)
      note passed = passes_gate[where g = "says (policy_evaluate L p a c x) (\<lambda>ans. ans = Decision d)",
          OF Cons.prems(1) this]
      have "guarded G (tr @ [s]) (bindT (evaluate_loop_thread L ps a c x (before @ [d])) f)"
      proof (rule Cons.IH[OF passed Cons.prems(2)])
        fix ds v tr'
        assume "length ds = length ps" "\<forall>d\<in>set ds. pd_intent_id d = ai_intent_id a"
          "passes ((gs @ [says (policy_evaluate L p a c x) (\<lambda>ans. ans = Decision d)]) @ policy_gates L ps a c x ds @
            [says (compose L a c ((before @ [d]) @ ds)) (\<lambda>w. w = v)]) tr'"
        then show "guarded G tr' (f v)"
          using Cons.prems(3)[of "d # ds" v tr'] d(2) by (simp add: policy_gates_def)
      qed
      with d show ?thesis by simp
    qed
  qed
qed

lemma policy_guarded:
  assumes "passes gs tr"
    and "\<And>ds v tr'. length ds = length (rt_policy_engine rt) \<Longrightarrow> \<forall>d \<in> set ds. pd_intent_id d = ai_intent_id a \<Longrightarrow>
      pd_decision_type v \<noteq> DENY \<Longrightarrow>
      (tc_idempotency_key_required (rg_contract tool) \<longrightarrow> ai_idempotency_key a \<noteq> None) \<Longrightarrow>
      passes (gs @ policy_gates L (rt_policy_engine rt) a (rg_contract tool) x ds @
        [says (compose L a (rg_contract tool) ds) (\<lambda>w. w = v)] @
        approval_gates rt a (rg_contract tool) v x @ key_gates L rt a x tool (at_transaction_id att)) tr' \<Longrightarrow>
      G (HandlerCall (ai_tool_name a) (ai_arguments a)) tr'"
    and m: "action_matches_contract a (rg_contract tool)"
  shows "guarded G tr (check_policy_thread L rt a x tool att)"
proof -
  let ?f = "\<lambda>v. bindT (append_event_thread L rt a ''policy_evaluated'' None
      (Some [(PyStr ''decision_type'', PyStr (policy_decision_type_value (pd_decision_type v))),
             (PyStr ''risk_level'', PyStr (risk_level_value (pd_risk_level v)))])) (\<lambda>_.
      check_approval_thread L rt a x tool att v)"
  have deny: "obeys quiet (?f v)" if "pd_decision_type v = DENY" for v
    unfolding check_approval_thread_def using that by (simp, intro obeys_intros quiet_rules)
  have e: "evaluate_thread L (rt_policy_engine rt) a (Some (rg_contract tool)) x =
      evaluate_loop_thread L (rt_policy_engine rt) a (rg_contract tool) x []"
    using m by (simp add: evaluate_thread_def)
  have "guarded G tr' (bindT (evaluate_loop_thread L (rt_policy_engine rt) a (rg_contract tool) x []) ?f)"
    if "passes gs tr'" for tr'
  proof (rule policies_guarded[OF that deny], assumption, goal_cases)
    case (1 ds v us)
    show ?case
    proof (rule append_silent[OF 1(3)], rule approval_guarded, assumption)
    qed (use assms(2)[OF 1(1,2)] in simp)
  qed
  then show ?thesis
    unfolding check_policy_thread_def e by (rule append_silent[OF assms(1)])
qed

lemma contract_guarded:
  assumes "passes [says (received_event L rt a) (\<lambda>recorded. recorded)] tr"
    and tool: "get_tool (rt_registry rt) (ai_tool_name a) = Inr tool"
  shows "guarded (earned_call L rt a x) tr (check_contract_thread L rt a x tool att)"
proof (cases "action_matches_contract a (rg_contract tool) \<and> validate_against_schema L (PyDict (ai_arguments a))
    (ts_document (tc_input_schema (rg_contract tool))) = None")
  case False
  then show ?thesis
    unfolding check_contract_thread_def by (auto intro!: guarded_quiet obeys_intros quiet_rules)
next
  case True
  then show ?thesis
    unfolding check_contract_thread_def
    using tool by (simp, intro policy_guarded[OF assms(1)]) (auto simp: earned_call_def execution_gates_def)
qed

lemma execution_guarded: "guarded (earned_call L rt a x) [] (execute_thread L rt a x)"
proof -
  have first: "passes [] []" by simp
  show ?thesis
    unfolding execute_thread_def Let_def
  proof (intro guarded_silent[OF _ first] keeps_calls, elim guarded_silent[rotated] append_gate, goal_cases)
    case (1 i us j vs now ws us')
    show ?case
    proof (cases "get_tool (rt_registry rt) (ai_tool_name a)")
      case Inl
      show ?thesis unfolding Inl by simp (intro guarded_quiet obeys_intros quiet_rules)
    next
      case (Inr tool)
      with contract_guarded[OF 1[simplified] Inr] show ?thesis by simp
    qed
  qed (simp_all add: quiet_thread.pieces keeps_calls)
qed

lemma earned_call_further: "earned_call L rt a x c us \<Longrightarrow> earned_call L rt a x c (us @ vs)"
  unfolding earned_call_def by (blast intro: passes_further)

section \<open>Every call of a pool has passed its gates\<close>

text \<open>
  C2: No call without its gates, under every interleaving. Executions run at once over whatever
  services. The handler calls along a schedule are calls of different executions of the
  pool, at most one each, and each is the call of the tool and the arguments of its own intent
  after that execution has asked, in the order of the code, and been answered: the event is
  recorded; the tool is registered, the contract matches and the arguments are valid; every
  policy returned a decision bound to the intent, and the engine composed them to a verdict
  that is not a denial; the checker approved if the verdict asks for it; the key, which must be
  there if the contract requires one, was acquired; every precondition returned true; and
  the start was recorded. The answers may come from different states, as the others go on.
\<close>

theorem concurrent_handler_gated:
  "\<exists>js cs. calls (snd (run_schedule schedule (execution_pool L qs s))) = calls s @ cs \<and>
     distinct js \<and> set js \<subseteq> {..<length qs} \<and>
     list_all2 (\<lambda>j c. case qs ! j of (rt, a, x) \<Rightarrow>
       earned_call L rt a x c (moments j schedule (execution_pool L qs s))) js cs"
proof -
  let ?p = "execution_pool L qs s" and ?G = "\<lambda>j. case qs ! j of (rt, a, x) \<Rightarrow> earned_call L rt a x"
  have "\<exists>js cs. calls (snd (run_schedule schedule ?p)) = calls (snd ?p) @ cs \<and> distinct js \<and>
      set js \<subseteq> {..<length (fst ?p)} - {} \<and> list_all2 (\<lambda>j c. ?G j c ([] @ moments j schedule ?p)) js cs"
  proof (rule guarded_pool[where tr = "\<lambda>_. []"])
    show "?G j c (us @ vs)" if "?G j c us" for j c us vs
      using that earned_call_further by (cases "qs ! j") auto
    show "guarded (?G j) [] (fst ?p ! j)" if "j < length (fst ?p)" for j
      using that execution_guarded by (auto simp: execution_pool_def split: prod.split)
  qed simp
  then show ?thesis by (simp add: execution_pool_def split_def)
qed

section \<open>High risk\<close>

definition waits_for_approval :: "'e runtime \<Rightarrow> action_intent \<Rightarrow> bool" where
  "waits_for_approval rt a \<longleftrightarrow> withholds_approval (rt_approval_checker rt) a \<and>
     (\<forall>tool. get_tool (rt_registry rt) (ai_tool_name a) = Inr tool \<longrightarrow> HIGH \<le> tc_risk_level (rg_contract tool))"

lemma waiting_earns_nothing:
  fixes tr :: "('e, 'y) idem_world_scheme list"
  assumes "waits_for_approval rt a"
  shows "\<not> earned_call L rt a x c tr"
proof
  assume "earned_call L rt a x c tr"
  then obtain tool ds v tid where tool: "get_tool (rt_registry rt) (ai_tool_name a) = Inr tool"
    and v: "pd_decision_type v \<noteq> DENY" and p: "passes (execution_gates L rt a x tool ds v tid) tr"
    by (auto simp: earned_call_def)
  have "\<exists>u \<in> set tr. says (compose L a (rg_contract tool) ds) (\<lambda>w. w = v) u"
    using p by (rule passes_member) (simp add: execution_gates_def)
  then obtain u :: "('e, 'y) idem_world_scheme" where "fst (compose L a (rg_contract tool) ds u) = Inr v" by (auto simp: says_def)
  then have "evaluate_loop L [] a (rg_contract tool) x ds u = (Inr v, snd (compose L a (rg_contract tool) ds u))"
    by (simp add: prod_eq_iff)
  from evaluate_loop_Inr[OF this] tool assms v have ask: "pd_decision_type v = REQUIRE_APPROVAL"
    by (auto simp: waits_for_approval_def)
  have "\<exists>u \<in> set tr. says (is_approved (rt_approval_checker rt) a (rg_contract tool) v x) (\<lambda>b. b) u"
    using p by (rule passes_member) (simp add: execution_gates_def approval_gates_def ask)
  then obtain u :: "('e, 'y) idem_world_scheme" where "fst (is_approved (rt_approval_checker rt) a (rg_contract tool) v x u) = Inr True"
    by (auto simp: says_def)
  with assms withholds_approval_not[of "rt_approval_checker rt" a] show False
    by (metis waits_for_approval_def prod.collapse)
qed

text \<open>
  C9: High risk waits for approval, under every interleaving. Whatever else runs at once, and
  whatever the policies answer, the executions of a tool whose registered contract is of HIGH
  or CRITICAL risk call no handler while their checker withholds the approval of the intent:
  the default checker, a static one without the intent, a custom one that never returns
  true.
\<close>

theorem concurrent_high_risk_waits:
  "calls_made (\<lambda>j. j < length qs \<and> waits_for_approval (fst (qs ! j)) (fst (snd (qs ! j))))
     schedule (execution_pool L qs s) = 0"
proof -
  let ?P = "\<lambda>j. j < length qs \<and> waits_for_approval (fst (qs ! j)) (fst (snd (qs ! j)))" and ?p = "execution_pool L qs s"
  have "spends (\<lambda>_ _. 0) 0 (execute_thread L rt a x)" if "waits_for_approval rt a" for rt a x
  proof (rule quiet_spends, rule guarded_never, rule guarded_mono[OF execution_guarded[where x = x]])
    show "False" if "earned_call L rt a x c us" for c us
      using that waiting_earns_nothing[OF \<open>waits_for_approval rt a\<close>] by blast
  qed
  then have "accounted (\<lambda>_ _. 0) ?P (\<lambda>_. 0) ?p"
    by (auto simp: accounted_def execution_pool_def split: prod.split)
  from calls_on_credit[OF this, of schedule] have "calls_made ?P schedule ?p \<le> total (\<lambda>_ _. 0) ?P schedule ?p" by simp
  also have "total (\<lambda>_ _. 0) ?P schedule p = 0" for p :: "(('e, 'y) idem_world_scheme, execution_result) pool"
    by (induction schedule arbitrary: p) simp_all
  finally show ?thesis by simp
qed

text \<open>Two executions of a tool of high risk at once, under the default checker.\<close>

abbreviation risky_requests :: "unit request list" where
  "risky_requests \<equiv>
     [(sample_runtime HIGH [] echo_amount, sample_action (Some ''k''), []),
      (sample_runtime HIGH [] echo_amount, sample_action (Some ''l''), [])]"

lemma risky_waits: "waits_for_approval (sample_runtime HIGH [] echo_amount) (sample_action k)"
  by (auto simp: waits_for_approval_def withholds_approval_def sample_runtime_def SingleActionRuntime_def
      sample_registry_def get_tool_def sample_contract_def split: if_splits option.splits)

theorem concurrent_high_risk_waits_witness:
  "calls_made (\<lambda>j. j < 2) [0, 1, 1, 0, 0, 1, 0, 1, 1, 1, 0, 0, 1, 0, 1, 0]
     (execution_pool sample_rt_libs risky_requests (sample_state ())) = 0"
proof -
  have "(\<lambda>j. j < length risky_requests \<and>
      waits_for_approval (fst (risky_requests ! j)) (fst (snd (risky_requests ! j)))) = (\<lambda>j. j < 2)"
    using risky_waits by (auto simp: fun_eq_iff less_2_cases_iff)
  with concurrent_high_risk_waits[of risky_requests "[0, 1, 1, 0, 0, 1, 0, 1, 1, 1, 0, 0, 1, 0, 1, 0]"
      sample_rt_libs "sample_state ()"]
  show ?thesis by (simp only:)
qed

end
