(* ===== verification/Reentrant_Gates.thy ===== *)
theory Reentrant_Gates
  imports Runtime_Reentrancy Concurrent_Gates
begin

text \<open>
  The gates under re-entry: a handler that executes actions itself gets no call past the gates
  either, whatever it executes and however deep.
\<close>

section \<open>Licensed threads\<close>

text \<open>
  \<open>licensed G tr t\<close>: each call that \<open>t\<close> makes, having come along \<open>tr\<close>, and the trail to it
  satisfy \<open>G\<close>, whatever the others do. Unlike a guarded thread it may go on calling.
\<close>

inductive licensed ::
  "(call \<Rightarrow> ('e, 'y) world_scheme list \<Rightarrow> bool) \<Rightarrow> ('e, 'y) world_scheme list \<Rightarrow>
   (('e, 'y) world_scheme, 'a) thread \<Rightarrow> bool" for G where
  Ended: "licensed G tr (Ended r)"
| Pending: "(\<And>s. licensed G (tr @ [s]) (fst (m s))) \<Longrightarrow>
    (\<And>s. \<exists>cs. calls (snd (m s)) = calls s @ cs \<and> (\<forall>c \<in> set cs. G c (tr @ [s]))) \<Longrightarrow>
    licensed G tr (Pending m)"

inductive_cases licensed_PendingE: "licensed G tr (Pending m)"

definition lasting :: "(call \<Rightarrow> 's list \<Rightarrow> bool) \<Rightarrow> bool" where
  "lasting G \<longleftrightarrow> (\<forall>c us vs. G c us \<longrightarrow> subseq us vs \<longrightarrow> G c vs)"

lemma licensed_quiet: "obeys quiet t \<Longrightarrow> licensed G tr t"
  by (induction arbitrary: tr rule: obeys.induct) (auto intro: licensed.intros)

lemma guarded_licensed: "guarded G tr t \<Longrightarrow> licensed G tr t"
proof (induction rule: guarded.induct)
  case (Pending m tr)
  show ?case
  proof (rule licensed.Pending)
    show "licensed G (tr @ [s]) (fst (m s))" for s
      using Pending[of s] by (auto intro: licensed_quiet)
    show "\<exists>cs. calls (snd (m s)) = calls s @ cs \<and> (\<forall>c\<in>set cs. G c (tr @ [s]))" for s
      using Pending[of s] by (metis append_Nil2 empty_iff list.set set_ConsD)
  qed
qed (rule licensed.Ended)

lemma licensed_longer: "licensed G tr t \<Longrightarrow> lasting G \<Longrightarrow> subseq tr tr' \<Longrightarrow> licensed G tr' t"
proof (induction arbitrary: tr' rule: licensed.induct)
  case (Pending tr m)
  have longer: "subseq (tr @ [s]) (tr' @ [s])" for s using Pending.prems(2) by simp
  show ?case
  proof (rule licensed.Pending)
    show "licensed G (tr' @ [s]) (fst (m s))" for s by (rule Pending.IH[OF Pending.prems(1) longer])
    show "\<exists>cs. calls (snd (m s)) = calls s @ cs \<and> (\<forall>c\<in>set cs. G c (tr' @ [s]))" for s
      using Pending.hyps(2)[of s] Pending.prems(1) longer[of s] unfolding lasting_def by blast
  qed
qed (rule licensed.Ended)

lemma licensed_bindT:
  "licensed G tr t \<Longrightarrow> (\<And>x tr'. subseq tr tr' \<Longrightarrow> licensed G tr' (f x)) \<Longrightarrow> licensed G tr (bindT t f)"
proof (induction rule: licensed.induct)
  case (Ended tr r)
  then show ?case by (cases r) (auto intro: licensed.Ended)
next
  case (Pending tr m)
  have "licensed G (tr @ [s]) (bindT (fst (m s)) f)" for s
    by (rule Pending.IH) (use Pending.prems in \<open>blast intro: subseq_order.trans[OF subseq_rev_drop_many[OF subseq_order.refl]]\<close>)
  with Pending.hyps(2) show ?case unfolding Pending_fst_snd by (intro licensed.Pending) simp_all
qed

lemma licensed_tryT: "licensed G tr t \<Longrightarrow> licensed G tr (tryT t)"
proof (induction rule: licensed.induct)
  case (Pending tr m)
  then show ?case unfolding Pending_fst_snd by (intro licensed.Pending) simp_all
qed (simp add: licensed.Ended)

lemma licensed_reenter:
  assumes "licensed G tr t" and "lasting G" and "\<And>c us. licensed G us (h c)"
  shows "licensed G tr (reenter h t)"
  using assms(1)
proof (induction rule: licensed.induct)
  case (Pending tr m)
  have "licensed G (tr @ [s]) (bindT (tryT (h c)) (\<lambda>_. reenter h (fst (m s))))" for c s
    by (rule licensed_bindT[OF licensed_tryT[OF assms(3)]]) (rule licensed_longer[OF Pending.IH assms(2)])
  with Pending.IH Pending.hyps(2) show ?case by (simp, intro licensed.Pending) simp_all
qed (simp add: licensed.Ended)

lemma licensed_body:
  assumes "executes_by P b" and "\<And>q us. P q \<Longrightarrow> licensed G us (ex q)"
  shows "licensed G tr (body_thread ex b)"
  using assms(1)
proof (induction arbitrary: tr rule: executes_by.induct)
  case (Acts f)
  then show ?case by (simp, intro licensed.Pending) simp_all
next
  case (Executes q k)
  show ?case
    by simp (rule licensed_bindT[OF licensed_tryT[OF assms(2)[OF Executes(1)]]], simp add: Executes(3))
qed (simp add: retT_def licensed.Ended)

section \<open>The calls of a pool of licensed threads\<close>

lemma licensed_turn:
  assumes "\<And>j. j < length (fst p) \<Longrightarrow> licensed G (tr j) (fst p ! j)"
  obtains cs where "calls (snd (thread_step i p)) = calls (snd p) @ cs"
    and "cs \<noteq> [] \<Longrightarrow> i < length (fst p)"
    and "\<forall>c \<in> set cs. G c (tr i @ [snd p])"
    and "\<And>j. j < length (fst p) \<Longrightarrow> licensed G (tr j @ (if i = j then [snd p] else [])) (fst (thread_step i p) ! j)"
proof (cases "i < length (fst p) \<and> (\<exists>m. fst p ! i = Pending m)")
  case False
  then have "thread_step i p = p" by (cases "fst p ! i") (auto simp: thread_step_def)
  moreover have "licensed G us (fst p ! i)" if "i < length (fst p)" for us
    using that False by (cases "fst p ! i") (auto intro: licensed.Ended)
  ultimately show thesis using assms by (intro that[of "[]"]) auto
next
  case True
  then obtain m where i: "i < length (fst p)" and m: "fst p ! i = Pending m" by blast
  then have q: "thread_step i p = ((fst p)[i := fst (m (snd p))], snd (m (snd p)))"
    by (simp add: thread_step_def split_def)
  from assms[OF i] m have "licensed G (tr i) (Pending m)" by simp
  then obtain cs where "calls (snd (m (snd p))) = calls (snd p) @ cs" "\<forall>c\<in>set cs. G c (tr i @ [snd p])"
    "licensed G (tr i @ [snd p]) (fst (m (snd p)))" by (rule licensed_PendingE) blast
  with i assms show thesis by (intro that[of cs]) (auto simp: q nth_list_update)
qed

lemma licensed_pool:
  assumes "lasting G" and "\<And>j. j < length (fst p) \<Longrightarrow> licensed G (tr j) (fst p ! j)"
  shows "\<exists>cs. calls (snd (run_schedule is p)) = calls (snd p) @ cs \<and>
    (\<forall>c \<in> set cs. \<exists>j < length (fst p). G c (tr j @ moments j is p))"
  using assms(2)
proof (induction "is" arbitrary: p tr)
  case (Cons i "is")
  let ?q = "thread_step i p" and ?tr = "\<lambda>j. tr j @ (if i = j then [snd p] else [])"
  obtain cs where cs: "calls (snd ?q) = calls (snd p) @ cs" "cs \<noteq> [] \<Longrightarrow> i < length (fst p)"
      "\<forall>c \<in> set cs. G c (tr i @ [snd p])"
    and step: "\<And>j. j < length (fst p) \<Longrightarrow> licensed G (?tr j) (fst ?q ! j)"
    using licensed_turn[where i = i, OF Cons.prems] by blast
  from Cons.IH[of ?q ?tr] step obtain ds where ds: "calls (snd (run_schedule is ?q)) = calls (snd ?q) @ ds"
    "\<forall>c \<in> set ds. \<exists>j < length (fst p). G c (?tr j @ moments j is ?q)" by auto
  have "\<exists>j < length (fst p). G c (tr j @ moments j (i # is) p)" if "c \<in> set cs" for c
  proof -
    have "i < length (fst p)" using that by (intro cs(2)) auto
    moreover have "subseq (tr i @ [snd p]) (tr i @ moments i (i # is) p)" by (simp add: subseq_append')
    ultimately show ?thesis using assms(1) cs(3) that unfolding lasting_def by blast
  qed
  moreover have "\<exists>j < length (fst p). G c (tr j @ moments j (i # is) p)" if "c \<in> set ds" for c
    using ds(2) that by simp
  ultimately have "\<forall>c \<in> set (cs @ ds). \<exists>j < length (fst p). G c (tr j @ moments j (i # is) p)"
    unfolding set_append by blast
  then show ?case
    using cs(1) ds(1) by (intro exI[of _ "cs @ ds"]) (simp del: moments.simps set_append)
qed simp

section \<open>Re-entry does not get around the gates\<close>

lemma passes_longer: "passes gs us \<Longrightarrow> subseq us vs \<Longrightarrow> passes gs vs"
  unfolding passes_def by (blast intro: subseq_order.trans)

lemma earned_lasting: "lasting (\<lambda>c us. \<exists>rt a x. P (rt, a, x) \<and> earned_call L rt a x c us)"
  unfolding lasting_def earned_call_def by (fastforce intro: passes_longer)

lemma reentrant_licensed:
  fixes L :: "'z rt_libs_scheme" and P :: "'e request \<Rightarrow> bool"
  defines "G \<equiv> \<lambda>c (us :: ('e, 'y) idem_world_scheme list). \<exists>rt a x. P (rt, a, x) \<and> earned_call L rt a x c us"
  assumes "\<And>c. executes_by P (hs c)"
  shows "P q \<Longrightarrow> licensed G us (execute_reentrant L hs n q)"
proof (induction n arbitrary: q us)
  have one: "licensed G us (execute_thread L rt a x)" if "P (rt, a, x)" for rt a x us
  proof -
    have "guarded G [] (execute_thread L rt a x)"
      using execution_guarded by (rule guarded_mono) (use that in \<open>auto simp: G_def\<close>)
    then have "licensed G [] (execute_thread L rt a x)" by (rule guarded_licensed)
    then show ?thesis by (rule licensed_longer) (simp_all add: G_def earned_lasting)
  qed
  {
    case 0
    then show ?case by (cases q) (simp add: one)
  next
    case (Suc n)
    show ?case
    proof (cases q)
      case (fields rt a x)
      have "lasting G" by (simp add: G_def earned_lasting)
      with Suc fields show ?thesis
        by (auto intro!: licensed_reenter one licensed_body[OF assms(2)])
    qed
  }
qed

text \<open>
  C4: Handlers cannot get around the gates. Handlers may execute any actions of a given kind
  themselves, to any depth, and any executions of actions of the kind run at once, in any
  interleaving. Still every handler call made on the way is a call of the tool and the
  arguments of an action of the kind that has passed all its gates, in the order of the code,
  along the steps of the thread it runs in.
\<close>

theorem reentrant_calls_gated:
  assumes "\<forall>c. executes_by P (hs c)" and "\<forall>q \<in> set qs. P q"
  shows "\<exists>cs. calls (snd (run_schedule schedule (map (execute_reentrant L hs n) qs, s))) = calls s @ cs \<and>
    (\<forall>c \<in> set cs. \<exists>j < length qs. \<exists>rt a x. P (rt, a, x) \<and>
      earned_call L rt a x c (moments j schedule (map (execute_reentrant L hs n) qs, s)))"
proof -
  let ?p = "(map (execute_reentrant L hs n) qs, s)"
  have "licensed (\<lambda>c us. \<exists>rt a x. P (rt, a, x) \<and> earned_call L rt a x c us) [] (fst ?p ! j)" if "j < length (fst ?p)" for j
    using that assms by (simp add: reentrant_licensed)
  from licensed_pool[where tr = "\<lambda>_. []", OF earned_lasting this] show ?thesis by simp
qed

theorem reentrant_calls_gated_witness:
  "\<exists>cs. calls (snd (run_schedule (replicate 30 0)
      (map (execute_reentrant sample_rt_libs (\<lambda>_. Executes sample_request (\<lambda>_. Leaves)) 3) [sample_request],
       sample_state ()))) = cs \<and>
    (\<forall>c \<in> set cs. c = HandlerCall ''refund'' [(PyStr ''amount'', PyInt 5)])"
  using reentrant_calls_gated[of "\<lambda>q. q = sample_request" "\<lambda>_. Executes sample_request (\<lambda>_. Leaves)"
      "[sample_request]" "replicate 30 0" sample_rt_libs 3 "sample_state ()"]
  by (auto simp: earned_call_def sample_state_def sample_action_def intro: executes_by.intros)

end
