(* ===== verification/Outbox_Threads.thy ===== *)
theory Outbox_Threads
  imports Outbox_Correctness Threads
begin

text \<open>
  Several workers that release operations of one outbox at once. \<^verbatim>\<open>release\<close> holds the lock of
  the backend from start to end, but \<^verbatim>\<open>release_all\<close> does not: it reads the staged operations
  under the lock and then releases them one by one, each under the lock again. Here it is a
  thread of these steps, so that the workers are interleaved as the locks allow.
\<close>

section \<open>The methods as threads\<close>

fun release_loop_thread ::
  "'z libs_scheme \<Rightarrow> 'e outbox \<Rightarrow> outbox_operation list \<Rightarrow> outbox_operation list \<Rightarrow> outbox_operation list \<Rightarrow>
   (('e, 'y) outbox_world_scheme, outbox_operation list \<times> outbox_operation list) thread" where
  "release_loop_thread L ob [] released failed = retT (released, failed)"
| "release_loop_thread L ob (operation # rest) released failed =
     bindT (atomic (release L ob (op_operation_id operation))) (\<lambda>result.
     if op_status result = RELEASED then release_loop_thread L ob rest (released @ [result]) failed
     else release_loop_thread L ob rest released (failed @ [result]))"

definition release_all_thread ::
  "'z libs_scheme \<Rightarrow> 'e outbox \<Rightarrow> uuid \<Rightarrow> (('e, 'y) outbox_world_scheme, outbox_release_summary) thread" where
  "release_all_thread L ob transaction_id =
     bindT (atomic (getM (\<lambda>s. filter (\<lambda>p. op_status p = STAGED) (list_operations s (Some transaction_id))))) (\<lambda>staged.
     bindT (release_loop_thread L ob staged [] []) (\<lambda>(released, failed).
     retT \<lparr>rs_transaction_id = transaction_id, rs_released = released, rs_failed = failed\<rparr>))"

lemma run_release_loop_thread: "run_thread (release_loop_thread L ob ps rs fs) = release_loop L ob ps rs fs"
proof (induction ps arbitrary: rs fs)
  case (Cons p ps)
  have "run_thread (if b then t else u) = (if b then run_thread t else run_thread u)"
    for b and t u :: "(('a, 'b) outbox_world_scheme, outbox_operation list \<times> outbox_operation list) thread" by simp
  then show ?case by (simp add: Cons.IH cong: if_cong)
qed simp

lemma run_release_all_thread: "run_thread (release_all_thread L ob tx) = release_all L ob tx"
  by (simp add: release_all_thread_def release_all_def run_release_loop_thread split_def)

text \<open>What a worker does, and the operations it reports.\<close>

datatype outbox_task = ReleaseOne uuid | ReleaseAll uuid

fun worker ::
  "'z libs_scheme \<Rightarrow> 'e outbox \<Rightarrow> outbox_task \<Rightarrow> (('e, 'y) outbox_world_scheme, outbox_operation list) thread" where
  "worker L ob (ReleaseOne i) = bindT (atomic (release L ob i)) (\<lambda>p. retT [p])"
| "worker L ob (ReleaseAll tx) = bindT (release_all_thread L ob tx) (\<lambda>sm. retT (rs_released sm @ rs_failed sm))"

section \<open>What every step keeps\<close>

lemma worker_obeys:
  fixes R :: "('e, 'y) outbox_world_scheme \<Rightarrow> ('e, 'y) outbox_world_scheme \<Rightarrow> bool"
  assumes "\<And>i. along R (release L ob i)" and "\<And>s. R s s"
  shows "obeys R (worker L ob task)"
proof -
  have step: "obeys R (atomic (release L ob i))" for i by (rule obeys_atomic) (rule assms(1))
  have "obeys R (release_loop_thread L ob ps rs fs)" for ps rs fs
    by (induction ps arbitrary: rs fs) (auto intro!: obeys_intros step)
  moreover have "obeys R (atomic (getM f))" for f :: "('e, 'y) outbox_world_scheme \<Rightarrow> outbox_operation list"
    by (rule obeys_atomic) (simp add: along_def assms(2))
  ultimately show ?thesis
    by (cases task) (auto simp: release_all_thread_def split_def intro!: obeys_intros step)
qed

definition settles_on :: "('e, 'y) outbox_world_scheme \<Rightarrow> ('e, 'y) outbox_world_scheme \<Rightarrow> bool" where
  "settles_on s t \<longleftrightarrow> (outbox_inv s \<longrightarrow> outbox_inv t) \<and>
     (\<forall>k p. settled_operation s k = Some p \<longrightarrow> settled_operation t k = Some p)"

interpretation settling: evolution settles_on
  by unfold_locales (auto simp: settles_on_def)

lemma release_settles_on: "along settles_on (release L ob i)"
  by (simp add: along_def settles_on_def release_inv release_keeps_settled)

lemma workers_settle: "list_all (obeys settles_on) (map (worker L ob) tasks)"
  by (simp add: list_all_iff worker_obeys release_settles_on settling.refl)

section \<open>What the workers report is stored\<close>

definition stored :: "outbox_operation set \<Rightarrow> ('e, 'y) outbox_world_scheme \<Rightarrow> bool" where
  "stored A s \<longleftrightarrow> outbox_inv s \<and> (\<forall>p \<in> A. settled_operation s (op_operation_id p) = Some p)"

lemma stored_settles_on: "stored A s \<Longrightarrow> settles_on s t \<Longrightarrow> stored A t"
  by (auto simp: stored_def settles_on_def)

lemma release_stored:
  assumes "release L ob i s = (Inr p, t)" and "stored A s"
  shows "stored (insert p A) t"
proof -
  have "settles_on s t" using alongD[OF release_settles_on assms(1)] .
  with assms(2) have t: "stored A t" by (rule stored_settles_on)
  have "settled_operation t i = Some p" by (rule release_settles[OF assms(1)])
  moreover from this t have "op_operation_id p = i"
    by (auto simp: stored_def outbox_inv_def settled_operation_def split: option.splits if_splits dest!: map_of_SomeD)
  ultimately show ?thesis using t by (simp add: stored_def)
qed

text \<open>\<open>vouches A t\<close>: the operations of \<open>A\<close> are stored, and so is what \<open>t\<close> will report.\<close>

inductive vouches ::
  "('a \<Rightarrow> outbox_operation set) \<Rightarrow> outbox_operation set \<Rightarrow> (('e, 'y) outbox_world_scheme, 'a) thread \<Rightarrow> bool"
  for reports where
  Ended: "(\<And>x. r = Inr x \<Longrightarrow> reports x \<subseteq> A) \<Longrightarrow> vouches reports A (Ended r)"
| Pending: "(\<And>s. stored A s \<Longrightarrow> vouches reports (B s) (fst (m s))) \<Longrightarrow>
    (\<And>s. stored A s \<Longrightarrow> stored (B s) (snd (m s))) \<Longrightarrow> vouches reports A (Pending m)"

inductive_cases vouches_EndedE: "vouches reports A (Ended r)"
inductive_cases vouches_PendingE: "vouches reports A (Pending m)"

lemma vouches_release:
  assumes "\<And>p. vouches reports (insert p A) (f p)"
  shows "vouches reports A (bindT (atomic (release L ob i)) f)"
  unfolding Pending_fst_snd
proof (rule vouches.Pending[where B = "\<lambda>s. case fst (release L ob i s) of Inl _ \<Rightarrow> A | Inr p \<Rightarrow> insert p A"], goal_cases)
  case (1 s)
  show ?case using assms by (auto intro: vouches.Ended split: sum.split)
next
  case (2 s)
  then show ?case
    using release_stored[of L ob i s _ "snd (release L ob i s)" A]
      stored_settles_on[OF 2 along_snd[OF release_settles_on], of L ob i]
    by (cases "release L ob i s") (auto split: sum.split)
qed

lemma vouches_loop:
  "set rs \<union> set fs \<subseteq> A \<Longrightarrow> (\<And>rs fs B. set rs \<union> set fs \<subseteq> B \<Longrightarrow> vouches reports B (f (rs, fs))) \<Longrightarrow>
   vouches reports A (bindT (release_loop_thread L ob ps rs fs) f)"
proof (induction ps arbitrary: rs fs A)
  case (Cons p ps)
  have "vouches reports (insert q A) (bindT (if op_status q = RELEASED
      then release_loop_thread L ob ps (rs @ [q]) fs else release_loop_thread L ob ps rs (fs @ [q])) f)" for q
    using Cons.prems(1) by (auto intro!: Cons.IH Cons.prems(2))
  then show ?case by (simp add: vouches_release bindT_assoc)
qed simp

lemma worker_vouches: "vouches set {} (worker L ob task)"
proof (cases task)
  case (ReleaseOne i)
  then show ?thesis by (auto simp: retT_def intro!: vouches_release vouches.Ended)
next
  case (ReleaseAll tx)
  have "vouches set {} (bindT (release_loop_thread L ob ps [] []) (\<lambda>(rs, fs). retT (rs @ fs)))" for ps
    by (rule vouches_loop) (auto simp: retT_def intro!: vouches.Ended)
  then show ?thesis
    unfolding ReleaseAll worker.simps release_all_thread_def bindT_assoc Pending_fst_snd
    by (intro vouches.Pending[where B = "\<lambda>_. {}"]) (simp_all add: split_def bindT_assoc)
qed

lemma vouched_pool:
  fixes p :: "(('e, 'y) outbox_world_scheme, 'a) pool"
  assumes "list_all (obeys settles_on) (fst p)"
    and "\<And>i. i < length (fst p) \<Longrightarrow> \<exists>A. vouches reports A (fst p ! i) \<and> stored A (snd p)"
  shows "i < length (fst p) \<Longrightarrow>
    \<exists>A. vouches reports A (fst (run_schedule is p) ! i) \<and> stored A (snd (run_schedule is p))"
  using assms
proof (induction "is" arbitrary: p)
  case (Cons j "is")
  let ?q = "thread_step j p"
  have step: "list_all (obeys settles_on) (fst ?q)" "settles_on (snd p) (snd ?q)"
    using thread_step_obeys[OF Cons.prems(2) settling.refl] by simp_all
  have "\<exists>A. vouches reports A (fst ?q ! k) \<and> stored A (snd ?q)" if "k < length (fst ?q)" for k
  proof -
    have k: "k < length (fst p)" using that by simp
    obtain A where A: "vouches reports A (fst p ! k)" "stored A (snd p)" using Cons.prems(3) k by auto
    show ?thesis
    proof (cases "k = j \<and> (\<exists>m. fst p ! k = Pending m)")
      case False
      then have "fst ?q ! k = fst p ! k"
        by (cases "k = j") (auto simp: thread_step_other, auto simp: thread_step_def split: thread.split)
      then show ?thesis using A stored_settles_on[OF A(2) step(2)] by auto
    next
      case True
      then obtain m where j: "k = j" and m: "fst p ! k = Pending m" by blast
      have q: "?q = ((fst p)[j := fst (m (snd p))], snd (m (snd p)))"
        using j m k by (simp add: thread_step_def split_def)
      from A m have "vouches reports A (Pending m)" by simp
      then obtain B where "vouches reports B (fst (m (snd p)))" "stored B (snd (m (snd p)))"
        by (rule vouches_PendingE) (use A(2) in blast)
      then show ?thesis using j k q by auto
    qed
  qed
  then show ?case using Cons.IH[of ?q] step(1) Cons.prems(1) by simp
qed auto

lemma reported_stored:
  assumes inv: "outbox_inv s" and run: "run_schedule schedule (map (worker L ob) tasks, s) = (ts, t)"
    and j: "j < length ts" "ts ! j = Ended (Inr xs)" and q: "q \<in> set xs"
  shows "settled_operation t (op_operation_id q) = Some q"
proof -
  have "length ts = length tasks"
    using run_schedule_length[of schedule "(map (worker L ob) tasks, s)"] unfolding run by simp
  then have "\<exists>A. vouches set A (ts ! j) \<and> stored A t"
    using vouched_pool[of "(map (worker L ob) tasks, s)" set j schedule] workers_settle[of L ob tasks]
      worker_vouches[of L ob] inv j unfolding run by (auto simp: stored_def)
  then obtain A where "vouches set A (Ended (Inr xs) :: (('a, 'b) outbox_world_scheme, outbox_operation list) thread)"
    "stored A t" using j(2) by auto
  with q show ?thesis by (auto simp: stored_def elim: vouches_EndedE)
qed

section \<open>Called exactly once\<close>

text \<open>
  An operation that a release can settle: it is settled already, or it is staged with a
  handler that returns JSON values only, and the clock has not run back behind its staging.
\<close>

definition ready :: "'z libs_scheme \<Rightarrow> 'e outbox \<Rightarrow> uuid \<Rightarrow> ('e, 'y) outbox_world_scheme \<Rightarrow> bool" where
  "ready L ob i s \<longleftrightarrow> outbox_inv s \<and> (settled_operation s i \<noteq> None \<or>
     (\<exists>p h. map_of (operations s) i = Some p \<and> op_status p = STAGED \<and> valid_operation L p \<and>
        staged_handlers s i = Some h \<and> op_staged_at p \<le> ob_clock ob (tick s) \<and>
        (\<forall>e v. fst (h (op_arguments p) e) = Returned v \<longrightarrow> json_value L v)))"

definition due :: "uuid \<Rightarrow> ('e, 'y) outbox_world_scheme \<Rightarrow> nat" where
  "due i s = count_list (calls s) (ReleaseCall i) + (if settled_operation s i = None then 1 else 0)"

definition accounts ::
  "'z libs_scheme \<Rightarrow> 'e outbox \<Rightarrow> uuid \<Rightarrow> ('e, 'y) outbox_world_scheme \<Rightarrow> ('e, 'y) outbox_world_scheme \<Rightarrow> bool" where
  "accounts L ob i s t \<longleftrightarrow> (ready L ob i s \<longrightarrow> ready L ob i t \<and> due i t = due i s)"

interpretation accounting: evolution "accounts L ob i"
  by unfold_locales (auto simp: accounts_def)

lemma release_later: "along later (release L ob i)"
  unfolding release_def release_staged_def call_staged_def outbox_event_def
  by (intro later_rules later_modifyM later_ledger_append; simp)

lemma built_release_returns:
  assumes "pydantic_documented L" and "valid_operation L p" and "op_staged_at p \<le> ob_clock ob (tick s)"
    and "\<And>v. out = Some v \<Longrightarrow> json_value L v"
  shows "\<exists>q t. built_release L ob p out s = (Inr q, t)"
proof -
  have "DomainName L (op_operation_name p) = Some (op_operation_name p)" "JsonObject L (op_arguments p)"
    using assms(2) by (auto simp: valid_operation_def OutboxOperation_Inr)
      (metis outbox_operation.select_convs(3) outbox_operation.surjective outbox_operation.update_convs(3))
  then show ?thesis
    using assms(3,4) json_documented(1)[OF assms(1), of PyNone] outbox_texts[OF assms(1)]
    by (cases out) (auto simp: built_release_def FailureDetail_def OutboxOperation_def validate_status_fields_def)
qed

lemma release_ready_settles:
  assumes doc: "pydantic_documented L" and clk: "mono (ob_clock ob)" and r: "ready L ob i s"
  shows "settled_operation (snd (release L ob i s)) i \<noteq> None"
proof (cases "settled_operation s i")
  case (Some p)
  then show ?thesis by (simp add: release_settled)
next
  case None
  with r obtain p h where p: "map_of (operations s) i = Some p" "op_status p = STAGED" "valid_operation L p"
    "staged_handlers s i = Some h" "op_staged_at p \<le> ob_clock ob (tick s)"
    "\<And>e v. fst (h (op_arguments p) e) = Returned v \<Longrightarrow> json_value L v" by (auto simp: ready_def)
  have run: "release L ob i s = release_staged L ob i p h s" using p by (simp add: release_def)
  obtain out s1 where 1: "tryM (call_staged h p) s = (Inr out, s1)"
    by (cases "call_staged h p s"; cases "fst (call_staged h p s)") (auto simp: tryM_def)
  have "along later (call_staged h p)" unfolding call_staged_def by (intro later_rules)
  then have "later s s1" using alongD[OF time.tried 1] by blast
  then have "op_staged_at p \<le> ob_clock ob (tick s1)"
    using p(5) clk by (auto simp: later_def mono_def intro: order_trans)
  moreover have "json_value L v" if "out = Some v" for v
    using 1 that p(6)[of "ext s" v]
    by (auto simp: tryM_def call_staged_def call_user_def split: prod.splits outcome.splits sum.splits)
  ultimately obtain q s2 where 2: "built_release L ob p out s1 = (Inr q, s2)"
    using built_release_returns[OF doc p(3), of ob s1 out] by blast
  obtain r3 s4 where 3: "outbox_event L ob (if op_status q = RELEASED then ''outbox.released''
       else ''outbox.release_failed'') q (s2\<lparr>operations := dict_set i q (operations s2)\<rparr>) = (r3, s4)" by fastforce
  have "operations s4 = dict_set i q (operations s2)"
    using keepsD[OF outbox_event_operations(1) 3] by simp
  moreover have "snd (release_staged L ob i p h s) = s4"
    using 1 2 3 by (simp add: release_staged_eq bindM_run bindM_cases split: sum.split)
  ultimately show ?thesis
    using built_release_Inr[OF 2] run by (simp add: settled_operation_def settles_def)
qed

lemma release_accounts:
  assumes doc: "pydantic_documented L" and clk: "mono (ob_clock ob)"
  shows "along (accounts L ob i) (release L ob j)"
  unfolding along_def accounts_def
proof (intro allI impI)
  fix s
  assume r: "ready L ob i s"
  let ?t = "snd (release L ob j s)"
  have inv: "outbox_inv s" "outbox_inv ?t" using r release_inv[of s L ob j] by (auto simp: ready_def)
  have own: "op_operation_id p = k \<and> staged_handlers s k \<noteq> None" if "map_of (operations s) k = Some p" for k p
    using inv(1) map_of_SomeD[OF that] by (auto simp: outbox_inv_def)
  have calls: "calls ?t = calls s @ (case map_of (operations s) j of
      Some p \<Rightarrow> if op_status p = STAGED then [ReleaseCall j] else [] | None \<Rightarrow> [])"
    using own by (auto simp: release_calls split: option.split)
  show "ready L ob i ?t \<and> due i ?t = due i s"
  proof (cases "settled_operation s i")
    case (Some p)
    then have "settled_operation ?t i = Some p" by (rule release_keeps_settled)
    moreover have "count_list (calls ?t) (ReleaseCall i) = count_list (calls s) (ReleaseCall i)"
      using Some unfolding calls by (auto simp: settled_operation_def split: option.splits if_splits)
    ultimately show ?thesis using Some inv(2) by (simp add: ready_def due_def)
  next
    case None
    with r obtain p h where p: "map_of (operations s) i = Some p" "op_status p = STAGED" "valid_operation L p"
      "staged_handlers s i = Some h" "op_staged_at p \<le> ob_clock ob (tick s)"
      "\<And>e v. fst (h (op_arguments p) e) = Returned v \<Longrightarrow> json_value L v" by (auto simp: ready_def)
    show ?thesis
    proof (cases "j = i")
      case True
      then show ?thesis
        using release_ready_settles[OF doc clk r] None p(1,2) inv(2) unfolding ready_def due_def calls by auto
    next
      case False
      have "map_of (operations ?t) i = Some p"
        by (cases rule: release_operations[of L ob j s]) (use p(1) False in auto)
      moreover have "op_staged_at p \<le> ob_clock ob (tick ?t)"
        using along_snd[OF release_later, of s L ob j] p(5) clk by (auto simp: later_def mono_def intro: order_trans)
      moreover have "count_list (calls ?t) (ReleaseCall i) = count_list (calls s) (ReleaseCall i)"
        using False unfolding calls by (auto split: option.split)
      ultimately show ?thesis
        using p None inv(2) release_handlers[of L ob j s] by (auto simp: ready_def due_def settled_operation_def)
    qed
  qed
qed

text \<open>
  C22: Released exactly once by concurrent workers. Any number of workers release operations
  and whole transactions of one outbox at once, and are interleaved as the locks allow. Let
  the outbox be well formed, let its clock not run backwards, and let an operation be a valid
  one that is staged, at a time that is not after the clock's present reading, with a handler
  that returns JSON values only. Then at every moment its handler has been called exactly
  once if it is settled by then, and not at all otherwise; and whatever a worker reports of an
  operation is what is stored of it. Without the condition on the clock this is false: a
  reading before \<^verbatim>\<open>staged_at\<close> makes \<^verbatim>\<open>release\<close> raise after the call
  (\<open>Outbox_Correctness.early_clock_repeats_call\<close>).
\<close>

theorem concurrent_release_once:
  assumes "pydantic_documented L" and "mono (ob_clock ob)" and "outbox_inv s"
    and "map_of (operations s) i = Some p" and "op_status p = STAGED" and "valid_operation L p"
    and "staged_handlers s i = Some h" and "op_staged_at p \<le> ob_clock ob (tick s)"
    and "\<And>e v. fst (h (op_arguments p) e) = Returned v \<Longrightarrow> json_value L v"
    and "run_schedule schedule (map (worker L ob) tasks, s) = (ts, t)"
  shows "count_list (calls t) (ReleaseCall i) =
      count_list (calls s) (ReleaseCall i) + (if settled_operation t i = None then 0 else 1) \<and>
    (\<forall>j xs q. j < length ts \<and> ts ! j = Ended (Inr xs) \<and> q \<in> set xs \<longrightarrow>
       settled_operation t (op_operation_id q) = Some q)"
proof -
  have "list_all (obeys (accounts L ob i)) (map (worker L ob) tasks)"
    by (simp add: list_all_iff worker_obeys release_accounts[OF assms(1,2)] accounting.refl)
  then have "accounts L ob i s t"
    using accounting.scheduled[of L ob i "(map (worker L ob) tasks, s)" schedule] unfolding assms(10) by simp
  moreover have "ready L ob i s" unfolding ready_def using assms(3-9) by blast
  ultimately have "due i t = due i s" by (simp add: accounts_def)
  then have "count_list (calls t) (ReleaseCall i) =
      count_list (calls s) (ReleaseCall i) + (if settled_operation t i = None then 0 else 1)"
    using assms(4,5) by (auto simp: due_def settled_operation_def split: if_splits)
  with reported_stored[OF assms(3,10)] show ?thesis by blast
qed

text \<open>Two workers release the transaction of the sample outbox, a third one of its operations.\<close>

theorem concurrent_release_once_witness:
  "\<exists>ts t. run_schedule [0, 1, 2, 0, 1, 1, 0]
       (map (worker sample_libs sample_outbox) [ReleaseAll 1, ReleaseAll 1, ReleaseOne 6],
        sample_outbox_world handler_ok) = (ts, t) \<and>
     count_list (calls t) (ReleaseCall 5) = (if settled_operation t 5 = None then 0 else 1)"
proof -
  let ?tasks = "[ReleaseAll 1, ReleaseAll 1, ReleaseOne 6]" and ?s = "sample_outbox_world handler_ok"
  obtain ts t where run: "run_schedule [0, 1, 2, 0, 1, 1, 0] (map (worker sample_libs sample_outbox) ?tasks, ?s) = (ts, t)"
    by (metis prod.collapse)
  have "valid_operation sample_libs (sample_staged 5)"
    by (simp add: valid_operation_def OutboxOperation_def sample_staged_def sample_notify sample_json
        validate_status_fields_def)
  moreover have "map_of (operations ?s) 5 = Some (sample_staged 5)" "op_status (sample_staged 5) = STAGED"
    "staged_handlers ?s 5 = Some handler_ok" "op_staged_at (sample_staged 5) \<le> ob_clock sample_outbox (tick ?s)"
    "mono (ob_clock sample_outbox)" "calls ?s = []"
    by (simp_all add: sample_outbox_world_def sample_staged_def mono_def)
  ultimately have "count_list (calls t) (ReleaseCall 5) = (if settled_operation t 5 = None then 0 else 1)"
    using concurrent_release_once[OF sample_libs_documented _ sample_outbox_inv _ _ _ _ _ _ run,
        of 5 "sample_staged 5" handler_ok] by (auto simp: handler_ok_def sample_json)
  with run show ?thesis by blast
qed

end
