(* ===== verification/Outbox_Reentrancy.thy ===== *)
theory Outbox_Reentrancy
  imports Outbox_Correctness
begin

text \<open>
  Handlers that call back into the outbox. The lock of \<^verbatim>\<open>outbox/backend.py\<close> is an \<^verbatim>\<open>RLock\<close>, so a
  staged handler may call \<^verbatim>\<open>release\<close> from the thread that is releasing it. Here a handler is a
  script of effects and of such nested releases, and \<open>release\<close> recurses through them; fuel
  bounds the depth of the nesting, and running out of it is \<open>None\<close>.
\<close>

section \<open>Scripts\<close>

datatype 'e script =
  Finishes "pyval outcome"
| Effect "'e \<Rightarrow> 'e script \<times> 'e"
| Releases uuid "outbox_operation result \<Rightarrow> 'e script"

type_synonym ('e, 'y) nested_release =
  "uuid \<Rightarrow> ('e, 'y) outbox_world_scheme \<Rightarrow> (outbox_operation result \<times> ('e, 'y) outbox_world_scheme) option"

primrec run_script ::
  "('e, 'y) nested_release \<Rightarrow> 'e script \<Rightarrow> ('e, 'y) outbox_world_scheme \<Rightarrow>
   (pyval outcome \<times> ('e, 'y) outbox_world_scheme) option" where
  "run_script rel (Finishes out) = (\<lambda>s. Some (out, s))"
| "run_script rel (Effect f) = (\<lambda>s. (\<lambda>(go, e). go (s\<lparr>ext := e\<rparr>)) ((map_prod (run_script rel) id \<circ> f) (ext s)))"
| "run_script rel (Releases i k) = (\<lambda>s. case rel i s of None \<Rightarrow> None | Some (r, s') \<Rightarrow> ((run_script rel \<circ> k) r) s')"

lemma run_script_Effect: "run_script rel (Effect f) s = run_script rel (fst (f (ext s))) (s\<lparr>ext := snd (f (ext s))\<rparr>)"
  by (simp add: map_prod_def split_def)

declare run_script.simps(2) [simp del] run_script_Effect [simp]

lemma script_induct [case_names Finishes Effect Releases]:
  assumes "\<And>out. P (Finishes out)" and "\<And>f. (\<And>e. P (fst (f e))) \<Longrightarrow> P (Effect f)"
    and "\<And>i k. (\<And>r. P (k r)) \<Longrightarrow> P (Releases i k)"
  shows "P t"
  using assms by (induction t) (metis fsts.intros prod.collapse rangeI)+

text \<open>A handler that does not call back.\<close>

definition plain :: "'e handler \<Rightarrow> json_object \<Rightarrow> 'e script" where
  "plain h args = Effect (\<lambda>e. map_prod Finishes id (h args e))"

section \<open>Release, with nested releases\<close>

definition finish_release ::
  "'z libs_scheme \<Rightarrow> 'e outbox \<Rightarrow> uuid \<Rightarrow> outbox_operation \<Rightarrow> pyval option \<Rightarrow>
   (('e, 'y) outbox_world_scheme, outbox_operation) action" where
  "finish_release L ob operation_id operation out =
     bindM (read_clock (ob_clock ob)) (\<lambda>released_at.
     bindM (case out of
         None \<Rightarrow>
           bindM (liftM (FailureDetail L \<lparr>fd_code = ''outbox_release_failed'',
             fd_message = ''Staged operation handler raised an exception.''\<rparr>)) (\<lambda>error.
           liftM (OutboxOperation L
             \<lparr>op_operation_id = op_operation_id operation,
              op_transaction_id = op_transaction_id operation,
              op_operation_name = op_operation_name operation,
              op_arguments = op_arguments operation, op_status = FAILED,
              op_staged_at = op_staged_at operation, op_released_at = Some released_at,
              op_output = PyNone, op_error = Some error\<rparr>))
       | Some output \<Rightarrow>
           liftM (OutboxOperation L
             \<lparr>op_operation_id = op_operation_id operation,
              op_transaction_id = op_transaction_id operation,
              op_operation_name = op_operation_name operation,
              op_arguments = op_arguments operation, op_status = RELEASED,
              op_staged_at = op_staged_at operation, op_released_at = Some released_at,
              op_output = output, op_error = None\<rparr>)) (\<lambda>released.
     bindM (modifyM (\<lambda>s. s\<lparr>operations := dict_set operation_id released (operations s)\<rparr>)) (\<lambda>_.
     bindM (outbox_event L ob (if op_status released = RELEASED then ''outbox.released''
       else ''outbox.release_failed'') released) (\<lambda>_.
     retM released))))"

fun release_nested ::
  "'z libs_scheme \<Rightarrow> 'e outbox \<Rightarrow> (uuid \<Rightarrow> json_object \<Rightarrow> 'e script) \<Rightarrow> nat \<Rightarrow> ('e, 'y) nested_release" where
  "release_nested L ob scripts 0 operation_id s = None"
| "release_nested L ob scripts (Suc n) operation_id s =
     (case map_of (operations s) operation_id of
        None \<Rightarrow> Some (Inl (UnknownOutboxOperationError operation_id), s)
      | Some operation \<Rightarrow>
          if op_status operation \<noteq> STAGED then Some (Inr operation, s)
          else if staged_handlers s operation_id = None then Some (Inl (KeyErr (uuid_str operation_id)), s)
          else
            (case run_script (release_nested L ob scripts n) (scripts operation_id (op_arguments operation))
                (s\<lparr>calls := calls s @ [ReleaseCall (op_operation_id operation)]\<rparr>) of
               None \<Rightarrow> None
             | Some (out, s') \<Rightarrow>
                 Some (finish_release L ob operation_id operation
                   (case out of Raised \<Rightarrow> None | Returned v \<Rightarrow> Some v) s')))"

text \<open>Without call-backs this is the \<^verbatim>\<open>release\<close> of the other theories.\<close>

lemma release_staged_finish: "release_staged L ob i p h = bindM (tryM (call_staged h p)) (finish_release L ob i p)"
  by (simp only: release_staged_def finish_release_def[abs_def])

lemma release_nested_plain:
  assumes "\<And>h. staged_handlers s i = Some h \<Longrightarrow> scripts i = plain h"
  shows "release_nested L ob scripts (Suc n) i s = Some (release L ob i s)"
  using assms
  by (auto simp: release_def release_staged_finish plain_def call_staged_def call_user_def tryM_def note_call_def
      bindM_def[of "tryM _"] bindM_cases split: option.split prod.split outcome.split)

section \<open>A handler that releases its own operation\<close>

lemma finish_release_eq:
  "finish_release L ob i p out = bindM (built_release L ob p out) (\<lambda>released.
     bindM (modifyM (\<lambda>s. s\<lparr>operations := dict_set i released (operations s)\<rparr>)) (\<lambda>_.
     bindM (outbox_event L ob (if op_status released = RELEASED then ''outbox.released''
       else ''outbox.release_failed'') released) (\<lambda>_.
     retM released)))"
  by (auto simp: finish_release_def built_release_def bindM_def fun_eq_iff read_clock_def
      split: option.split prod.split sum.split)

lemma finish_release_calls: "calls (snd (finish_release L ob i p out s)) = calls s"
  unfolding finish_release_def by (rule keeps_snd) (intro keeps_intros keeps_modifyM; simp)

text \<open>It calls back as often as the counter it finds says, and once after the last time it returns.\<close>

definition again :: "uuid \<Rightarrow> nat script" where
  "again i = Effect (\<lambda>n. (if n = 0 then Finishes (Returned PyNone) else Releases i (\<lambda>_. Finishes (Returned PyNone)), n - 1))"

lemma again_repeats:
  assumes "scripts i = (\<lambda>_. again i)" and "map_of (operations s) i = Some p" and "op_status p = STAGED"
    and "op_operation_id p = i" and "staged_handlers s i \<noteq> None"
  shows "\<exists>r t. release_nested L ob scripts (Suc (Suc (ext s))) i s = Some (r, t) \<and>
    calls t = calls s @ replicate (Suc (ext s)) (ReleaseCall i)"
  using assms(2-)
proof (induction "ext s" arbitrary: s)
  case 0
  let ?s = "s\<lparr>calls := calls s @ [ReleaseCall i], ext := 0\<rparr>"
  have e: "ext s = 0" using 0 by simp
  have "release_nested L ob scripts (Suc (Suc (ext s))) i s = Some (finish_release L ob i p (Some PyNone) ?s)"
    using 0 assms(1) e by (subst release_nested.simps) (auto simp: again_def simp del: release_nested.simps)
  then show ?case
    using e finish_release_calls[of L ob i p "Some PyNone" ?s] by (cases "finish_release L ob i p (Some PyNone) ?s") simp
next
  case (Suc n)
  let ?s = "s\<lparr>calls := calls s @ [ReleaseCall i], ext := n\<rparr>"
  have "\<exists>r t. release_nested L ob scripts (Suc (Suc (ext ?s))) i ?s = Some (r, t) \<and>
      calls t = calls ?s @ replicate (Suc (ext ?s)) (ReleaseCall i)"
    by (rule Suc.hyps(1)) (use Suc.prems in simp_all)
  then obtain r t where nested: "release_nested L ob scripts (Suc (Suc n)) i ?s = Some (r, t)"
    and c: "calls t = calls s @ ReleaseCall i # replicate (Suc n) (ReleaseCall i)" by auto
  have "ext s = Suc n" using Suc.hyps(2) by simp
  then have "release_nested L ob scripts (Suc (Suc (ext s))) i s = Some (finish_release L ob i p (Some PyNone) t)"
    using Suc.prems nested assms(1) by (subst release_nested.simps) (auto simp: again_def simp del: release_nested.simps)
  then show ?case
    using c finish_release_calls[of L ob i p "Some PyNone" t] \<open>ext s = Suc n\<close>
    by (cases "finish_release L ob i p (Some PyNone) t") simp
qed

text \<open>
  C37: At most once fails under reentrancy. The status of an operation stays STAGED while its
  handler runs and the lock lets the same thread in again; so for every number there is a
  handler, which releases its own operation, that one call of \<^verbatim>\<open>release\<close> calls more often.
\<close>

theorem reentrant_release_repeats:
  assumes "map_of (operations s) i = Some p" and "op_status p = STAGED" and "op_operation_id p = i"
    and "staged_handlers s i \<noteq> None"
  shows "\<exists>script :: nat script. \<forall>n. \<exists>r t fuel.
    release_nested L ob (\<lambda>_ _. script) fuel i (s\<lparr>ext := n\<rparr>) = Some (r, t) \<and>
    calls t = calls s @ replicate (Suc n) (ReleaseCall i)"
proof (intro exI[of _ "again i"] allI)
  fix n
  show "\<exists>r t fuel. release_nested L ob (\<lambda>_ _. again i) fuel i (s\<lparr>ext := n\<rparr>) = Some (r, t) \<and>
      calls t = calls s @ replicate (Suc n) (ReleaseCall i)"
    using again_repeats[of "\<lambda>_ _. again i" i "s\<lparr>ext := n\<rparr>" p L ob] assms by (auto simp del: release_nested.simps)
qed

text \<open>An outbox with one staged operation, and a number for the handlers to read.\<close>

definition counting_world :: "nat outbox_world" where
  "counting_world = \<lparr>tick = 1, uuid_source = of_nat, drawn = 9, utc_now = int, calls = [],
     ext = 0, events = [], operations = [(5, sample_staged 5), (6, sample_staged 6)],
     staged_handlers = (\<lambda>_. Some (\<lambda>_ e. (Raised, e)))\<rparr>"

definition counting_outbox :: "nat outbox" where
  "counting_outbox = InMemoryOutboxBackend int None None"

theorem reentrant_release_repeats_witness:
  "\<exists>(script :: nat script) r t fuel.
     release_nested sample_libs counting_outbox (\<lambda>_ _. script) fuel 5 (counting_world\<lparr>ext := 2\<rparr>) = Some (r, t) \<and>
     calls t = [ReleaseCall 5, ReleaseCall 5, ReleaseCall 5]"
proof -
  have "map_of (operations counting_world) 5 = Some (sample_staged 5)" "op_status (sample_staged 5) = STAGED"
    "op_operation_id (sample_staged 5) = 5" "staged_handlers counting_world 5 \<noteq> None" "calls counting_world = []"
    by (simp_all add: counting_world_def sample_staged_def)
  from reentrant_release_repeats[OF this(1-4), of sample_libs counting_outbox] this(5)
  obtain script :: "nat script" where "\<And>n. \<exists>r t fuel.
      release_nested sample_libs counting_outbox (\<lambda>_ _. script) fuel 5 (counting_world\<lparr>ext := n\<rparr>) = Some (r, t) \<and>
      calls t = replicate (Suc n) (ReleaseCall 5)" by auto
  from this[of 2] show ?thesis by (auto simp: numeral_2_eq_2 simp del: release_nested.simps)
qed

section \<open>Handlers that only release what comes before them\<close>

text \<open>A script that releases operations of a set only, whatever it reads and is answered.\<close>

inductive stays_in :: "uuid set \<Rightarrow> 'e script \<Rightarrow> bool" for A where
  Finishes: "stays_in A (Finishes out)"
| Effect: "(\<And>e. stays_in A (fst (f e))) \<Longrightarrow> stays_in A (Effect f)"
| Releases: "i \<in> A \<Longrightarrow> (\<And>r. stays_in A (k r)) \<Longrightarrow> stays_in A (Releases i k)"

definition own_identifiers :: "('e, 'y) outbox_world_scheme \<Rightarrow> bool" where
  "own_identifiers s \<longleftrightarrow> (\<forall>i p. map_of (operations s) i = Some p \<longrightarrow> op_operation_id p = i)"

text \<open>A terminating call that adds calls of the operations of a set only.\<close>

definition adds_calls ::
  "uuid set \<Rightarrow> ('e, 'y) outbox_world_scheme \<Rightarrow> ('a \<times> ('e, 'y) outbox_world_scheme) option \<Rightarrow> bool" where
  "adds_calls A s res \<longleftrightarrow> (\<exists>x t new. res = Some (x, t) \<and> calls t = calls s @ new \<and>
     set new \<subseteq> ReleaseCall ` A \<and> own_identifiers t)"

lemma run_script_adds:
  assumes "stays_in A script" and "own_identifiers s"
    and "\<And>i s. i \<in> A \<Longrightarrow> own_identifiers s \<Longrightarrow> adds_calls B s (rel i s)"
  shows "adds_calls B s (run_script rel script s)"
  using assms(1,2)
proof (induction arbitrary: s rule: stays_in.induct)
  case (Finishes out)
  then show ?case by (simp add: adds_calls_def)
next
  case (Effect f)
  have "adds_calls B (s\<lparr>ext := snd (f (ext s))\<rparr>) (run_script rel (fst (f (ext s))) (s\<lparr>ext := snd (f (ext s))\<rparr>))"
    using Effect.prems by (intro Effect.IH) (simp add: own_identifiers_def)
  then show ?case by (simp add: adds_calls_def)
next
  case (Releases i k)
  from assms(3)[OF Releases.hyps(1) Releases.prems] obtain r t new where
    1: "rel i s = Some (r, t)" "calls t = calls s @ new" "set new \<subseteq> ReleaseCall ` B" "own_identifiers t"
    by (auto simp: adds_calls_def)
  from Releases.IH[OF 1(4), of r] 1(1-3) show ?case by (auto simp: adds_calls_def)
qed

lemma finish_release_identifiers:
  assumes "own_identifiers s" and "op_operation_id p = i"
  shows "own_identifiers (snd (finish_release L ob i p out s))"
proof -
  obtain r t where b: "built_release L ob p out s = (r, t)" by fastforce
  have o: "operations t = operations s"
    using keepsD[OF outside_operations(1)[OF built_release_outside] b] .
  show ?thesis
  proof (cases r)
    case (Inl e)
    then show ?thesis using b o assms(1) by (simp add: finish_release_eq bindM_run own_identifiers_def)
  next
    case (Inr q)
    let ?u = "t\<lparr>operations := dict_set i q (operations t)\<rparr>"
    have "op_operation_id q = i" using built_release_Inr[OF b[unfolded Inr]] assms(2) by (simp add: settles_def)
    then have u: "own_identifiers ?u" using assms(1) o by (auto simp: own_identifiers_def)
    obtain r3 v where e: "outbox_event L ob (if op_status q = RELEASED then ''outbox.released''
       else ''outbox.release_failed'') q ?u = (r3, v)" by fastforce
    have "operations v = operations ?u" by (rule keepsD[OF outbox_event_operations(1) e])
    with u have "own_identifiers v" unfolding own_identifiers_def by simp
    moreover have "snd (finish_release L ob i p out s) = v"
      using b Inr e by (simp add: finish_release_eq bindM_run bindM_cases split: sum.split)
    ultimately show ?thesis by simp
  qed
qed

lemma ordered_release:
  fixes rank :: "uuid \<Rightarrow> nat" and s :: "('e, 'y) outbox_world_scheme"
  assumes "\<And>i args. stays_in {j. rank j < rank i} (scripts i args)"
  shows "rank i < n \<Longrightarrow> own_identifiers s \<Longrightarrow>
    \<exists>r t rest. release_nested L ob scripts n i s = Some (r, t) \<and> own_identifiers t \<and>
      calls t = calls s @ (case map_of (operations s) i of
        Some p \<Rightarrow> if op_status p = STAGED \<and> staged_handlers s i \<noteq> None then ReleaseCall i # rest else []
      | None \<Rightarrow> []) \<and> set rest \<subseteq> ReleaseCall ` {j. rank j < rank i}"
proof (induction n arbitrary: i s)
  case (Suc n)
  show ?case
  proof (cases "\<exists>p. map_of (operations s) i = Some p \<and> op_status p = STAGED \<and> staged_handlers s i \<noteq> None")
    case False
    then show ?thesis using Suc.prems(2) by (auto split: option.split intro: exI[of _ "[]"])
  next
    case True
    then obtain p where p: "map_of (operations s) i = Some p" "op_status p = STAGED" "staged_handlers s i \<noteq> None"
      by blast
    with Suc.prems(2) have own: "op_operation_id p = i" by (simp add: own_identifiers_def)
    let ?s = "s\<lparr>calls := calls s @ [ReleaseCall i]\<rparr>"
    have "adds_calls {j. rank j < rank i} ?s (run_script (release_nested L ob scripts n) (scripts i (op_arguments p)) ?s)"
    proof (rule run_script_adds[OF assms])
      show "own_identifiers ?s" using Suc.prems(2) by (simp add: own_identifiers_def)
      fix j and u :: "('e, 'y) outbox_world_scheme"
      assume j: "j \<in> {j. rank j < rank i}" and u: "own_identifiers u"
      then have "rank j < n" using Suc.prems(1) by simp
      from Suc.IH[OF this u] obtain r t rest where
        "release_nested L ob scripts n j u = Some (r, t)" "own_identifiers t"
        "calls t = calls u @ (case map_of (operations u) j of
          Some p \<Rightarrow> if op_status p = STAGED \<and> staged_handlers u j \<noteq> None then ReleaseCall j # rest else []
        | None \<Rightarrow> [])" (is "_ = _ @ ?new") and rest: "set rest \<subseteq> ReleaseCall ` {l. rank l < rank j}" by blast
      moreover have "set ?new \<subseteq> ReleaseCall ` {l. rank l < rank i}"
        using j rest by (fastforce split: option.split)
      ultimately show "adds_calls {j. rank j < rank i} u (release_nested L ob scripts n j u)"
        unfolding adds_calls_def by blast
    qed
    then obtain out t rest where run:
      "run_script (release_nested L ob scripts n) (scripts i (op_arguments p)) ?s = Some (out, t)"
      "calls t = calls s @ ReleaseCall i # rest" "set rest \<subseteq> ReleaseCall ` {j. rank j < rank i}" "own_identifiers t"
      by (auto simp: adds_calls_def)
    let ?out = "case out of Raised \<Rightarrow> None | Returned v \<Rightarrow> Some v"
    have "release_nested L ob scripts (Suc n) i s = Some (finish_release L ob i p ?out t)"
      using p run(1) own by auto
    moreover have "own_identifiers (snd (finish_release L ob i p ?out t))"
      by (rule finish_release_identifiers[OF run(4) own])
    ultimately show ?thesis
      using run(2,3) p finish_release_calls[of L ob i p ?out t]
      by (cases "finish_release L ob i p ?out t") auto
  qed
qed simp

text \<open>
  C23: Release with nested releases returns, when the operations can be ordered so that every
  handler releases only operations before its own: whatever the handlers read, do and are
  answered, nesting as deep as the order is enough, the handler is called exactly once if
  its operation is staged and not at all otherwise, and all the other handlers that are
  called are those of earlier operations.
\<close>

theorem ordered_release_returns:
  fixes rank :: "uuid \<Rightarrow> nat"
  assumes "\<And>i args. stays_in {j. rank j < rank i} (scripts i args)" and "own_identifiers s" and "rank i < n"
  shows "\<exists>r t rest. release_nested L ob scripts n i s = Some (r, t) \<and>
    calls t = calls s @ (case map_of (operations s) i of
        Some p \<Rightarrow> if op_status p = STAGED \<and> staged_handlers s i \<noteq> None then ReleaseCall i # rest else []
      | None \<Rightarrow> []) \<and> set rest \<subseteq> ReleaseCall ` {j. rank j < rank i}"
  using ordered_release[of rank scripts i n s L ob] assms by blast

text \<open>The handler of 6 releases 5, that of 5 nothing.\<close>

definition notify_first :: "uuid \<Rightarrow> json_object \<Rightarrow> nat script" where
  "notify_first i args = (if i = 6 then Releases 5 (\<lambda>_. Finishes (Returned PyNone)) else Finishes (Returned PyNone))"

theorem ordered_release_returns_witness:
  "\<exists>r t rest. release_nested sample_libs counting_outbox notify_first 2 6 counting_world = Some (r, t) \<and>
     calls t = ReleaseCall 6 # rest \<and> set rest \<subseteq> {ReleaseCall 5}"
proof -
  let ?rank = "\<lambda>i. if i = 6 then 1 else if i = 5 then 0 else 2 :: nat"
  have "{j :: uuid. ?rank j < 1} = {5}" by auto
  then have "stays_in {j. ?rank j < ?rank i} (notify_first i args)" for i args
    by (auto simp: notify_first_def intro: stays_in.intros)
  moreover have "own_identifiers counting_world"
    by (simp add: own_identifiers_def counting_world_def sample_staged_def)
  ultimately show ?thesis
    using ordered_release_returns[of ?rank notify_first counting_world 6 2 sample_libs counting_outbox]
      \<open>{j :: uuid. ?rank j < 1} = {5}\<close>
    by (simp add: counting_world_def sample_staged_def del: release_nested.simps)
qed

end
