(* ===== verification/Facade_Threads.thy ===== *)
theory Facade_Threads
  imports Facade_Correctness Concurrency
begin

text \<open>
  Protected functions called by several threads at once. The wrapper of \<^verbatim>\<open>protect\<close> is written
  once more as a thread; a call makes its intent in steps of its own and then runs \<open>execute\<close>
  as a thread. Whatever else runs at the same time, the calls whose arguments agree on the
  fields of the key run the function at most once.
\<close>

section \<open>A call as a thread\<close>

definition call_protected_thread ::
  "'z rt_libs_scheme \<Rightarrow> (pyval \<Rightarrow> string) \<Rightarrow> 'e agent_actum \<Rightarrow> 'e protected_tool \<Rightarrow> pyval list \<Rightarrow> named_values \<Rightarrow>
   (('e, 'y) idem_world_scheme, execution_result) thread" where
  "call_protected_thread L object_str ac pt args kwargs =
     bindT (liftT (bind_json_arguments L object_str (fn_parameters (pt_function pt)) args kwargs)) (\<lambda>arguments.
     bindT (liftT (wrapper_key L pt arguments)) (\<lambda>key.
     bindT (atomic uuid4) (\<lambda>intent_id.
     bindT (atomic (read_clock (ac_clock ac))) (\<lambda>created_at.
     bindT (liftT (ActionIntent L
       \<lparr>ai_intent_id = intent_id, ai_contract_id = tc_contract_id (pt_contract pt),
        ai_tool_name = tc_name (pt_contract pt), ai_contract_version = tc_version (pt_contract pt),
        ai_requester_id = ''agentactum.facade'', ai_arguments = arguments, ai_created_at = created_at,
        ai_idempotency_key = key, ai_context = []\<rparr>)) (\<lambda>action.
     bindT (case pt_context_factory pt of
        None \<Rightarrow> retT [] | Some f \<Rightarrow> atomic (call_user (f arguments))) (\<lambda>context.
     execute_thread L (facade_runtime ac) action context))))))"

lemma run_call_protected_thread:
  "run_thread (call_protected_thread L object_str ac pt args kwargs) = call_protected L object_str ac pt args kwargs"
  by (simp add: call_protected_thread_def call_protected_def run_execute_thread cong: branch_congs)

section \<open>Its steps\<close>

lemma call_evolves: "obeys records_evolve (call_protected_thread L object_str ac pt args kwargs)"
  unfolding call_protected_thread_def
  by (intro obeys_intros records_thread.clocks records_thread.execution records_thread.outside_atomic keeps_beyond)

lemma spends_liftT: "(\<And>x. r = Inr x \<Longrightarrow> spends c n (f x)) \<Longrightarrow> spends c n (bindT (liftT r) f)"
  by (cases r) (simp_all add: spends.Ended)

lemma wrapped_execution_spends:
  assumes "pydantic_documented L" and mem: "ac_idempotency_backend ac = InMemoryIdempotencyBackend clk"
    and "tc_idempotency_key_required (pt_contract pt)"
    and "DomainName L (tc_name (pt_contract pt)) = Some (tc_name (pt_contract pt))"
    and "wrapper_key L pt arguments = Inr key"
    and "ActionIntent L (wrapped_action pt arguments key i t) = Inr action"
    and "create_key L (tc_name (pt_contract pt)) arguments (key_fields pt) = Inr k"
  shows "spends (creates k) 0 (execute_thread L (facade_runtime ac) action x)"
proof (rule execute_spends)
  show "rt_idempotency (facade_runtime ac) = InMemoryIdempotencyBackend clk"
    using mem by (simp add: facade_runtime_def SingleActionRuntime_def)
  show "ai_idempotency_key action = Some k" using wrapped_key[OF assms(1,3-6)] assms(7) by auto
qed

lemma factory_quiet:
  "obeys quiet ((case factory of None \<Rightarrow> retT [] | Some f \<Rightarrow> atomic (call_user (f a))) ::
     (('e, 'y) idem_world_scheme, json_object) thread)"
  by (intro obeys_intros quiet_thread.outside_atomic keeps_beyond)

lemma keyed_call_spends:
  assumes "pydantic_documented L" and "ac_idempotency_backend ac = InMemoryIdempotencyBackend clk"
    and "tc_idempotency_key_required (pt_contract pt)"
    and "DomainName L (tc_name (pt_contract pt)) = Some (tc_name (pt_contract pt))"
    and a: "bind_json_arguments L object_str (fn_parameters (pt_function pt)) args kwargs = Inr a"
    and k: "create_key L (tc_name (pt_contract pt)) a (key_fields pt) = Inr k"
  shows "spends (creates k) 0 (call_protected_thread L object_str ac pt args kwargs)"
  unfolding call_protected_thread_def a
  by (simp, intro spends_liftT quiet_then quiet_thread.clocks factory_quiet)
    (rule wrapped_execution_spends[OF assms(1-4) _ _ k, unfolded wrapped_action_def])

text \<open>A call that has no key runs nothing.\<close>

lemma unkeyed_call_spends:
  assumes "tc_idempotency_key_required (pt_contract pt)"
    and "bind_json_arguments L object_str (fn_parameters (pt_function pt)) args kwargs = Inr a"
    and "create_key L (tc_name (pt_contract pt)) a (key_fields pt) = Inl e"
  shows "spends c n (call_protected_thread L object_str ac pt args kwargs)"
  using assms by (simp add: call_protected_thread_def wrapper_key_def spends.Ended)

section \<open>Many calls at once\<close>

text \<open>Calls of one protected function, and other executions over the same services.\<close>

definition call_pool ::
  "'z rt_libs_scheme \<Rightarrow> (pyval \<Rightarrow> string) \<Rightarrow> 'e agent_actum \<Rightarrow> 'e protected_tool \<Rightarrow>
   (pyval list \<times> named_values) list \<Rightarrow> 'e request list \<Rightarrow> ('e, 'y) idem_world_scheme \<Rightarrow>
   (('e, 'y) idem_world_scheme, execution_result) pool" where
  "call_pool L object_str ac pt cs qs s =
     (map (\<lambda>(args, kwargs). call_protected_thread L object_str ac pt args kwargs) cs @
      fst (execution_pool L qs s), s)"

definition agrees ::
  "'z rt_libs_scheme \<Rightarrow> (pyval \<Rightarrow> string) \<Rightarrow> 'e protected_tool \<Rightarrow> json_object \<Rightarrow> pyval list \<times> named_values \<Rightarrow> bool" where
  "agrees L object_str pt a call \<longleftrightarrow>
     (case bind_json_arguments L object_str (fn_parameters (pt_function pt)) (fst call) (snd call) of
        Inl e \<Rightarrow> False | Inr b \<Rightarrow> list_all (\<lambda>f. dict_get b f = dict_get a f) (key_fields pt))"

lemma agreeing_call_spends:
  assumes "pydantic_documented L" and "ac_idempotency_backend ac = InMemoryIdempotencyBackend clk"
    and req: "tc_idempotency_key_required (pt_contract pt)"
    and "DomainName L (tc_name (pt_contract pt)) = Some (tc_name (pt_contract pt))"
    and "agrees L object_str pt a call"
    and k: "case create_key L (tc_name (pt_contract pt)) a (key_fields pt) of Inl e \<Rightarrow> True | Inr k' \<Rightarrow> k' = k"
  shows "spends (creates k) 0 (call_protected_thread L object_str ac pt (fst call) (snd call))"
proof -
  obtain b where b: "bind_json_arguments L object_str (fn_parameters (pt_function pt)) (fst call) (snd call) = Inr b"
    "list_all (\<lambda>f. dict_get b f = dict_get a f) (key_fields pt)"
    using assms(5) by (auto simp: agrees_def split: sum.splits)
  have same: "create_key L (tc_name (pt_contract pt)) b (key_fields pt) = create_key L (tc_name (pt_contract pt)) a (key_fields pt)"
    using b(2) by (intro create_key_cong) (simp add: list_all_iff)
  show ?thesis
  proof (cases "create_key L (tc_name (pt_contract pt)) a (key_fields pt)")
    case (Inl e)
    with same have "create_key L (tc_name (pt_contract pt)) b (key_fields pt) = Inl e" by simp
    then show ?thesis by (rule unkeyed_call_spends[OF req b(1)])
  next
    case (Inr k')
    with same k have "create_key L (tc_name (pt_contract pt)) b (key_fields pt) = Inr k" by simp
    then show ?thesis by (rule keyed_call_spends[OF assms(1-4) b(1)])
  qed
qed

lemma call_pool_evolves: "list_all (obeys records_evolve) (fst (call_pool L object_str ac pt cs qs s))"
  using pool_evolves[of L qs s] by (auto simp: call_pool_def list_all_iff call_evolves)

text \<open>
  C8: A protected function runs once per key, under every interleaving. Any number of threads
  call a protected function whose contract requires a key at once, over an in-memory store,
  while anything else is executed over the same services. The calls whose arguments agree
  with given ones on the fields that make the key run the function at most once in total.
\<close>

theorem concurrent_function_once:
  assumes "pydantic_documented L" and "ac_idempotency_backend ac = InMemoryIdempotencyBackend clk"
    and "tc_idempotency_key_required (pt_contract pt)"
    and "DomainName L (tc_name (pt_contract pt)) = Some (tc_name (pt_contract pt))"
  shows "calls_made (\<lambda>i. i < length cs \<and> agrees L object_str pt a (cs ! i)) turns
    (call_pool L object_str ac pt cs qs s) \<le> 1"
proof -
  obtain k where k: "case create_key L (tc_name (pt_contract pt)) a (key_fields pt) of Inl e \<Rightarrow> True | Inr k' \<Rightarrow> k' = k"
    by (cases "create_key L (tc_name (pt_contract pt)) a (key_fields pt)") auto
  let ?P = "\<lambda>i. i < length cs \<and> agrees L object_str pt a (cs ! i)" and ?p = "call_pool L object_str ac pt cs qs s"
  have "fst ?p ! i = call_protected_thread L object_str ac pt (fst (cs ! i)) (snd (cs ! i))" if "i < length cs" for i
    using that by (simp add: call_pool_def nth_append split_beta)
  then have "accounted (creates k) ?P (\<lambda>_. 0) ?p"
    by (simp add: accounted_def agreeing_call_spends[OF assms _ k])
  from calls_on_credit[OF this, of turns]
  have "calls_made ?P turns ?p \<le> total (creates k) ?P turns ?p" by simp
  moreover have "total (creates k) ?P turns ?p + occupied k (snd ?p) \<le>
      occupied k (snd (run_schedule turns ?p))"
    by (rule total_bound[OF call_pool_evolves]) (rule recs.refl, rule occupied_step)
  moreover have "occupied k (snd (run_schedule turns ?p)) \<le> 1" by (simp add: occupied_def)
  ultimately show ?thesis by linarith
qed

theorem concurrent_function_once_witness:
  "calls_made (\<lambda>i. i < 2 \<and> agrees sample_rt_libs (\<lambda>_. []) refund_tool [(PyStr ''amount'', PyInt 5)]
       ([([PyInt 5], [(''trace'', PyInt 1)]), ([PyInt 5], [(''trace'', PyInt 2)])] ! i))
     [0, 1, 0, 0, 1, 1, 0, 1, 0, 0, 1, 1, 0, 0]
     (call_pool sample_rt_libs (\<lambda>_. []) sample_facade refund_tool
       [([PyInt 5], [(''trace'', PyInt 1)]), ([PyInt 5], [(''trace'', PyInt 2)])] [] (sample_state ())) \<le> 1"
  using concurrent_function_once[OF sample_rt_libs_documented, of sample_facade int refund_tool
      "[([PyInt 5], [(''trace'', PyInt 1)]), ([PyInt 5], [(''trace'', PyInt 2)])]" "\<lambda>_. []"
      "[(PyStr ''amount'', PyInt 5)]" "[0, 1, 0, 0, 1, 1, 0, 1, 0, 0, 1, 1, 0, 0]" "[]" "sample_state ()"]
  by (simp add: sample_facade_def AgentActum_def refund_tool_def sample_contract_def refund_name numeral_2_eq_2
      del: calls_made.simps)

end
