(* ===== verification/Spec2Isabelle.thy ===== *)
theory Spec2Isabelle
  imports Policy_Correctness Runtime_Safety Runtime_Completion Audit_Trail Transactions
    Compensation_Correctness Outbox_Correctness Approvals Facade_Correctness Exactly_Once Audit_First
    Reentrant_Gates
    Outbox_Threads Outbox_Reentrancy Facade_Threads
begin

text \<open>
  A verification development for AgentActum, a Python library that puts an action boundary
  between an agent and the tools it calls. File names below are under
  \<^verbatim>\<open>src/src/agentactum/\<close>.

  \<^bold>\<open>The program.\<close> An agent's wish is an \<^verbatim>\<open>ActionIntent\<close>; a tool is a \<^verbatim>\<open>ToolContract\<close> with a
  handler in a \<^verbatim>\<open>ToolRegistry\<close>. \<^verbatim>\<open>SingleActionRuntime.execute\<close> is the pipeline every intent
  goes through: record it in the \<^verbatim>\<open>Ledger\<close>, resolve the tool, compare intent and contract,
  validate the arguments, ask the \<^verbatim>\<open>PolicyEngine\<close>, ask the \<^verbatim>\<open>ApprovalChecker\<close> when it says so,
  claim the idempotency key in the \<^verbatim>\<open>IdempotencyBackend\<close>, run the preconditions, call the
  handler, validate its output, run the postconditions, complete the claim. Each stage may end
  the run with a structured failure. \<^verbatim>\<open>AgentActum.protect\<close> wraps a Python function so that a
  call of it becomes such an intent, with a key from \<^verbatim>\<open>create_key\<close>; \<^verbatim>\<open>LangGraphAdapter\<close> wraps
  the wrapper. \<^verbatim>\<open>Transaction\<close>, the compensation coordinator and the outbox are used beside the
  pipeline by an application.

  \<^bold>\<open>How it is modelled.\<close> Python values are the datatype \<open>pyval\<close>, records are the pydantic
  models, and a constructor named like the class is its validation. An operation is a function
  of the state into \<open>error + 'a\<close> and the new state (\<open>action\<close> in Prelude): an exception that
  leaves a method is \<open>Inl\<close>, and the state it leaves behind is kept. The state is a record that
  grows with the services: \<open>world\<close> (clocks, identifiers, the log \<open>calls\<close> of effectful calls and
  \<open>ext\<close>, everything the user's callables read and write), \<open>ledger_world\<close> (the events),
  \<open>idem_world\<close> (the records by key), \<open>outbox_world\<close> (the operations). Handlers, policies, checks,
  compensators and custom services are arbitrary functions on \<open>ext\<close> that return or raise. Each
  method of an in-memory service but \<^verbatim>\<open>release_all\<close> runs under its lock, and is one atomic
  step, with the clock it reads under the lock; a call of a user's callable is one step too, so
  that the steps of two callables are not interleaved. A step is always enabled: waiting for a
  lock is not represented.

  \<^bold>\<open>The theories\<close>, in the order of the code:
  \<^item> Prelude: errors, results, actions and their framing rules, the interface \<open>evolution\<close> of
    state changes that only go forward, association lists. Py_Values: Python values, the text
    types of \<^verbatim>\<open>_model.py\<close> and the documented behaviour of pydantic. World: the state of the
    process, and the interfaces \<open>stable_store\<close> and \<open>guarded_store\<close> that registry, ledger,
    idempotency store and outbox implement. Enums: \<^verbatim>\<open>enums.py\<close>.
  \<^item> Contracts (\<^verbatim>\<open>contracts/\<close>), Execution_Models (\<^verbatim>\<open>execution/models.py\<close>), Audit_Ledger
    (\<^verbatim>\<open>ledger/\<close>), Idempotency (\<^verbatim>\<open>idempotency/models.py\<close>, \<^verbatim>\<open>idempotency/backend.py\<close>), Approvals
    (\<^verbatim>\<open>approvals/\<close>).
  \<^item> Policies (\<^verbatim>\<open>policies/\<close>) and Policy_Correctness: the engine is exactly as strict as the
    strictest policy and the risk require, fails closed, and the library's policies decide
    what they say.
  \<^item> Schema_Validation: the validator at the end of \<^verbatim>\<open>execution/runtime.py\<close> decides the
    inductive relation \<open>conforms\<close>.
  \<^item> Runtime (\<^verbatim>\<open>execution/runtime.py\<close>), one definition per stage of \<^verbatim>\<open>execute\<close>. Runtime_Gates
    characterises by \<open>cleared\<close> exactly when the handler is called; Runtime_State follows the
    ledger and the records through a run; Runtime_Outcomes shows by \<open>run_handler_exact\<close> that
    a result is the one that \<open>handler_outcome\<close>, the specification, gives for what the handler
    did and for the verdict of the postconditions; Runtime_Samples holds a concrete runtime. The properties are in Runtime_Safety (at most once per key, replay,
    approval, veto, validated success), Runtime_Completion (the outcome is reported and the key
    completed; where docs/security-invariants.md asks for an indeterminate outcome after a
    handler raised, the code reports a plain failure), Runtime_Audit (the ledger, and what
    deserves to run runs) and Audit_Trail (the finite list of event sequences an execution can
    leave, each with the calls, the result and the record of the key it stands for).
  \<^item> Transactions (\<^verbatim>\<open>transactions/models.py\<close>): the table, snapshots, lifecycles. Compensation and
    Compensation_Correctness (\<^verbatim>\<open>compensation/\<close>). Outbox and Outbox_Correctness (\<^verbatim>\<open>outbox/\<close>);
    Outbox_Threads interleaves workers that release operations, Outbox_Reentrancy lets handlers
    call \<^verbatim>\<open>release\<close> themselves.
  \<^item> Json_Text and Sha256: the text of \<^verbatim>\<open>json.dumps\<close> and the digest of \<^verbatim>\<open>hashlib\<close>, with the proof
    that the text determines the value. Idempotency_Keys (\<^verbatim>\<open>idempotency/keys.py\<close>).
  \<^item> Threads: threads of atomic steps and schedules. Runtime_Threads: \<^verbatim>\<open>execute\<close> as a thread,
    equal to the method when it runs alone, and the interfaces \<open>quiet_relation\<close> and
    \<open>step_relation\<close> to what each of its steps keeps. Credits: a bound on the calls of a pool of
    threads by the credit their steps earn. Concurrency (at most once per key; ledger and store
    only go forward), Agreement (all callers of one key are told the same result),
    Exactly_Once and Audit_First (no call before its event) hold under every interleaving. Guarded_Calls and Concurrent_Gates:
    the calls of a schedule are those of different executions, each of which has passed the
    gates of the pipeline in order along its own steps. Runtime_Reentrancy: handlers that
    call \<^verbatim>\<open>execute\<close> themselves; with keys they stay within one call per key and their nesting
    ends. Reentrant_Gates: they do not get around the gates.
  \<^item> Argument_Binding, Facade and Facade_Correctness (\<^verbatim>\<open>facade.py\<close>, \<^verbatim>\<open>langgraph.py\<close>): the
    five kinds of parameters, what the wrapper collects for each, and that protection is
    transparent for parameters that can be given by keyword;
    Facade_Threads lets threads call a protected function at once.

  \<^bold>\<open>Loops.\<close> Every loop of the source is structural recursion on the list it walks; the
  validator recurses on the schema document, and its termination measure is the size of that
  document. Only handlers that call back need not end: \<open>release_nested\<close> and
  \<open>execute_reentrant\<close> have fuel, the depth of the nesting. \<open>ordered_release_returns\<close> says when
  releases end and how much is enough; \<open>reentrant_nesting_ends\<close> shows that for executions with
  keys the number of keys without a record is enough.

  \<^bold>\<open>Parameters.\<close> \<open>libs\<close> and \<open>rt_libs\<close> are what pydantic does (text constraints, JsonValue, the
  serializer of ExecutionResult) and the text of a float; the hypotheses
  \<open>pydantic_documented\<close>, \<open>serializer_documented\<close> and \<open>float_repr_documented\<close> state what its
  documentation promises, and \<open>sample_rt_libs\<close> shows that they can hold together.

  \<^bold>\<open>Not modelled.\<close> The configuration of pydantic models (frozen, extra fields) and coercions on
  input; text outside code points 0 to 255 and the sign of a float zero; one-shot iterators as \<^verbatim>\<open>idempotency_fields\<close>, which only the first call can read;
  waiting for locks, hence how long a thread takes;
  exceptions outside \<^verbatim>\<open>Exception\<close>; the lines of the \<^verbatim>\<open>__init__.py\<close> files, which only
  re-export names.
\<close>

end
